(* ===== verification/Prelude.thy ===== *)
theory Prelude
  imports Main "HOL-Library.Word" "HOL-Library.Char_ord" "HOL-Library.List_Lexorder"
    "HOL-Library.Multiset"
begin

section \<open>Shared vocabulary of the development\<close>

text \<open>
  What every component uses: the integer types of the source at their width, the three ways a
  Rust function can end (a value, an error value, a panic), the saturating and checked
  operations of the standard library, and two locales for step relations: one that lifts a
  one-step invariant to all reachable states, one that bounds the length of every execution.
  The collections below gather the rewrite rules that the component proofs share.
\<close>

named_theorems outcome_simps \<open>rewriting of outcomes and of the operations that return one\<close>
named_theorems word_simps \<open>machine integers read as natural numbers\<close>
named_theorems inv_intros \<open>preservation rules of invariants\<close>

subsection \<open>Machine integers\<close>

type_synonym u8 = "8 word"
type_synonym i32 = "32 word"
type_synonym i64 = "64 word"
type_synonym u32 = "32 word"
type_synonym u64 = "64 word"
type_synonym u128 = "128 word"

text \<open>
  A \<open>usize\<close> counts elements of a collection in memory, which holds fewer than \<open>2 ^ 63\<close> of
  them, so counters of elements are natural numbers. Subtraction is checked wherever the source
  subtracts.
\<close>

type_synonym usize = nat

definition saturating_sub :: "'a::len word \<Rightarrow> 'a word \<Rightarrow> 'a word" where
  "saturating_sub a b = (if a < b then 0 else a - b)"

definition saturating_add :: "'a::len word \<Rightarrow> 'a word \<Rightarrow> 'a word" where
  "saturating_add a b = (if unat a + unat b < 2 ^ LENGTH('a) then a + b else - 1)"

lemma unat_saturating_sub [simp, word_simps]:
  "unat (saturating_sub a b) = unat a - unat b"
  by (auto simp: saturating_sub_def unat_sub word_less_nat_alt word_le_nat_alt not_less)

lemma unat_saturating_add [word_simps]:
  "unat (saturating_add a b :: 'a::len word) = min (unat a + unat b) (2 ^ LENGTH('a) - 1)"
proof (cases "unat a + unat b < 2 ^ LENGTH('a)")
  case True
  then have "unat (a + b) = unat a + unat b" by (rule unat_add_lem [THEN iffD1])
  with True show ?thesis by (simp add: saturating_add_def)
next
  case False
  then show ?thesis by (simp add: saturating_add_def unsigned_minus_1_eq_mask mask_eq_exp_minus_1)
qed

subsection \<open>How a call ends\<close>

datatype panic = Unwrap_None | Arith_Overflow | Div_By_Zero | Index_Out_Of_Bounds | Explicit_Panic

text \<open>
  \<open>Ok\<close> and \<open>Err\<close> are the constructors of \<open>Result\<close>; \<open>Panic\<close> stands for an
  \<open>unwrap\<close> on \<open>None\<close>, an arithmetic overflow (checked arithmetic), and the like.
\<close>

datatype ('e, 'a) outcome = Ok 'a | Err 'e | Panic panic

fun and_then :: "('e, 'a) outcome \<Rightarrow> ('a \<Rightarrow> ('e, 'b) outcome) \<Rightarrow> ('e, 'b) outcome" where
  "and_then (Ok x) f = f x"
| "and_then (Err e) f = Err e"
| "and_then (Panic p) f = Panic p"

fun is_ok :: "('e, 'a) outcome \<Rightarrow> bool" where
  "is_ok (Ok _) = True"
| "is_ok _ = False"

fun no_panic :: "('e, 'a) outcome \<Rightarrow> bool" where
  "no_panic (Panic _) = False"
| "no_panic _ = True"

text \<open>\<open>Option::ok_or\<close> and \<open>Option::unwrap\<close>.\<close>

definition ok_or :: "'a option \<Rightarrow> 'e \<Rightarrow> ('e, 'a) outcome" where
  "ok_or x e = (case x of None \<Rightarrow> Err e | Some v \<Rightarrow> Ok v)"

definition unwrap :: "'a option \<Rightarrow> ('e, 'a) outcome" where
  "unwrap x = (case x of None \<Rightarrow> Panic Unwrap_None | Some v \<Rightarrow> Ok v)"

text \<open>Checked subtraction of counters and checked addition of words.\<close>

definition checked_dec :: "usize \<Rightarrow> ('e, usize) outcome" where
  "checked_dec n = (if n = 0 then Panic Arith_Overflow else Ok (n - 1))"

definition add_w :: "'a::len word \<Rightarrow> 'a word \<Rightarrow> ('e, 'a word) outcome" where
  "add_w a b = (if unat a + unat b < 2 ^ LENGTH('a) then Ok (a + b) else Panic Arith_Overflow)"

text \<open>\<open>Result::map_err\<close>, and indexing of a slice.\<close>

fun map_err :: "('e \<Rightarrow> 'f) \<Rightarrow> ('e, 'a) outcome \<Rightarrow> ('f, 'a) outcome" where
  "map_err g (Ok v) = Ok v"
| "map_err g (Err e) = Err (g e)"
| "map_err g (Panic p) = Panic p"

definition nth_checked :: "'a list \<Rightarrow> nat \<Rightarrow> ('e, 'a) outcome" where
  "nth_checked xs i = (if i < length xs then Ok (xs ! i) else Panic Index_Out_Of_Bounds)"

lemma and_then_Ok [outcome_simps]:
  "and_then r f = Ok y \<longleftrightarrow> (\<exists>x. r = Ok x \<and> f x = Ok y)"
  by (cases r) auto

lemma and_then_Err [outcome_simps]:
  "and_then r f = Err e \<longleftrightarrow> r = Err e \<or> (\<exists>x. r = Ok x \<and> f x = Err e)"
  by (cases r) auto

lemma and_then_no_panic [outcome_simps]:
  "no_panic (and_then r f) \<longleftrightarrow> no_panic r \<and> (\<forall>x. r = Ok x \<longrightarrow> no_panic (f x))"
  by (cases r) auto

lemma and_then_cong [fundef_cong]:
  "r = r' \<Longrightarrow> (\<And>x. r' = Ok x \<Longrightarrow> f x = g x) \<Longrightarrow> and_then r f = and_then r' g"
  by (cases r') auto

lemma ok_or_simps [simp, outcome_simps]:
  "ok_or None e = Err e" "ok_or (Some v) e = Ok v"
  by (simp_all add: ok_or_def)

lemma unwrap_simps [simp, outcome_simps]:
  "unwrap None = Panic Unwrap_None" "unwrap (Some v) = Ok v"
  by (simp_all add: unwrap_def)

lemma checked_dec_simps [simp, outcome_simps]:
  "checked_dec 0 = Panic Arith_Overflow" "checked_dec (Suc n) = Ok n"
  by (simp_all add: checked_dec_def)

lemma unwrap_Ok [outcome_simps]: "unwrap x = Ok v \<longleftrightarrow> x = Some v"
  by (cases x) auto

lemma ok_or_Ok [outcome_simps]: "ok_or x e = Ok v \<longleftrightarrow> x = Some v"
  by (cases x) auto

lemma checked_dec_Ok [outcome_simps]: "checked_dec n = Ok m \<longleftrightarrow> n = Suc m"
  by (auto simp: checked_dec_def)

lemma add_w_Ok [outcome_simps]:
  "add_w a b = Ok c \<longleftrightarrow> unat a + unat b < 2 ^ LENGTH('a) \<and> c = (a :: 'a::len word) + b"
  by (auto simp: add_w_def)

lemma unat_add_w: "add_w a b = Ok c \<Longrightarrow> unat c = unat a + unat b"
  by (metis add_w_Ok unat_add_lem)

lemma no_panic_iff: "no_panic r \<longleftrightarrow> (\<forall>p. r \<noteq> Panic p)"
  by (cases r) auto

lemma no_panic_map_err [simp]: "no_panic (map_err f r) = no_panic r"
  by (cases r) simp_all

lemma map_err_Ok [simp, outcome_simps]: "map_err g r = Ok v \<longleftrightarrow> r = Ok v"
  by (cases r) simp_all

lemma map_err_Err [outcome_simps]: "map_err g r = Err e \<longleftrightarrow> (\<exists>d. r = Err d \<and> e = g d)"
  by (cases r) auto

subsection \<open>Step relations: invariants and bounded executions\<close>

locale step_invariant =
  fixes init :: "'s \<Rightarrow> bool"
    and step :: "'s \<Rightarrow> 's \<Rightarrow> bool"
    and inv :: "'s \<Rightarrow> bool"
  assumes init_inv: "init s \<Longrightarrow> inv s"
    and step_inv: "inv s \<Longrightarrow> step s t \<Longrightarrow> inv t"
begin

lemma steps_inv: "step\<^sup>*\<^sup>* s t \<Longrightarrow> inv s \<Longrightarrow> inv t"
  by (induction rule: rtranclp_induct) (auto intro: step_inv)

lemma reachable_inv: "init s \<Longrightarrow> step\<^sup>*\<^sup>* s t \<Longrightarrow> inv t"
  by (blast intro: init_inv steps_inv)

end

text \<open>
  A step relation whose every step lowers a natural-number rank has executions of at most that
  length, so it cannot run forever.
\<close>

locale ranked_steps = step_invariant +
  fixes rank :: "'s \<Rightarrow> nat"
  assumes step_rank: "inv s \<Longrightarrow> step s t \<Longrightarrow> rank t < rank s"
begin

lemma steps_rank: "(step ^^ n) s t \<Longrightarrow> inv s \<Longrightarrow> n + rank t \<le> rank s \<and> inv t"
proof (induction n arbitrary: t)
  case 0
  then show ?case by simp
next
  case (Suc n)
  from Suc.prems(1) obtain u where u: "(step ^^ n) s u" "step u t" by auto
  from Suc.IH [OF u(1) Suc.prems(2)] have "n + rank u \<le> rank s" "inv u" by auto
  with u(2) step_rank [of u t] step_inv [of u t] show ?case by auto
qed

lemma steps_bounded: "init s \<Longrightarrow> (step ^^ n) s t \<Longrightarrow> n \<le> rank s"
  using steps_rank init_inv by fastforce

end

subsection \<open>Bytes and characters\<close>

lemma of_char_char_of_unat: "(of_char (char_of (unat b) :: char) :: u8) = b"
proof -
  have "unat b < 256" using unsigned_less [of b, where ?'a = nat] by simp
  then have "(of_char (char_of (unat b) :: char) :: nat) = unat b" by simp
  then have "of_nat (of_char (char_of (unat b) :: char)) = b" by (simp del: of_char_of)
  then show ?thesis by (simp only: of_nat_of_char)
qed

subsection \<open>Lists\<close>

lemma length_filter_Suc: "x \<in> set xs \<Longrightarrow> P x \<Longrightarrow> 0 < length (filter P xs)"
  by (induction xs) auto

lemma filter_filter_commute: "filter P (filter Q xs) = filter Q (filter P xs)"
  by (induction xs) auto

lemma distinct_length_eq_set:
  "distinct xs \<Longrightarrow> distinct ys \<Longrightarrow> set xs \<subseteq> set ys \<Longrightarrow> length xs = length ys \<Longrightarrow> set xs = set ys"
  by (metis card_subset_eq distinct_card finite_set)

text \<open>\<open>x\<close> comes before \<open>y\<close> in a list.\<close>

definition before :: "'a list \<Rightarrow> 'a \<Rightarrow> 'a \<Rightarrow> bool" where
  "before xs x y \<longleftrightarrow> (\<exists>ps qs. xs = ps @ y # qs \<and> x \<in> set ps)"

lemma before_append [simp, intro]: "before xs x y \<Longrightarrow> before (xs @ ys) x y"
  by (force simp: before_def)

lemma before_snoc: "x \<in> set xs \<Longrightarrow> before (xs @ [y]) x y"
  by (auto simp: before_def)

lemma before_append_right: "x \<in> set xs \<Longrightarrow> y \<in> set ys \<Longrightarrow> before (xs @ ys) x y"
  unfolding before_def by (metis append.assoc in_set_conv_decomp UnCI set_append)

lemma before_in: "before xs x y \<Longrightarrow> x \<in> set xs \<and> y \<in> set xs"
  by (auto simp: before_def)

end
