(* ===== verification/Std_Time.thy ===== *)
theory Std_Time
  imports Prelude
begin

section \<open>Durations and instants of the standard library\<close>

text \<open>
  \<open>std::time::Duration\<close> counts nanoseconds up to \<open>Duration::MAX\<close>
  (\<open>u64::MAX\<close> seconds and 999,999,999 nanoseconds); its arithmetic panics on overflow.
  \<open>std::time::Instant\<close> is a point of the monotonic clock, whose seconds are an \<open>i64\<close> on
  the platforms the project builds for; adding a duration to it panics on overflow. Both are
  ordered, which the library class \<open>linorder\<close> records, so \<open>min\<close> is \<open>Ord::min\<close>.
\<close>

datatype duration = Duration (as_nanos: nat)

datatype instant = Instant (since_origin: nat)

definition nanos_per_sec :: nat where
  "nanos_per_sec = 1000000000"

definition duration_max :: nat where
  "duration_max = (2 ^ 64 - 1) * nanos_per_sec + 999999999"

definition instant_limit :: nat where
  "instant_limit = 2 ^ 63 * nanos_per_sec"

definition from_secs :: "nat \<Rightarrow> duration" where
  "from_secs s = Duration (s * nanos_per_sec)"

definition from_millis :: "nat \<Rightarrow> duration" where
  "from_millis ms = Duration (ms * 1000000)"

instantiation duration :: linorder
begin

definition less_eq_duration :: "duration \<Rightarrow> duration \<Rightarrow> bool" where
  "less_eq_duration a b \<longleftrightarrow> as_nanos a \<le> as_nanos b"

definition less_duration :: "duration \<Rightarrow> duration \<Rightarrow> bool" where
  "less_duration a b \<longleftrightarrow> as_nanos a < as_nanos b"

instance
  by standard (auto simp: less_eq_duration_def less_duration_def duration.expand)

end

instantiation instant :: linorder
begin

definition less_eq_instant :: "instant \<Rightarrow> instant \<Rightarrow> bool" where
  "less_eq_instant a b \<longleftrightarrow> since_origin a \<le> since_origin b"

definition less_instant :: "instant \<Rightarrow> instant \<Rightarrow> bool" where
  "less_instant a b \<longleftrightarrow> since_origin a < since_origin b"

instance
  by standard (auto simp: less_eq_instant_def less_instant_def instant.expand)

end

lemmas time_order_simps [simp] =
  less_eq_duration_def less_duration_def less_eq_instant_def less_instant_def

definition duration_mul :: "duration \<Rightarrow> nat \<Rightarrow> ('e, duration) outcome" where
  "duration_mul d k =
     (if as_nanos d * k \<le> duration_max then Ok (Duration (as_nanos d * k)) else Panic Arith_Overflow)"

definition instant_add :: "instant \<Rightarrow> duration \<Rightarrow> ('e, instant) outcome" where
  "instant_add t d =
     (if since_origin t + as_nanos d < instant_limit
      then Ok (Instant (since_origin t + as_nanos d)) else Panic Arith_Overflow)"

lemma as_nanos_min [simp]: "as_nanos (min a b) = min (as_nanos a) (as_nanos b)"
  by (simp add: min_def)

subsection \<open>Decimal output and the debug format of durations\<close>

definition dec_digit :: "nat \<Rightarrow> char" where
  "dec_digit n = char_of (48 + n)"

fun show_nat :: "nat \<Rightarrow> string" where
  "show_nat n = (if n < 10 then [dec_digit n] else show_nat (n div 10) @ [dec_digit (n mod 10)])"

declare show_nat.simps [simp del]

text \<open>
  The fractional digits stop when nothing is left, as in the standard library's
  \<open>fmt_decimal\<close> without a precision.
\<close>

fun frac_digits :: "nat \<Rightarrow> nat \<Rightarrow> string" where
  "frac_digits frac divisor =
     (if frac = 0 \<or> divisor = 0 then []
      else dec_digit (frac div divisor) # frac_digits (frac mod divisor) (divisor div 10))"

declare frac_digits.simps [simp del]

definition fmt_decimal :: "nat \<Rightarrow> nat \<Rightarrow> nat \<Rightarrow> string \<Rightarrow> string" where
  "fmt_decimal whole frac divisor suffix =
     show_nat whole @ (if frac = 0 then [] else ''.'' @ frac_digits frac divisor) @ suffix"

definition debug_duration :: "duration \<Rightarrow> string" where
  "debug_duration d =
     (let secs = as_nanos d div nanos_per_sec; nanos = as_nanos d mod nanos_per_sec in
      if 0 < secs then fmt_decimal secs nanos 100000000 ''s''
      else if 1000000 \<le> nanos then fmt_decimal (nanos div 1000000) (nanos mod 1000000) 100000 ''ms''
      else if 1000 \<le> nanos then fmt_decimal (nanos div 1000) (nanos mod 1000) 100
        [char_of (194 :: nat), char_of (181 :: nat), CHR ''s'']
      else fmt_decimal nanos 0 1 ''ns'')"

lemma debug_duration_examples:
  "debug_duration (from_secs 30) = ''30s''"
  "debug_duration (from_millis 1500) = ''1.5s''"
  "debug_duration (from_millis 10) = ''10ms''"
  by (simp_all add: debug_duration_def from_secs_def from_millis_def nanos_per_sec_def
      fmt_decimal_def show_nat.simps frac_digits.simps dec_digit_def Let_def char_of_def
      bit_Suc_0_iff)

end
