(* ===== verification/BTree_Map.thy ===== *)
theory BTree_Map
  imports Prelude
begin

section \<open>The ordered map of the standard library\<close>

text \<open>
  \<open>std::collections::BTreeMap\<close>, which the DAG, the scheduler, the node inputs and
  \<open>serde_json\<close>'s objects are built on: an association list in strictly ascending key order,
  which is the order its iterators visit. The locale states the contract the components rely on
  and derives from it, once, what they use: inserting commutes on different keys, a map built
  from pairs with distinct keys does not depend on their order. The interpretation at the end
  discharges the contract for the list model.
\<close>

type_synonym ('k, 'v) btree_map = "('k \<times> 'v) list"

definition bt_wf :: "('k::linorder, 'v) btree_map \<Rightarrow> bool" where
  "bt_wf m \<longleftrightarrow> sorted_wrt (<) (map fst m)"

definition bt_new :: "('k, 'v) btree_map" where
  "bt_new = []"

fun bt_get :: "('k, 'v) btree_map \<Rightarrow> 'k \<Rightarrow> 'v option" where
  "bt_get [] k = None"
| "bt_get ((a, v) # m) k = (if k = a then Some v else bt_get m k)"

fun bt_insert :: "'k::linorder \<Rightarrow> 'v \<Rightarrow> ('k, 'v) btree_map \<Rightarrow> ('k, 'v) btree_map" where
  "bt_insert k v [] = [(k, v)]"
| "bt_insert k v ((a, w) # m) =
     (if k < a then (k, v) # (a, w) # m
      else if k = a then (k, v) # m
      else (a, w) # bt_insert k v m)"

definition bt_keys :: "('k, 'v) btree_map \<Rightarrow> 'k list" where
  "bt_keys m = map fst m"

definition bt_values :: "('k, 'v) btree_map \<Rightarrow> 'v list" where
  "bt_values m = map snd m"

definition bt_len :: "('k, 'v) btree_map \<Rightarrow> usize" where
  "bt_len m = length m"

definition bt_collect :: "('k::linorder \<times> 'v) list \<Rightarrow> ('k, 'v) btree_map" where
  "bt_collect ps = fold (\<lambda>(k, v) m. bt_insert k v m) ps bt_new"

text \<open>A write through \<open>get_mut\<close>: the value changes in place, the keys do not.\<close>

fun bt_set :: "'k \<Rightarrow> 'v \<Rightarrow> ('k, 'v) btree_map \<Rightarrow> ('k, 'v) btree_map" where
  "bt_set k v [] = []"
| "bt_set k v ((a, w) # m) = (if k = a then (a, v) # m else (a, w) # bt_set k v m)"

subsection \<open>The contract\<close>

locale ordered_map =
  fixes empty :: "'m"
    and insert_kv :: "'k::linorder \<Rightarrow> 'v \<Rightarrow> 'm \<Rightarrow> 'm"
    and get :: "'m \<Rightarrow> 'k \<Rightarrow> 'v option"
    and keys :: "'m \<Rightarrow> 'k list"
    and wf :: "'m \<Rightarrow> bool"
  assumes wf_empty: "wf empty"
    and wf_insert: "wf m \<Longrightarrow> wf (insert_kv k v m)"
    and get_empty: "get empty = Map.empty"
    and get_insert: "wf m \<Longrightarrow> get (insert_kv k v m) = (get m)(k \<mapsto> v)"
    and keys_dom: "wf m \<Longrightarrow> set (keys m) = dom (get m)"
    and keys_sorted: "wf m \<Longrightarrow> sorted_wrt (<) (keys m)"
    and get_inject: "wf m \<Longrightarrow> wf n \<Longrightarrow> get m = get n \<Longrightarrow> m = n"
begin

lemma insert_commute:
  "wf m \<Longrightarrow> k \<noteq> l \<Longrightarrow> insert_kv k v (insert_kv l w m) = insert_kv l w (insert_kv k v m)"
  by (rule get_inject) (auto simp: wf_insert get_insert fun_upd_twist)

lemma insert_overwrite:
  "wf m \<Longrightarrow> insert_kv k v (insert_kv k w m) = insert_kv k v m"
  by (rule get_inject) (auto simp: wf_insert get_insert)

definition of_pairs :: "('k \<times> 'v) list \<Rightarrow> 'm \<Rightarrow> 'm" where
  "of_pairs ps m = fold (\<lambda>(k, v) m. insert_kv k v m) ps m"

lemma wf_of_pairs: "wf m \<Longrightarrow> wf (of_pairs ps m)"
  by (induction ps arbitrary: m) (auto simp: of_pairs_def wf_insert)

lemma get_of_pairs: "wf m \<Longrightarrow> get (of_pairs ps m) = get m ++ map_of (rev ps)"
proof (induction ps arbitrary: m)
  case Nil
  then show ?case by (simp add: of_pairs_def)
next
  case (Cons p ps)
  obtain k v where p: "p = (k, v)" by force
  have "get (of_pairs (p # ps) m) = get (of_pairs ps (insert_kv k v m))"
    by (simp add: of_pairs_def p)
  also have "\<dots> = (get m)(k \<mapsto> v) ++ map_of (rev ps)"
    by (simp only: Cons.IH [OF wf_insert [OF Cons.prems]] get_insert [OF Cons.prems])
  also have "\<dots> = get m ++ map_of (rev (p # ps))"
    by (auto simp: p map_add_def fun_eq_iff split: option.splits)
  finally show ?case .
qed

lemma of_pairs_perm:
  assumes "wf m" and "mset ps = mset qs" and "distinct (map fst ps)"
  shows "of_pairs ps m = of_pairs qs m"
proof -
  have "mset (map fst ps) = mset (map fst qs)" using assms(2) by simp
  then have "distinct (map fst qs)" using assms(3) mset_eq_imp_distinct_iff by blast
  moreover have "set ps = set qs" using assms(2) by (metis set_mset_mset)
  ultimately have "map_of (rev ps) = map_of (rev qs)"
    using assms(3) by (intro map_of_inject_set [THEN iffD2]) (auto simp flip: rev_map)
  then show ?thesis using assms(1) by (intro get_inject) (auto simp: wf_of_pairs get_of_pairs)
qed

lemma keys_distinct: "wf m \<Longrightarrow> distinct (keys m)"
  using keys_sorted strict_sorted_iff by blast

end

subsection \<open>The list model satisfies it\<close>

lemma bt_get_map_of: "bt_get m = map_of m"
  by (rule ext, induction m) auto

lemma set_bt_keys [simp]: "set (bt_keys m) = dom (bt_get m)"
  by (simp add: bt_keys_def bt_get_map_of dom_map_of_conv_image_fst)

lemma bt_wf_Nil [simp]: "bt_wf []"
  by (simp add: bt_wf_def)

lemma bt_wf_Cons: "bt_wf ((k, v) # m) \<longleftrightarrow> (\<forall>a \<in> set (map fst m). k < a) \<and> bt_wf m"
  by (auto simp: bt_wf_def)

lemma fst_bt_insert: "fst ` set (bt_insert k v m) = insert k (fst ` set m)"
  by (induction k v m rule: bt_insert.induct) auto

lemma bt_wf_insert: "bt_wf m \<Longrightarrow> bt_wf (bt_insert k v m)"
proof (induction k v m rule: bt_insert.induct)
  case (2 k v a w m)
  then show ?case
    by (auto simp: bt_wf_Cons fst_bt_insert)
qed (simp add: bt_wf_Cons)

lemma bt_get_insert: "bt_get (bt_insert k v m) = (bt_get m)(k \<mapsto> v)"
  by (induction k v m rule: bt_insert.induct) auto

lemma bt_wf_distinct: "bt_wf m \<Longrightarrow> distinct (map fst m)"
  unfolding bt_wf_def using strict_sorted_iff by blast

lemma bt_get_inject:
  assumes m: "bt_wf m" and n: "bt_wf n" and eq: "bt_get m = bt_get n"
  shows "m = n"
proof -
  have "set m = set n"
    using eq m n by (metis bt_get_map_of bt_wf_distinct map_of_eqI map_of_inject_set)
  moreover have "sorted (map fst m)" "sorted (map fst n)"
    using m n strict_sorted_iff unfolding bt_wf_def by blast+
  ultimately show ?thesis
    using bt_wf_distinct [OF m] bt_wf_distinct [OF n]
    by (intro map_sorted_distinct_set_unique [where f = fst]) (auto simp: distinct_map)
qed

interpretation bt: ordered_map bt_new bt_insert bt_get bt_keys bt_wf
proof unfold_locales
  show "bt_get bt_new = Map.empty" by (simp add: bt_new_def fun_eq_iff)
  show "bt_wf m \<Longrightarrow> sorted_wrt (<) (bt_keys m)" for m :: "('a, 'b) btree_map"
    by (simp add: bt_wf_def bt_keys_def)
qed (simp_all add: bt_new_def bt_wf_insert bt_get_insert bt_get_inject)

lemmas bt_simps = bt.wf_insert bt.get_insert bt.keys_dom

lemma bt_collect_of_pairs: "bt_collect ps = bt.of_pairs ps bt_new"
  by (simp add: bt_collect_def bt.of_pairs_def)

lemma bt_wf_new [simp, intro]: "bt_wf bt_new"
  by (rule bt.wf_empty)

lemma bt_wf_collect [simp, intro]: "bt_wf (bt_collect ps)"
  by (simp add: bt_collect_of_pairs bt.wf_of_pairs)

lemma bt_get_collect: "bt_get (bt_collect ps) = map_of (rev ps)"
  by (simp add: bt_collect_of_pairs bt.get_of_pairs bt.get_empty)

lemma bt_collect_wf_id: "bt_wf m \<Longrightarrow> bt_collect m = m"
proof (rule bt.get_inject)
  assume m: "bt_wf m"
  then have "map_of (rev m) = map_of m"
    by (intro map_of_inject_set [THEN iffD2]) (auto simp: bt_wf_distinct simp flip: rev_map)
  then show "bt_get (bt_collect m) = bt_get m"
    by (simp only: bt_get_collect) (simp add: bt_get_map_of)
qed simp_all

lemma bt_len_card: "bt_wf m \<Longrightarrow> bt_len m = card (dom (bt_get m))"
  by (metis bt_keys_def bt_len_def bt.keys_distinct distinct_card length_map set_bt_keys)

lemma map_fst_bt_set [simp]: "map fst (bt_set k v m) = map fst m"
  by (induction k v m rule: bt_set.induct) auto

lemma bt_wf_set [simp]: "bt_wf (bt_set k v m) = bt_wf m"
  by (simp add: bt_wf_def)

lemma bt_get_set: "bt_get m k = Some w \<Longrightarrow> bt_get (bt_set k v m) = (bt_get m)(k \<mapsto> v)"
  by (induction k v m rule: bt_set.induct) auto

lemma bt_get_in_keys: "bt_get m k \<noteq> None \<longleftrightarrow> k \<in> fst ` set m"
  by (simp add: bt_get_map_of map_of_eq_None_iff)

text \<open>The sum of the counters of a map, the ranking function of the worklist loops.\<close>

definition bt_total :: "('k, nat) btree_map \<Rightarrow> nat" where
  "bt_total m = sum_list (map snd m)"

lemma bt_total_set:
  "bt_get m k = Some v \<Longrightarrow> bt_total (bt_set k v' m) + v = bt_total m + v'"
  by (induction k v' m rule: bt_set.induct) (auto simp: bt_total_def split: if_splits)

end
