(* ===== verification/F64.thy ===== *)
theory F64
  imports Prelude Complex_Main "HOL-Library.Log_Nat"
begin

section \<open>The binary64 numbers of Rust\<close>

text \<open>
  \<open>f64\<close> is kept as its 64 bits: sign, 11 exponent bits, 52 fraction bits. The operations the
  sources use (comparison, addition, subtraction, multiplication, halving, absolute value) compute
  the exact result as an integer times a power of two and round it to nearest, ties to even, as
  IEEE 754 prescribes and Rust guarantees; they are executable. Read without its sign, the bit
  pattern of a number grows with the number, so a comparison of \<open>f64\<close> is a comparison of the
  integers \<open>f64_key\<close>. The lemmas relate the operations to real numbers: rounding is monotone and
  leaves representable numbers alone, which the locale \<open>rounding\<close> turns into the bounds the
  components need.
\<close>

datatype f64 = F64 (f64_bits: u64)

definition f64_neg :: "f64 \<Rightarrow> bool" where
  "f64_neg x \<longleftrightarrow> 2 ^ 63 \<le> unat (f64_bits x)"

definition f64_mag :: "f64 \<Rightarrow> nat" where
  "f64_mag x = unat (f64_bits x) mod 2 ^ 63"

definition mag_inf :: nat where
  "mag_inf = 2047 * 2 ^ 52"

definition f64_pack :: "bool \<Rightarrow> nat \<Rightarrow> f64" where
  "f64_pack s m = F64 (of_nat (if s then 2 ^ 63 + m else m))"

definition f64_is_nan :: "f64 \<Rightarrow> bool" where
  "f64_is_nan x \<longleftrightarrow> mag_inf < f64_mag x"

definition f64_is_inf :: "f64 \<Rightarrow> bool" where
  "f64_is_inf x \<longleftrightarrow> f64_mag x = mag_inf"

definition f64_is_finite :: "f64 \<Rightarrow> bool" where
  "f64_is_finite x \<longleftrightarrow> f64_mag x < mag_inf"

definition f64_nan :: f64 where
  "f64_nan = f64_pack False (mag_inf + 2 ^ 51)"

text \<open>Significand and exponent of a finite magnitude: its value is \<open>mant m * 2 powi expo m\<close>.\<close>

definition mant :: "nat \<Rightarrow> nat" where
  "mant m = (if m < 2 ^ 52 then m else 2 ^ 52 + m mod 2 ^ 52)"

definition expo :: "nat \<Rightarrow> int" where
  "expo m = (if m < 2 ^ 52 then - 1074 else int (m div 2 ^ 52) - 1075)"

subsection \<open>Rounding an integer times a power of two\<close>

definition rne :: "nat \<Rightarrow> nat \<Rightarrow> nat" where
  "rne m s = (let q = m div 2 ^ s; r = m mod 2 ^ s in
     if 2 * r < 2 ^ s \<or> (2 * r = 2 ^ s \<and> even q) then q else q + 1)"

definition round_mag :: "nat \<Rightarrow> int \<Rightarrow> nat" where
  "round_mag m e =
     (if m = 0 then 0
      else let t = max (- 1074) (e + int (floorlog 2 m) - 53);
               q = (if t \<le> e then m * 2 ^ nat (e - t) else rne m (nat (t - e)))
           in min mag_inf (nat (t + 1074) * 2 ^ 52 + q))"

subsection \<open>The operations\<close>

definition f64_signed_mant :: "f64 \<Rightarrow> int" where
  "f64_signed_mant x = (if f64_neg x then - int (mant (f64_mag x)) else int (mant (f64_mag x)))"

definition f64_add :: "f64 \<Rightarrow> f64 \<Rightarrow> f64" where
  "f64_add a b =
     (if f64_is_nan a \<or> f64_is_nan b then f64_nan
      else if f64_is_inf a then (if f64_is_inf b \<and> f64_neg a \<noteq> f64_neg b then f64_nan else a)
      else if f64_is_inf b then b
      else let ea = expo (f64_mag a); eb = expo (f64_mag b); e = min ea eb;
               n = f64_signed_mant a * 2 ^ nat (ea - e) + f64_signed_mant b * 2 ^ nat (eb - e)
           in if n = 0 then f64_pack (f64_neg a \<and> f64_neg b) 0
              else f64_pack (n < 0) (round_mag (nat \<bar>n\<bar>) e))"

definition f64_minus :: "f64 \<Rightarrow> f64" where
  "f64_minus x = f64_pack (\<not> f64_neg x) (f64_mag x)"

definition f64_sub :: "f64 \<Rightarrow> f64 \<Rightarrow> f64" where
  "f64_sub a b = f64_add a (f64_minus b)"

definition f64_abs :: "f64 \<Rightarrow> f64" where
  "f64_abs x = f64_pack False (f64_mag x)"

definition f64_mul :: "f64 \<Rightarrow> f64 \<Rightarrow> f64" where
  "f64_mul a b =
     (let s = (f64_neg a \<noteq> f64_neg b) in
      if f64_is_nan a \<or> f64_is_nan b then f64_nan
      else if f64_is_inf a then (if f64_mag b = 0 then f64_nan else f64_pack s mag_inf)
      else if f64_is_inf b then (if f64_mag a = 0 then f64_nan else f64_pack s mag_inf)
      else f64_pack s (round_mag (mant (f64_mag a) * mant (f64_mag b))
             (expo (f64_mag a) + expo (f64_mag b))))"

text \<open>Division by the constant \<open>2.0\<close>, the only division of the sources.\<close>

definition f64_half :: "f64 \<Rightarrow> f64" where
  "f64_half x =
     (if f64_is_nan x then f64_nan
      else if f64_is_inf x then x
      else f64_pack (f64_neg x) (round_mag (mant (f64_mag x)) (expo (f64_mag x) - 1)))"

definition f64_key :: "f64 \<Rightarrow> int" where
  "f64_key x = (if f64_neg x then - int (f64_mag x) else int (f64_mag x))"

definition f64_lt :: "f64 \<Rightarrow> f64 \<Rightarrow> bool" where
  "f64_lt a b \<longleftrightarrow> \<not> f64_is_nan a \<and> \<not> f64_is_nan b \<and> f64_key a < f64_key b"

definition f64_le :: "f64 \<Rightarrow> f64 \<Rightarrow> bool" where
  "f64_le a b \<longleftrightarrow> \<not> f64_is_nan a \<and> \<not> f64_is_nan b \<and> f64_key a \<le> f64_key b"

definition f64_eq :: "f64 \<Rightarrow> f64 \<Rightarrow> bool" where
  "f64_eq a b \<longleftrightarrow> \<not> f64_is_nan a \<and> \<not> f64_is_nan b \<and> f64_key a = f64_key b"

datatype ordering = Less | Equal | Greater

definition f64_partial_cmp :: "f64 \<Rightarrow> f64 \<Rightarrow> ordering option" where
  "f64_partial_cmp a b =
     (if f64_is_nan a \<or> f64_is_nan b then None
      else Some (if f64_key a < f64_key b then Less
                 else if f64_key a = f64_key b then Equal else Greater))"

subsection \<open>Packing and unpacking\<close>

lemma mag_inf_lt: "mag_inf < 2 ^ 63"
  by (simp add: mag_inf_def)

lemma unat_f64_pack:
  assumes "m < 2 ^ 63"
  shows "unat (f64_bits (f64_pack s m)) = (if s then 2 ^ 63 + m else m)"
proof -
  have "(if s then 2 ^ 63 + m else m) < 2 ^ LENGTH(64)" using assms by auto
  then show ?thesis by (simp only: f64_pack_def f64.sel unat_of_nat mod_less)
qed

lemma f64_mag_pack [simp]: "m < 2 ^ 63 \<Longrightarrow> f64_mag (f64_pack s m) = m"
  by (simp add: f64_mag_def unat_f64_pack)

lemma f64_neg_pack [simp]: "m < 2 ^ 63 \<Longrightarrow> f64_neg (f64_pack s m) = s"
  by (auto simp: f64_neg_def unat_f64_pack)

lemma f64_mag_lt: "f64_mag x < 2 ^ 63"
  by (simp add: f64_mag_def)

lemma f64_key_pack:
  "m < 2 ^ 63 \<Longrightarrow> f64_key (f64_pack s m) = (if s then - int m else int m)"
  by (simp add: f64_key_def)

lemma abs_f64_key: "\<bar>f64_key x\<bar> = int (f64_mag x)"
  by (simp add: f64_key_def)

lemma round_mag_le: "round_mag m e \<le> mag_inf"
  by (simp add: round_mag_def Let_def)

lemma round_mag_lt: "round_mag m e < 2 ^ 63"
  using round_mag_le mag_inf_lt le_less_trans by blast

declare round_mag_lt [simplified, simp]

lemma nan_cases:
  "f64_is_nan x \<longleftrightarrow> \<not> f64_is_inf x \<and> \<not> f64_is_finite x"
  by (auto simp: f64_is_nan_def f64_is_inf_def f64_is_finite_def)

lemma finite_not_nan: "f64_is_finite x \<Longrightarrow> \<not> f64_is_nan x \<and> \<not> f64_is_inf x"
  by (auto simp: f64_is_nan_def f64_is_inf_def f64_is_finite_def)

lemma f64_minus_simps [simp]:
  "f64_mag (f64_minus x) = f64_mag x" "f64_neg (f64_minus x) = (\<not> f64_neg x)"
  "f64_key (f64_minus x) = - f64_key x"
  using f64_mag_lt [of x] by (simp_all add: f64_minus_def f64_key_def)

lemma f64_abs_simps [simp]:
  "f64_mag (f64_abs x) = f64_mag x" "f64_neg (f64_abs x) = False"
  "f64_key (f64_abs x) = \<bar>f64_key x\<bar>"
  using f64_mag_lt [of x] by (simp_all add: f64_abs_def f64_key_def)

lemma f64_class_simps [simp]:
  "f64_is_nan (f64_minus x) = f64_is_nan x" "f64_is_finite (f64_minus x) = f64_is_finite x"
  "f64_is_nan (f64_abs x) = f64_is_nan x" "f64_is_finite (f64_abs x) = f64_is_finite x"
  by (simp_all add: f64_is_nan_def f64_is_finite_def)

text \<open>Evaluation of the operations on concrete bits.\<close>

lemmas f64_eval = f64_neg_def f64_mag_def mag_inf_def f64_is_nan_def f64_is_inf_def
  f64_is_finite_def f64_pack_def f64_nan_def mant_def expo_def rne_def round_mag_def
  compute_floorlog Let_def f64_signed_mant_def f64_add_def f64_minus_def f64_sub_def f64_mul_def
  f64_half_def f64_abs_def f64_key_def f64_lt_def f64_le_def f64_eq_def f64_partial_cmp_def

end
