(* ===== verification/Kernel_Core.thy ===== *)
theory Kernel_Core
  imports Std_Time BTree_Map F64
begin

section \<open>Errors, events, JSON values and node data\<close>

text \<open>
  The data types of \<open>kernelflow-core\<close>: \<open>KernelError\<close> with its display text,
  \<open>KernelEvent\<close> and \<open>NodeOutcome\<close>, and the inputs and outputs of a workflow node, over the
  JSON values of \<open>serde_json\<close>. \<open>Value\<close> is a public enum of that package and is written out with
  its constructors; its number type is opaque there, so it is the type parameter \<open>'n\<close> here, and
  the functions of \<open>serde_json\<close>, \<open>sha2\<close> and \<open>hex\<close> that the sources call are the fields of the
  record \<open>ext\<close>, an argument of every definition that calls them.
\<close>

subsection \<open>error.rs\<close>

text \<open>
  The payloads of \<open>Serde\<close> and \<open>Other\<close> are error objects of other packages, of which the
  program only ever uses the display text.
\<close>

datatype kernel_error =
    WorkflowNotFound string
  | NodeNotFound string
  | CycleDetected
  | Timeout duration
  | Sandbox string
  | Storage string
  | Network string
  | RateLimited
  | CircuitOpen
  | Attestation string
  | InvalidInput string
  | Serde string
  | Other string

type_synonym 'a kernel_result = "(kernel_error, 'a) outcome"

fun error_to_string :: "kernel_error \<Rightarrow> string" where
  "error_to_string (WorkflowNotFound w) = ''workflow `'' @ w @ ''` not found''"
| "error_to_string (NodeNotFound n) = ''node `'' @ n @ ''` not found''"
| "error_to_string CycleDetected = ''cycle detected in workflow DAG''"
| "error_to_string (Timeout d) = ''node execution timed out after '' @ debug_duration d"
| "error_to_string (Sandbox s) = ''sandbox error: '' @ s"
| "error_to_string (Storage s) = ''storage error: '' @ s"
| "error_to_string (Network s) = ''network error: '' @ s"
| "error_to_string RateLimited = ''rate limited''"
| "error_to_string CircuitOpen = ''circuit open''"
| "error_to_string (Attestation s) = ''attestation error: '' @ s"
| "error_to_string (InvalidInput s) = ''invalid input: '' @ s"
| "error_to_string (Serde s) = ''serialization error: '' @ s"
| "error_to_string (Other s) = s"

subsection \<open>event.rs\<close>

type_synonym uuid = u128

datatype node_outcome =
    Success (output_hash: string) (outcome_gas: u64)
  | Failure string
  | Skipped string

datatype kernel_event =
    WorkflowStarted uuid string
  | NodeStarted uuid string u32
  | NodeCompleted uuid string node_outcome
  | WorkflowCompleted uuid string
  | WorkflowFailed uuid string

subsection \<open>JSON values\<close>

datatype 'n json =
    JNull
  | JBool bool
  | JNumber 'n
  | JString string
  | JArray "'n json list"
  | JObject "(string, 'n json) btree_map"

record 'n ext =
  to_value :: "'n json \<Rightarrow> 'n json"
  map_to_value :: "(string, 'n json) btree_map \<Rightarrow> 'n json"
  to_vec :: "'n json \<Rightarrow> u8 list"
  sha256_digest :: "u8 list \<Rightarrow> u8 list"
  hex_encode :: "u8 list \<Rightarrow> string"
  json_pointer :: "'n json \<Rightarrow> string \<Rightarrow> 'n json option"
  json_eq :: "'n json \<Rightarrow> 'n json \<Rightarrow> bool"
  as_f64 :: "'n json \<Rightarrow> f64 option"
  json_get :: "'n json \<Rightarrow> string \<Rightarrow> 'n json option"
  json_of_f64 :: "f64 \<Rightarrow> 'n json"

text \<open>
  Documented behaviour of \<open>serde_json::to_value\<close>: a JSON value is its own serialization, and
  a map with string keys becomes an object with the same entries.
\<close>

definition to_value_laws :: "'n ext \<Rightarrow> bool" where
  "to_value_laws x \<longleftrightarrow> (\<forall>v. to_value x v = v) \<and> (\<forall>m. map_to_value x m = JObject m)"

text \<open>Documented behaviour of \<open>Value::as_f64\<close>: JSON numbers are finite.\<close>

definition as_f64_laws :: "'n ext \<Rightarrow> bool" where
  "as_f64_laws x \<longleftrightarrow> (\<forall>v f. as_f64 x v = Some f \<longrightarrow> f64_is_finite f)"

text \<open>The values the default build of \<open>serde_json\<close> can hold: objects in key order.\<close>

fun wf_json :: "'n json \<Rightarrow> bool" where
  "wf_json (JArray vs) = (\<forall>v \<in> set vs. wf_json v)"
| "wf_json (JObject m) = (bt_wf m \<and> (\<forall>(k, v) \<in> set m. wf_json v))"
| "wf_json _ = True"

subsection \<open>node.rs\<close>

record 'n node_input =
  in_workflow_id :: uuid
  in_node_id :: string
  in_payload :: "'n json"
  in_parents :: "(string, 'n json) btree_map"

record 'n node_output =
  out_value :: "'n json"
  out_gas_used :: u64

record node_context =
  ctx_timeout :: duration
  ctx_max_retries :: u32
  ctx_trace_id :: string

text \<open>\<open>NodeContext::default\<close>; the trace id is the text of a fresh random \<open>uuid\<close>.\<close>

definition default_context :: "string \<Rightarrow> node_context" where
  "default_context trace = \<lparr>ctx_timeout = from_secs 30, ctx_max_retries = 3, ctx_trace_id = trace\<rparr>"

end
