(* ===== verification/Demo_Ext.thy ===== *)
theory Demo_Ext
  imports Kernel_Core
begin

section \<open>A concrete instance of the external functions\<close>

text \<open>
  The sample instance at which the conditional properties are applied. It is no model of
  \<open>serde_json\<close>, \<open>sha2\<close> or \<open>hex\<close>: numbers are the finite binary64 numbers, a value is printed
  in key order, the digest is the first four bytes, and a pointer selects the whole value or one member.
  It satisfies the laws that the properties assume of those packages.
\<close>

definition str_bytes :: "string \<Rightarrow> u8 list" where
  "str_bytes s = map of_char s"

fun demo_vec :: "f64 json \<Rightarrow> u8 list" where
  "demo_vec JNull = str_bytes ''null''"
| "demo_vec (JBool b) = str_bytes (if b then ''true'' else ''false'')"
| "demo_vec (JNumber n) = str_bytes (show_nat (unat (f64_bits n)))"
| "demo_vec (JString s) = str_bytes ([CHR 0x22] @ s @ [CHR 0x22])"
| "demo_vec (JArray vs) = str_bytes ''['' @ concat (map demo_vec vs) @ str_bytes '']''"
| "demo_vec (JObject m) =
     str_bytes ''{'' @ concat (map (\<lambda>(k, v). str_bytes k @ str_bytes '':'' @ demo_vec v) m) @
     str_bytes ''}''"

fun demo_get :: "f64 json \<Rightarrow> string \<Rightarrow> f64 json option" where
  "demo_get (JObject m) k = bt_get m k"
| "demo_get _ k = None"

fun demo_pointer :: "f64 json \<Rightarrow> string \<Rightarrow> f64 json option" where
  "demo_pointer v [] = Some v"
| "demo_pointer v (c # k) = (if c = CHR ''/'' then demo_get v k else None)"

fun demo_as_f64 :: "f64 json \<Rightarrow> f64 option" where
  "demo_as_f64 (JNumber n) = (if f64_is_finite n then Some n else None)"
| "demo_as_f64 _ = None"

definition demo_of_f64 :: "f64 \<Rightarrow> f64 json" where
  "demo_of_f64 n = (if f64_is_finite n then JNumber n else JNull)"

definition hex_char :: "u8 \<Rightarrow> char" where
  "hex_char d = (if d < 10 then char_of (48 + unat d) else char_of (87 + unat d))"

definition demo_hex :: "u8 list \<Rightarrow> string" where
  "demo_hex bs = concat (map (\<lambda>b. [hex_char (b div 16), hex_char (b mod 16)]) bs)"

definition demo_ext :: "f64 ext" where
  "demo_ext =
     \<lparr>to_value = (\<lambda>v. v), map_to_value = JObject, to_vec = demo_vec, sha256_digest = take 4,
      hex_encode = demo_hex, json_pointer = demo_pointer, json_eq = (=), as_f64 = demo_as_f64,
      json_get = demo_get, json_of_f64 = demo_of_f64\<rparr>"

lemma demo_ext_simps [simp]:
  "to_value demo_ext v = v" "map_to_value demo_ext m = JObject m" "to_vec demo_ext = demo_vec"
  "sha256_digest demo_ext = take 4" "hex_encode demo_ext = demo_hex"
  "json_pointer demo_ext = demo_pointer" "json_eq demo_ext = (=)" "as_f64 demo_ext = demo_as_f64"
  "json_get demo_ext = demo_get" "json_of_f64 demo_ext = demo_of_f64"
  by (simp_all add: demo_ext_def)

lemma demo_to_value_laws [simp]: "to_value_laws demo_ext"
  by (simp add: to_value_laws_def)

lemma demo_as_f64_finite: "demo_as_f64 v = Some f \<Longrightarrow> f64_is_finite f"
  by (cases v) (auto split: if_splits)

lemma demo_as_f64_laws [simp]: "as_f64_laws demo_ext"
  by (auto simp: as_f64_laws_def dest: demo_as_f64_finite)

end
