(* ===== verification/Dag.thy ===== *)
theory Dag
  imports Demo_Ext
begin

section \<open>Workflow graphs (dag.rs)\<close>

text \<open>
  Nodes, edges with a firing condition, the builder, and Kahn's algorithm. The loops of
  \<open>topo_sort\<close> are \<open>count_indeg\<close> (the in-degrees), \<open>relax\<close> (the inner loop over the edges
  leaving the popped node) and \<open>topo_loop\<close> (the worklist). The in-degree counters are checked:
  an \<open>unwrap\<close> of a missing counter or a decrement below zero is a panic of the model, and the
  proofs show that neither happens. \<open>uuid::Uuid::new_v4\<close> is an argument of \<open>build\<close>.
\<close>

datatype 'n edge_condition = Always | JsonEq string "'n json"

fun evaluate :: "'n ext \<Rightarrow> 'n edge_condition \<Rightarrow> 'n json \<Rightarrow> bool" where
  "evaluate x Always output = True"
| "evaluate x (JsonEq pointer val) output =
     (case json_pointer x output pointer of None \<Rightarrow> False | Some v \<Rightarrow> json_eq x v val)"

type_synonym node_id = string

record 'n edge =
  e_from :: node_id
  e_to :: node_id
  e_condition :: "'n edge_condition"

record ('p, 'n) dag =
  dag_id :: uuid
  dag_name :: string
  dag_nodes :: "(node_id, 'p) btree_map"
  dag_edges :: "'n edge list"

subsection \<open>topo\_sort\<close>

definition init_indeg :: "('p, 'n) dag \<Rightarrow> (node_id, usize) btree_map" where
  "init_indeg d = bt_collect (map (\<lambda>k. (k, 0)) (bt_keys (dag_nodes d)))"

fun count_indeg :: "(node_id, usize) btree_map \<Rightarrow> 'n edge list \<Rightarrow> (node_id, usize) btree_map" where
  "count_indeg indeg [] = indeg"
| "count_indeg indeg (e # es) =
     (let d = (case bt_get indeg (e_to e) of None \<Rightarrow> 0 | Some d \<Rightarrow> d)
      in count_indeg (bt_insert (e_to e) (d + 1) indeg) es)"

definition zero_indeg :: "(node_id, usize) btree_map \<Rightarrow> node_id list" where
  "zero_indeg indeg = map fst (filter (\<lambda>(k, d). d = 0) indeg)"

fun relax :: "'n edge list \<Rightarrow> (node_id, usize) btree_map \<Rightarrow> node_id list \<Rightarrow>
    ((node_id, usize) btree_map \<times> node_id list) kernel_result" where
  "relax [] indeg q = Ok (indeg, q)"
| "relax (e # es) indeg q =
     and_then (unwrap (bt_get indeg (e_to e))) (\<lambda>d.
     and_then (checked_dec d) (\<lambda>d'.
       relax es (bt_set (e_to e) d' indeg) (if d' = 0 then q @ [e_to e] else q)))"

lemma relax_rank:
  "relax es indeg q = Ok (indeg', q') \<Longrightarrow>
   bt_total indeg' + length q' \<le> bt_total indeg + length q"
proof (induction es indeg q rule: relax.induct)
  case (1 indeg q)
  then show ?case by simp
next
  case (2 e es indeg q)
  from "2.prems" obtain d d' where d: "bt_get indeg (e_to e) = Some d" "d = Suc d'"
    and rest: "relax es (bt_set (e_to e) d' indeg) (if d' = 0 then q @ [e_to e] else q) = Ok (indeg', q')"
    by (auto simp: outcome_simps)
  have "bt_total indeg' + length q' \<le>
      bt_total (bt_set (e_to e) d' indeg) + length (if d' = 0 then q @ [e_to e] else q)"
    by (rule "2.IH" [of d d']) (use d rest in simp_all)
  also have "\<dots> \<le> bt_total indeg + length q"
    using bt_total_set [OF d(1), of d'] d(2) by (cases "d' = 0") auto
  finally show ?case .
qed

function topo_loop :: "'n edge list \<Rightarrow> (node_id, usize) btree_map \<Rightarrow> node_id list \<Rightarrow> node_id list \<Rightarrow>
    node_id list kernel_result" where
  "topo_loop es indeg [] out = Ok out"
| "topo_loop es indeg (n # q) out =
     and_then (relax (filter (\<lambda>e. e_from e = n) es) indeg q)
       (\<lambda>(indeg', q'). topo_loop es indeg' q' (out @ [n]))"
  by pat_completeness auto
termination
  by (relation "measure (\<lambda>(es, indeg, q, out). bt_total indeg + length q)")
    (auto dest: relax_rank)

definition topo_sort :: "('p, 'n) dag \<Rightarrow> node_id list kernel_result" where
  "topo_sort d =
     (let indeg = count_indeg (init_indeg d) (dag_edges d);
          q = zero_indeg indeg
      in and_then (topo_loop (dag_edges d) indeg q []) (\<lambda>out.
         if length out \<noteq> bt_len (dag_nodes d) then Err CycleDetected else Ok out))"

definition parents :: "('p, 'n) dag \<Rightarrow> node_id \<Rightarrow> 'n edge list" where
  "parents d n = filter (\<lambda>e. e_to e = n) (dag_edges d)"

definition children :: "('p, 'n) dag \<Rightarrow> node_id \<Rightarrow> 'n edge list" where
  "children d n = filter (\<lambda>e. e_from e = n) (dag_edges d)"

subsection \<open>The builder\<close>

record ('p, 'n) dag_builder =
  b_name :: string
  b_nodes :: "(node_id, 'p) btree_map"
  b_edges :: "'n edge list"

definition builder_new :: "string \<Rightarrow> ('p, 'n) dag_builder" where
  "builder_new name = \<lparr>b_name = name, b_nodes = bt_new, b_edges = []\<rparr>"

definition builder_node :: "node_id \<Rightarrow> 'p \<Rightarrow> ('p, 'n) dag_builder \<Rightarrow> ('p, 'n) dag_builder" where
  "builder_node i payload b = b\<lparr>b_nodes := bt_insert i payload (b_nodes b)\<rparr>"

definition builder_edge :: "node_id \<Rightarrow> node_id \<Rightarrow> 'n edge_condition \<Rightarrow>
    ('p, 'n) dag_builder \<Rightarrow> ('p, 'n) dag_builder" where
  "builder_edge src dst cond b =
     b\<lparr>b_edges := b_edges b @ [\<lparr>e_from = src, e_to = dst, e_condition = cond\<rparr>]\<rparr>"

fun validate_refs :: "(node_id, 'p) btree_map \<Rightarrow> 'n edge list \<Rightarrow> unit kernel_result" where
  "validate_refs nodes [] = Ok ()"
| "validate_refs nodes (e # es) =
     (if bt_get nodes (e_from e) = None then Err (NodeNotFound (e_from e))
      else if bt_get nodes (e_to e) = None then Err (NodeNotFound (e_to e))
      else validate_refs nodes es)"

definition build :: "uuid \<Rightarrow> ('p, 'n) dag_builder \<Rightarrow> ('p, 'n) dag kernel_result" where
  "build uid b =
     (let d = \<lparr>dag_id = uid, dag_name = b_name b, dag_nodes = b_nodes b, dag_edges = b_edges b\<rparr>
      in and_then (validate_refs (dag_nodes d) (dag_edges d)) (\<lambda>_.
         and_then (topo_sort d) (\<lambda>_. Ok d)))"

subsection \<open>What one pass of the inner loop does\<close>

definition in_count :: "'n edge list \<Rightarrow> node_id \<Rightarrow> nat" where
  "in_count es v = length (filter (\<lambda>e. e_to e = v) es)"

lemma in_count_simps [simp]:
  "in_count [] v = 0"
  "in_count (e # es) v = (if e_to e = v then Suc (in_count es v) else in_count es v)"
  by (simp_all add: in_count_def)

lemma in_count_pos: "0 < in_count es v \<longleftrightarrow> v \<in> e_to ` set es"
  by (induction es) auto

lemma in_count_filter_split:
  "in_count es v = in_count (filter P es) v + in_count (filter (\<lambda>e. \<not> P e) es) v"
  by (induction es) auto

text \<open>
  When every target has a counter that covers its remaining edges, the pass subtracts from every
  counter the number of edges into it and appends, once each, the targets that reach zero.
\<close>

definition relax_effect :: "'n edge list \<Rightarrow> (node_id, usize) btree_map \<Rightarrow>
    (node_id, usize) btree_map \<Rightarrow> node_id list \<Rightarrow> bool" where
  "relax_effect es indeg indeg' ps \<longleftrightarrow>
     (\<forall>v. bt_get indeg' v = map_option (\<lambda>d. d - in_count es v) (bt_get indeg v)) \<and>
     distinct ps \<and>
     set ps = {v \<in> e_to ` set es. bt_get indeg v = Some (in_count es v)}"

lemma relax_effect_Cons:
  assumes d: "bt_get indeg (e_to e) = Some (Suc d')" and le: "in_count es (e_to e) \<le> d'"
    and eff: "relax_effect es (bt_set (e_to e) d' indeg) indeg' ps"
  shows "relax_effect (e # es) indeg indeg' (if d' = 0 then e_to e # ps else ps)"
proof -
  let ?v = "e_to e" and ?ps = "if d' = 0 then e_to e # ps else ps"
  have get: "bt_get (bt_set ?v d' indeg) u = (if u = ?v then Some d' else bt_get indeg u)" for u
    using bt_get_set [OF d, of d'] by simp
  have eff': "bt_get indeg' u = map_option (\<lambda>d. d - in_count es u)
      (if u = ?v then Some d' else bt_get indeg u)" "distinct ps"
    "u \<in> set ps \<longleftrightarrow> u \<in> e_to ` set es \<and>
      (if u = ?v then Some d' else bt_get indeg u) = Some (in_count es u)" for u
    using eff by (simp_all add: relax_effect_def get)
  have v_in: "?v \<in> e_to ` set es \<longleftrightarrow> 0 < in_count es ?v"
    by (rule in_count_pos [symmetric])
  have "bt_get indeg' u = map_option (\<lambda>d. d - in_count (e # es) u) (bt_get indeg u)" for u
    using d by (simp add: eff')
  moreover have "distinct ?ps"
    using eff'(2) eff'(3) [of ?v] v_in le by (auto simp del: image_iff)
  moreover have "u \<in> set ?ps \<longleftrightarrow>
      u \<in> e_to ` set (e # es) \<and> bt_get indeg u = Some (in_count (e # es) u)" for u
    using d v_in le eff'(3) [of u] by (cases "u = ?v") (auto simp del: image_iff)
  ultimately show ?thesis by (simp add: relax_effect_def set_eq_iff)
qed

lemma relax_spec:
  assumes "\<forall>e \<in> set es. \<exists>d. bt_get indeg (e_to e) = Some d \<and> in_count es (e_to e) \<le> d"
  shows "\<exists>indeg' ps. relax es indeg q = Ok (indeg', q @ ps) \<and> relax_effect es indeg indeg' ps"
  using assms
proof (induction es arbitrary: indeg q)
  case Nil
  then show ?case by (auto simp: relax_effect_def option.map_ident intro!: exI [of _ "[]"])
next
  case (Cons e es)
  let ?v = "e_to e"
  from Cons.prems obtain k where "bt_get indeg ?v = Some k" "in_count (e # es) ?v \<le> k" by auto
  then obtain d' where d: "bt_get indeg ?v = Some (Suc d')" "in_count es ?v \<le> d'"
    by (cases k) auto
  let ?q = "if d' = 0 then q @ [?v] else q"
  have "\<forall>f \<in> set es. \<exists>k. bt_get (bt_set ?v d' indeg) (e_to f) = Some k \<and> in_count es (e_to f) \<le> k"
    using Cons.prems d bt_get_set [OF d(1), of d'] by (auto split: if_splits)
  then obtain indeg' ps where "relax es (bt_set ?v d' indeg) ?q = Ok (indeg', ?q @ ps)"
    and eff: "relax_effect es (bt_set ?v d' indeg) indeg' ps"
    using Cons.IH by blast
  then have "relax (e # es) indeg q = Ok (indeg', q @ (if d' = 0 then ?v # ps else ps))"
    using d by simp
  with relax_effect_Cons [OF d eff] show ?case by blast
qed

lemma relax_wf: "relax es indeg q = Ok (indeg', q') \<Longrightarrow> bt_wf indeg' = bt_wf indeg"
  by (induction es indeg q rule: relax.induct) (auto simp: outcome_simps)

subsection \<open>Counting the in-degrees\<close>

lemma bt_wf_count_indeg: "bt_wf indeg \<Longrightarrow> bt_wf (count_indeg indeg es)"
  by (induction indeg es rule: count_indeg.induct) (simp_all add: bt_wf_insert Let_def)

lemma bt_get_count_indeg:
  "bt_get (count_indeg indeg es) v =
     (case bt_get indeg v of
        Some d \<Rightarrow> Some (d + in_count es v)
      | None \<Rightarrow> (if v \<in> e_to ` set es then Some (in_count es v) else None))"
proof (induction indeg es rule: count_indeg.induct)
  case (1 indeg)
  then show ?case by (simp split: option.split)
next
  case (2 indeg e es)
  show ?case
    using "2.IH" [OF refl] in_count_pos [of es v]
    by (auto simp: Let_def bt_get_insert split: option.split)
qed

lemma bt_wf_init_indeg [simp]: "bt_wf (init_indeg d)"
  by (simp add: init_indeg_def)

lemma bt_get_init_indeg:
  "bt_get (init_indeg d) v = (if bt_get (dag_nodes d) v = None then None else Some 0)"
  by (auto simp: init_indeg_def bt_get_collect rev_map map_of_map_restrict restrict_map_def
      dom_def)

lemma zero_indeg_props:
  assumes "bt_wf indeg"
  shows "distinct (zero_indeg indeg)" and "v \<in> set (zero_indeg indeg) \<longleftrightarrow> bt_get indeg v = Some 0"
proof -
  show "distinct (zero_indeg indeg)"
    using bt_wf_distinct [OF assms] by (simp add: zero_indeg_def distinct_map_filter)
  have "(v, 0) \<in> set indeg \<longleftrightarrow> bt_get indeg v = Some 0"
    using bt_wf_distinct [OF assms] by (simp add: bt_get_map_of)
  then show "v \<in> set (zero_indeg indeg) \<longleftrightarrow> bt_get indeg v = Some 0"
    by (force simp: zero_indeg_def)
qed

subsection \<open>The worklist invariant\<close>

text \<open>
  \<open>remaining es out\<close> are the edges whose source has not been output. Every counter holds the
  number of remaining edges into its node; the nodes output or queued are exactly those with no
  remaining edge; and an edge into an output node has its source output before it.
\<close>

definition remaining :: "'n edge list \<Rightarrow> node_id list \<Rightarrow> 'n edge list" where
  "remaining es out = filter (\<lambda>e. e_from e \<notin> set out) es"

definition kahn_inv :: "'n edge list \<Rightarrow> node_id set \<Rightarrow> (node_id, usize) btree_map \<Rightarrow>
    node_id list \<Rightarrow> node_id list \<Rightarrow> bool" where
  "kahn_inv es D indeg q out \<longleftrightarrow>
     e_to ` set es \<subseteq> D \<and>
     (\<forall>v. bt_get indeg v = (if v \<in> D then Some (in_count (remaining es out) v) else None)) \<and>
     distinct (out @ q) \<and>
     set (out @ q) = {v \<in> D. in_count (remaining es out) v = 0} \<and>
     (\<forall>e \<in> set es. e_to e \<in> set out \<longrightarrow> before out (e_from e) (e_to e))"

lemma remaining_snoc:
  "remaining es (out @ [n]) = filter (\<lambda>e. e_from e \<noteq> n) (remaining es out)"
  by (auto simp: remaining_def intro: filter_cong)

lemma in_count_remaining:
  assumes "n \<notin> set out"
  shows "in_count (remaining es out) v =
    in_count (filter (\<lambda>e. e_from e = n) es) v + in_count (remaining es (out @ [n])) v"
proof -
  have "filter (\<lambda>e. e_from e = n) (remaining es out) = filter (\<lambda>e. e_from e = n) es"
    using assms by (auto simp: remaining_def intro: filter_cong)
  then show ?thesis
    using in_count_filter_split [of "remaining es out" v "\<lambda>e. e_from e = n"]
    by (simp add: remaining_snoc)
qed

lemma kahn_source_output:
  assumes "kahn_inv es D indeg q out" and "e \<in> set es" and "e_to e \<in> set (out @ q)"
  shows "e_from e \<in> set out"
proof (rule ccontr)
  assume "e_from e \<notin> set out"
  with assms(2) have "e \<in> set (remaining es out)" by (simp add: remaining_def)
  then have "0 < in_count (remaining es out) (e_to e)" by (simp add: in_count_pos)
  with assms(1,3) show False by (auto simp: kahn_inv_def)
qed

lemma kahn_step:
  assumes inv: "kahn_inv es D indeg (n # q) out"
  obtains indeg' q' where "relax (filter (\<lambda>e. e_from e = n) es) indeg q = Ok (indeg', q')"
    and "kahn_inv es D indeg' q' (out @ [n])"
proof -
  let ?fs = "filter (\<lambda>e. e_from e = n) es" and ?rem = "remaining es out"
    and ?rem' = "remaining es (out @ [n])"
  have n: "n \<notin> set out" and nD: "n \<in> D" using inv by (auto simp: kahn_inv_def)
  have get: "bt_get indeg v = (if v \<in> D then Some (in_count ?rem v) else None)" for v
    using inv by (simp add: kahn_inv_def)
  have cnt: "in_count ?rem v = in_count ?fs v + in_count ?rem' v" for v
    by (rule in_count_remaining [OF n])
  have cover: "\<forall>e \<in> set ?fs. \<exists>d. bt_get indeg (e_to e) = Some d \<and> in_count ?fs (e_to e) \<le> d"
    using inv by (auto simp: get cnt kahn_inv_def)
  obtain indeg' ps where r: "relax ?fs indeg q = Ok (indeg', q @ ps)"
    and eff: "relax_effect ?fs indeg indeg' ps"
    using relax_spec [OF cover] by blast
  have g: "bt_get indeg' v = map_option (\<lambda>d. d - in_count ?fs v) (bt_get indeg v)" for v
    using eff by (simp add: relax_effect_def)
  have dist: "distinct ps"
    and ps: "set ps = {v \<in> e_to ` set ?fs. bt_get indeg v = Some (in_count ?fs v)}"
    using eff by (simp_all add: relax_effect_def)
  have mem: "v \<in> set ps \<longleftrightarrow> 0 < in_count ?fs v \<and> bt_get indeg v = Some (in_count ?fs v)" for v
    unfolding ps in_count_pos by simp
  have ps': "set ps = {v \<in> D. 0 < in_count ?fs v \<and> in_count ?rem' v = 0}"
    by (rule set_eqI) (auto simp only: mem get cnt split: if_splits)
  have zero: "set (out @ n # q) = {v \<in> D. in_count ?rem v = 0}"
    using inv unfolding kahn_inv_def by blast
  have union: "set (out @ n # q) \<union> set ps = {v \<in> D. in_count ?rem' v = 0}"
    unfolding zero ps' cnt by auto
  have disj: "set ps \<inter> set (out @ n # q) = {}"
    unfolding zero ps' cnt by auto
  have "kahn_inv es D indeg' (q @ ps) (out @ [n])"
    unfolding kahn_inv_def
  proof (intro conjI ballI allI impI)
    show "e_to ` set es \<subseteq> D" using inv by (simp add: kahn_inv_def)
    show "bt_get indeg' v = (if v \<in> D then Some (in_count ?rem' v) else None)" for v
      by (simp add: g get cnt)
    show "set ((out @ [n]) @ q @ ps) = {v \<in> D. in_count ?rem' v = 0}"
      using union by auto
    show "distinct ((out @ [n]) @ q @ ps)"
      using disj dist inv by (auto simp: kahn_inv_def)
    fix e
    assume e: "e \<in> set es" "e_to e \<in> set (out @ [n])"
    show "before (out @ [n]) (e_from e) (e_to e)"
    proof (cases "e_to e \<in> set out")
      case True
      then show ?thesis using inv e(1) by (auto simp: kahn_inv_def)
    next
      case False
      with e(2) have "e_to e = n" by simp
      with kahn_source_output [OF inv e(1)] show ?thesis by (auto intro: before_snoc)
    qed
  qed
  with r show thesis by (rule that)
qed

lemma topo_loop_kahn:
  "kahn_inv es D indeg q out \<Longrightarrow>
   \<exists>out' indeg'. topo_loop es indeg q out = Ok out' \<and> kahn_inv es D indeg' [] out'"
proof (induction es indeg q out rule: topo_loop.induct)
  case (1 es indeg out)
  then show ?case by auto
next
  case (2 es indeg n q out)
  obtain indeg' q' where r: "relax (filter (\<lambda>e. e_from e = n) es) indeg q = Ok (indeg', q')"
    and inv: "kahn_inv es D indeg' q' (out @ [n])"
    using kahn_step [OF "2.prems"] .
  from "2.IH" [OF r refl inv] show ?case by (simp add: r)
qed

definition all_ids :: "('p, 'n) dag \<Rightarrow> node_id set" where
  "all_ids d = dom (bt_get (dag_nodes d)) \<union> e_to ` set (dag_edges d)"

lemma kahn_init:
  assumes "indeg = count_indeg (init_indeg d) (dag_edges d)"
  shows "kahn_inv (dag_edges d) (all_ids d) indeg (zero_indeg indeg) []"
proof -
  have wf: "bt_wf indeg" by (simp add: assms bt_wf_count_indeg)
  have get: "bt_get indeg v =
      (if v \<in> all_ids d then Some (in_count (dag_edges d) v) else None)" for v
    unfolding assms bt_get_count_indeg bt_get_init_indeg all_ids_def by auto
  have rem: "remaining (dag_edges d) [] = dag_edges d" by (simp add: remaining_def)
  have "e_to ` set (dag_edges d) \<subseteq> all_ids d" by (auto simp: all_ids_def)
  moreover have "set (zero_indeg indeg) = {v \<in> all_ids d. in_count (dag_edges d) v = 0}"
    by (auto simp: zero_indeg_props [OF wf] get split: if_splits)
  ultimately show ?thesis
    using get zero_indeg_props(1) [OF wf] unfolding kahn_inv_def rem by simp
qed

lemma topo_sort_unfold:
  obtains out indeg where "kahn_inv (dag_edges d) (all_ids d) indeg [] out"
    and "topo_sort d = (if length out = bt_len (dag_nodes d) then Ok out else Err CycleDetected)"
proof -
  let ?indeg = "count_indeg (init_indeg d) (dag_edges d)"
  obtain out indeg where "topo_loop (dag_edges d) ?indeg (zero_indeg ?indeg) [] = Ok out"
    and "kahn_inv (dag_edges d) (all_ids d) indeg [] out"
    using topo_loop_kahn [OF kahn_init [OF refl]] by blast
  then show thesis using that [of indeg out] by (simp add: topo_sort_def Let_def)
qed

subsection \<open>Topological orders and acyclicity\<close>

definition closed_dag :: "('p, 'n) dag \<Rightarrow> bool" where
  "closed_dag d \<longleftrightarrow> (\<forall>e \<in> set (dag_edges d).
     bt_get (dag_nodes d) (e_from e) \<noteq> None \<and> bt_get (dag_nodes d) (e_to e) \<noteq> None)"

definition edge_rel :: "('p, 'n) dag \<Rightarrow> (node_id \<times> node_id) set" where
  "edge_rel d = (\<lambda>e. (e_from e, e_to e)) ` set (dag_edges d)"

definition topo_order :: "('p, 'n) dag \<Rightarrow> node_id list \<Rightarrow> bool" where
  "topo_order d out \<longleftrightarrow>
     distinct out \<and> set out = dom (bt_get (dag_nodes d)) \<and>
     (\<forall>e \<in> set (dag_edges d). before out (e_from e) (e_to e))"

lemma all_ids_closed: "closed_dag d \<Longrightarrow> all_ids d = dom (bt_get (dag_nodes d))"
  by (auto simp: all_ids_def closed_dag_def)

lemma before_index:
  assumes "distinct out" and "before out u v"
  shows "length (takeWhile (\<lambda>w. w \<noteq> u) out) < length (takeWhile (\<lambda>w. w \<noteq> v) out)"
proof -
  obtain ps qs where out: "out = ps @ v # qs" and u: "u \<in> set ps"
    using assms(2) by (auto simp: before_def)
  have "length (takeWhile (\<lambda>w. w \<noteq> v) out) = length ps"
    using assms(1) by (subst out, subst takeWhile_append2) (auto simp: out)
  moreover have "takeWhile (\<lambda>w. w \<noteq> u) out = takeWhile (\<lambda>w. w \<noteq> u) ps"
    using u by (simp add: out takeWhile_append1)
  moreover have "length (takeWhile (\<lambda>w. w \<noteq> u) ps) < length ps"
    using u by (metis (full_types) length_takeWhile_le le_neq_implies_less takeWhile_eq_all_conv
        takeWhile_eq_take take_all_iff order_refl)
  ultimately show ?thesis by simp
qed

lemma topo_order_acyclic:
  assumes "topo_order d out"
  shows "acyclic (edge_rel d)"
proof -
  have "edge_rel d \<subseteq> measure (\<lambda>v. length (takeWhile (\<lambda>w. w \<noteq> v) out))"
    using assms by (auto simp: edge_rel_def topo_order_def intro!: before_index)
  then show ?thesis by (metis acyclic_subset wf_acyclic wf_measure)
qed

lemma kahn_complete:
  assumes inv: "kahn_inv (dag_edges d) (all_ids d) indeg [] out"
    and closed: "closed_dag d" and acyclic: "acyclic (edge_rel d)"
  shows "set out = all_ids d"
proof (rule ccontr)
  assume "set out \<noteq> all_ids d"
  moreover have sub: "set out \<subseteq> all_ids d" using inv by (auto simp: kahn_inv_def)
  ultimately obtain v where v: "v \<in> all_ids d - set out" by blast
  have "finite (edge_rel d)" by (simp add: edge_rel_def)
  then have "wf (edge_rel d)" using acyclic by (rule finite_acyclic_wf)
  then obtain z where z: "z \<in> all_ids d - set out"
    and min: "\<And>y. (y, z) \<in> edge_rel d \<Longrightarrow> y \<notin> all_ids d - set out"
    using wfE_min [OF _ v] by metis
  have "in_count (remaining (dag_edges d) out) z \<noteq> 0"
    using inv z by (auto simp: kahn_inv_def)
  then have "z \<in> e_to ` set (remaining (dag_edges d) out)" using in_count_pos by blast
  then obtain e where e: "e \<in> set (dag_edges d)" "e_from e \<notin> set out" "e_to e = z"
    by (auto simp: remaining_def)
  then have "(e_from e, z) \<in> edge_rel d" by (auto simp: edge_rel_def)
  moreover have "e_from e \<in> all_ids d"
    using closed e(1) by (auto simp: all_ids_def closed_dag_def)
  ultimately show False using min e(2) by blast
qed

lemma topo_sort_Ok_order:
  assumes closed: "closed_dag d" and wf: "bt_wf (dag_nodes d)" and ok: "topo_sort d = Ok out"
  shows "topo_order d out"
proof -
  obtain out' indeg where inv: "kahn_inv (dag_edges d) (all_ids d) indeg [] out'"
    and ts: "topo_sort d =
      (if length out' = bt_len (dag_nodes d) then Ok out' else Err CycleDetected)"
    by (rule topo_sort_unfold)
  then have out: "out' = out" and len: "length out = card (dom (bt_get (dag_nodes d)))"
    using ok bt_len_card [OF wf] by (auto split: if_splits)
  have dist: "distinct out" and sub: "set out \<subseteq> dom (bt_get (dag_nodes d))"
    using inv by (auto simp: out kahn_inv_def all_ids_closed [OF closed])
  have set: "set out = dom (bt_get (dag_nodes d))"
    using len distinct_card [OF dist] sub
    by (intro card_subset_eq) (simp_all add: bt_get_map_of finite_dom_map_of)
  moreover have "before out (e_from e) (e_to e)" if "e \<in> set (dag_edges d)" for e
    using inv closed that set by (force simp: out kahn_inv_def closed_dag_def)
  ultimately show ?thesis using dist by (simp add: topo_order_def)
qed

lemma topo_sort_acyclic_Ok:
  assumes closed: "closed_dag d" and wf: "bt_wf (dag_nodes d)" and ac: "acyclic (edge_rel d)"
  shows "\<exists>out. topo_sort d = Ok out"
proof -
  obtain out indeg where inv: "kahn_inv (dag_edges d) (all_ids d) indeg [] out"
    and ts: "topo_sort d =
      (if length out = bt_len (dag_nodes d) then Ok out else Err CycleDetected)"
    by (rule topo_sort_unfold)
  have "set out = dom (bt_get (dag_nodes d))"
    using kahn_complete [OF inv closed ac] by (simp add: all_ids_closed [OF closed])
  moreover have "distinct out" using inv by (simp add: kahn_inv_def)
  ultimately have "length out = bt_len (dag_nodes d)"
    by (metis bt_len_card [OF wf] distinct_card)
  with ts show ?thesis by simp
qed

lemma validate_refs_find:
  "validate_refs nodes es =
     (case find (\<lambda>i. bt_get nodes i = None) (concat (map (\<lambda>e. [e_from e, e_to e]) es)) of
        Some i \<Rightarrow> Err (NodeNotFound i) | None \<Rightarrow> Ok ())"
  by (induction nodes es rule: validate_refs.induct) auto

lemma find_None_closed:
  "find (\<lambda>i. bt_get (dag_nodes d) i = None)
     (concat (map (\<lambda>e. [e_from e, e_to e]) (dag_edges d))) = None \<longleftrightarrow> closed_dag d"
  by (auto simp: find_None_iff closed_dag_def)

lemma build_Ok:
  assumes "build uid b = Ok d" and "bt_wf (b_nodes b)"
  shows "closed_dag d" and "bt_wf (dag_nodes d)" and "\<exists>order. topo_sort d = Ok order"
proof -
  let ?d = "\<lparr>dag_id = uid, dag_name = b_name b, dag_nodes = b_nodes b, dag_edges = b_edges b\<rparr>"
  obtain u order where v: "validate_refs (b_nodes b) (b_edges b) = Ok u"
    and t: "topo_sort ?d = Ok order" and "Ok ?d = (Ok d :: ('a, 'b) dag kernel_result)"
    using assms(1) unfolding build_def Let_def and_then_Ok by auto
  then have d: "d = ?d" by simp
  show "closed_dag d"
    using v find_None_closed [of ?d] by (simp add: d validate_refs_find split: option.splits)
  show "bt_wf (dag_nodes d)" using assms(2) d by simp
  show "\<exists>order. topo_sort d = Ok order" using t d by blast
qed
subsection \<open>Properties of the graph component\<close>

text \<open>
  Sample graphs: the workflow of the integration test, the same one with an edge back, and a graph
  with an unknown endpoint that no builder returns.
\<close>

definition e2e_builder :: "(string, f64) dag_builder" where
  "e2e_builder =
     builder_edge ''validate'' ''notify'' Always
    (builder_edge ''validate'' ''attest'' (JsonEq ''/ok'' (JBool True))
    (builder_edge ''ingest'' ''validate'' Always
    (builder_node ''notify'' ''native:notify''
    (builder_node ''attest'' ''native:attest''
    (builder_node ''validate'' ''wasm:validate''
    (builder_node ''ingest'' ''wasm:ingest'' (builder_new ''e2e'')))))))"

definition dag_of :: "('p, 'n) dag_builder \<Rightarrow> ('p, 'n) dag" where
  "dag_of b = \<lparr>dag_id = 0, dag_name = b_name b, dag_nodes = b_nodes b, dag_edges = b_edges b\<rparr>"

definition e2e_dag :: "(string, f64) dag" where
  "e2e_dag = dag_of e2e_builder"

definition e2e_cyclic :: "(string, f64) dag" where
  "e2e_cyclic = dag_of (builder_edge ''notify'' ''ingest'' Always e2e_builder)"

lemma e2e_checks:
  "topo_sort e2e_dag = Ok [''ingest'', ''validate'', ''attest'', ''notify'']"
  "topo_sort e2e_cyclic = Err CycleDetected"
  by code_simp+

lemma e2e_nodes:
  "dag_nodes e2e_dag =
     [(''attest'', ''native:attest''), (''ingest'', ''wasm:ingest''), (''notify'', ''native:notify''),
      (''validate'', ''wasm:validate'')]"
  "dag_nodes e2e_cyclic = dag_nodes e2e_dag"
  by code_simp+

lemma e2e_wf: "bt_wf (dag_nodes e2e_dag)" "bt_wf (dag_nodes e2e_cyclic)" "bt_wf (b_nodes e2e_builder)"
proof -
  show *: "bt_wf (dag_nodes e2e_dag)"
    by (simp add: e2e_nodes bt_wf_def less_char_def)
  then show "bt_wf (dag_nodes e2e_cyclic)" by (simp add: e2e_nodes)
  show "bt_wf (b_nodes e2e_builder)" using * by (simp add: e2e_dag_def dag_of_def)
qed

lemma e2e_closed: "closed_dag e2e_dag" "closed_dag e2e_cyclic"
  unfolding closed_dag_def by code_simp+

lemma topo_sort_cases:
  "topo_sort d = Err CycleDetected \<or> (\<exists>out. topo_sort d = Ok out)"
proof -
  obtain out indeg where "topo_sort d =
      (if length out = bt_len (dag_nodes d) then Ok out else Err CycleDetected)"
    by (rule topo_sort_unfold)
  then show ?thesis by auto
qed

lemma topo_sort_result:
  assumes "closed_dag d" and "bt_wf (dag_nodes d)"
  shows "if acyclic (edge_rel d) then \<exists>out. topo_sort d = Ok out \<and> topo_order d out
    else topo_sort d = Err CycleDetected"
  using topo_sort_acyclic_Ok [OF assms] topo_sort_Ok_order [OF assms] topo_order_acyclic
    topo_sort_cases [of d] by metis

text \<open>
  \<open>topo_sort\<close> returns on every graph, even one with unknown endpoints, without a panic:
  no counter is missing, none is decremented below zero, and the only error is a cycle report.
\<close>

theorem topo_sort_total:
  "topo_sort d = Err CycleDetected \<or> (\<exists>out. topo_sort d = Ok out)"
  by (rule topo_sort_cases)

text \<open>
  C15: On a graph whose edges name known nodes, the returned list holds every node once, and the
  source of every edge before its target.
\<close>

theorem topo_sort_order:
  assumes "closed_dag d" and "bt_wf (dag_nodes d)" and "topo_sort d = Ok out"
  shows "topo_order d out"
  using assms by (rule topo_sort_Ok_order)

theorem topo_sort_order_witness:
  "topo_order e2e_dag [''ingest'', ''validate'', ''attest'', ''notify'']"
  by (rule topo_sort_order [OF e2e_closed(1) e2e_wf(1) e2e_checks(1)])

text \<open>
  C16: On a graph whose edges name known nodes, the cycle error is reported exactly when the edge
  relation has a cycle.
\<close>

theorem topo_sort_cycle_iff:
  assumes "closed_dag d" and "bt_wf (dag_nodes d)"
  shows "topo_sort d = Err CycleDetected \<longleftrightarrow> \<not> acyclic (edge_rel d)"
  using topo_sort_result [OF assms] by (auto split: if_splits)

theorem topo_sort_cycle_iff_witness: "\<not> acyclic (edge_rel e2e_cyclic)"
  using topo_sort_cycle_iff [OF e2e_closed(2) e2e_wf(2)] e2e_checks(2) by blast

text \<open>
  C17: What \<open>build\<close> returns, on every branch: the first endpoint, in edge order, that no node
  has is reported; with none, a cycle is reported; otherwise the graph is returned unchanged.
\<close>

theorem build_result:
  assumes "bt_wf (b_nodes b)"
  shows "build uid b =
    (case find (\<lambda>i. bt_get (b_nodes b) i = None)
            (concat (map (\<lambda>e. [e_from e, e_to e]) (b_edges b))) of
       Some i \<Rightarrow> Err (NodeNotFound i)
     | None \<Rightarrow>
         (let d = \<lparr>dag_id = uid, dag_name = b_name b, dag_nodes = b_nodes b, dag_edges = b_edges b\<rparr>
          in if acyclic (edge_rel d) then Ok d else Err CycleDetected))"
proof -
  let ?d = "\<lparr>dag_id = uid, dag_name = b_name b, dag_nodes = b_nodes b, dag_edges = b_edges b\<rparr>"
  have "closed_dag ?d \<Longrightarrow> ?thesis"
    using topo_sort_result [of ?d] find_None_closed [of ?d] assms
    by (auto simp: build_def Let_def validate_refs_find split: if_splits)
  moreover have "\<not> closed_dag ?d \<Longrightarrow> ?thesis"
    using find_None_closed [of ?d] by (auto simp: build_def Let_def validate_refs_find)
  ultimately show ?thesis by blast
qed

theorem build_result_witness:
  "build 7 e2e_builder = Ok (e2e_dag\<lparr>dag_id := 7\<rparr>)"
proof -
  have "edge_rel \<lparr>dag_id = 7, dag_name = b_name e2e_builder, dag_nodes = b_nodes e2e_builder,
      dag_edges = b_edges e2e_builder\<rparr> = edge_rel e2e_dag"
    by (simp add: edge_rel_def e2e_dag_def dag_of_def)
  moreover have "acyclic (edge_rel e2e_dag)"
    using topo_order_acyclic [OF topo_sort_Ok_order [OF e2e_closed(1) e2e_wf(1) e2e_checks(1)]] .
  ultimately show ?thesis
    using build_result [OF e2e_wf(3), of 7] find_None_closed [of e2e_dag] e2e_closed(1)
    by (simp add: e2e_dag_def dag_of_def split: option.splits)
qed

definition unchecked_dag :: "(string, f64) dag" where
  "unchecked_dag = \<lparr>dag_id = 0, dag_name = ''unchecked'',
     dag_nodes = [(''a'', ''constant''), (''c'', ''median'')],
     dag_edges = [\<lparr>e_from = ''a'', e_to = ''x'', e_condition = Always\<rparr>,
                  \<lparr>e_from = ''c'', e_to = ''c'', e_condition = Always\<rparr>]\<rparr>"

text \<open>
  \<open>topo_sort\<close> counts, and never names, the nodes it reaches, and \<open>Dag\<close> has public fields. On
  a graph that skips the endpoint check of \<open>build\<close>, an unknown endpoint makes up for a node on a
  cycle: the cyclic graph below is sorted without an error, and the result leaves out a node.
\<close>

theorem topo_sort_unchecked:
  "topo_sort unchecked_dag = Ok [''a'', ''x''] \<and> \<not> acyclic (edge_rel unchecked_dag)"
proof
  show "topo_sort unchecked_dag = Ok [''a'', ''x'']" by code_simp
  have "(''c'', ''c'') \<in> edge_rel unchecked_dag" by (simp add: edge_rel_def unchecked_dag_def)
  then show "\<not> acyclic (edge_rel unchecked_dag)" by (meson acyclic_def trancl.r_into_trancl)
qed

end
