(* ===== verification/Hashing.thy ===== *)
theory Hashing
  imports Demo_Ext
begin

section \<open>Content hashes (hash.rs)\<close>

text \<open>
  \<open>hash_json\<close> serializes a value, puts every object in key order and takes the SHA-256 of the
  bytes. The relation \<open>same_json\<close> says that two values differ only in the order in which the
  entries of their objects are stored; the canonical form identifies exactly those values, so
  the hash cannot depend on that order.
\<close>

fun canonicalize :: "'n ext \<Rightarrow> 'n json \<Rightarrow> 'n json" where
  "canonicalize x (JObject m) =
     map_to_value x (bt_collect (map (\<lambda>(k, val). (k, canonicalize x val)) m))"
| "canonicalize x (JArray a) = JArray (map (canonicalize x) a)"
| "canonicalize x v = v"

definition hash_value :: "'n ext \<Rightarrow> 'n json \<Rightarrow> string" where
  "hash_value x v = hex_encode x (sha256_digest x (to_vec x (canonicalize x v)))"

text \<open>\<open>hash_json\<close> at the two types it is called at: a JSON value and a map of outputs.\<close>

definition hash_json :: "'n ext \<Rightarrow> 'n json \<Rightarrow> string" where
  "hash_json x v = hash_value x (to_value x v)"

definition hash_json_map :: "'n ext \<Rightarrow> (string, 'n json) btree_map \<Rightarrow> string" where
  "hash_json_map x m = hash_value x (map_to_value x m)"

subsection \<open>Equality up to the order of object entries\<close>

text \<open>
  Object entries are compared as finite maps: same keys, and the values under one key are again
  the same up to order. Keys of an object are distinct in every \<open>Map\<close> of \<open>serde_json\<close>.
\<close>

fun distinct_keys :: "'n json \<Rightarrow> bool" where
  "distinct_keys (JArray vs) = (\<forall>v \<in> set vs. distinct_keys v)"
| "distinct_keys (JObject m) = (distinct (map fst m) \<and> (\<forall>(k, v) \<in> set m. distinct_keys v))"
| "distinct_keys _ = True"

inductive same_json :: "'n json \<Rightarrow> 'n json \<Rightarrow> bool" where
  same_null: "same_json JNull JNull"
| same_bool: "same_json (JBool b) (JBool b)"
| same_number: "same_json (JNumber n) (JNumber n)"
| same_string: "same_json (JString s) (JString s)"
| same_array: "list_all2 same_json vs ws \<Longrightarrow> same_json (JArray vs) (JArray ws)"
| same_object: "mset m' = mset n \<Longrightarrow>
    list_all2 (\<lambda>p q. fst p = fst q \<and> same_json (snd p) (snd q)) m m' \<Longrightarrow>
    same_json (JObject m) (JObject n)"

inductive_cases same_object_cases: "same_json (JObject m) w"
inductive_cases same_array_cases: "same_json (JArray vs) w"

lemma mset_map_reorder:
  assumes "mset (map f xs) = mset (map f ys)"
  obtains ys' where "mset ys' = mset ys" and "map f xs = map f ys'"
  using assms
proof (induction xs arbitrary: ys thesis)
  case Nil
  then show ?case by simp
next
  case (Cons x xs)
  have "f x \<in> set (map f ys)" using Cons.prems(2) by (metis list.set_intros(1) list.simps(9) set_mset_mset)
  then obtain y where y: "y \<in> set ys" "f y = f x" by auto
  then obtain as bs where ys: "ys = as @ y # bs" by (meson split_list)
  have "mset (map f xs) = mset (map f (as @ bs))"
    using Cons.prems(2) y(2) by (simp add: ys)
  then obtain zs where "mset zs = mset (as @ bs)" "map f xs = map f zs" using Cons.IH by blast
  then show ?case using y(2) by (intro Cons.prems(1) [of "y # zs"]) (simp_all add: ys)
qed

subsection \<open>Canonical values\<close>

definition canon_entry :: "'n ext \<Rightarrow> string \<times> 'n json \<Rightarrow> string \<times> 'n json" where
  "canon_entry x p = (fst p, canonicalize x (snd p))"

lemma canonicalize_object:
  "canonicalize x (JObject m) = map_to_value x (bt_collect (map (canon_entry x) m))"
proof -
  have "(\<lambda>(k, val). (k, canonicalize x val)) = canon_entry x" by (auto simp: canon_entry_def)
  then show ?thesis by simp
qed

declare canonicalize.simps(1) [simp del]

lemma mset_bt_insert: "bt_wf m \<Longrightarrow> k \<notin> fst ` set m \<Longrightarrow> mset (bt_insert k v m) = add_mset (k, v) (mset m)"
  by (induction k v m rule: bt_insert.induct) (auto simp: bt_wf_Cons)

lemma mset_bt_collect:
  assumes "distinct (map fst ps)"
  shows "mset (bt_collect ps) = mset ps"
proof -
  have "bt_wf m \<Longrightarrow> distinct (map fst ps) \<Longrightarrow> fst ` set ps \<inter> fst ` set m = {} \<Longrightarrow>
      mset (fold (\<lambda>(k, v) m. bt_insert k v m) ps m) = mset ps + mset m" for m
    by (induction ps arbitrary: m)
      (auto simp: mset_bt_insert bt_wf_insert fst_bt_insert image_iff)
  from this [of bt_new] assms show ?thesis by (simp add: bt_collect_def bt_new_def)
qed

lemma map_fst_canon_entry [simp]: "map fst (map (canon_entry x) m) = map fst m"
  by (simp add: canon_entry_def comp_def)

lemma wf_json_canonicalize:
  assumes "to_value_laws x"
  shows "wf_json (canonicalize x v)"
proof (induction v)
  case (JObject m)
  have "wf_json w" if "(k, w) \<in> set (bt_collect (map (canon_entry x) m))" for k w
  proof -
    have "bt_get (bt_collect (map (canon_entry x) m)) k = Some w"
      unfolding bt_get_map_of by (rule map_of_is_SomeI [OF bt_wf_distinct [OF bt_wf_collect] that])
    then have "(k, w) \<in> set (rev (map (canon_entry x) m))"
      unfolding bt_get_collect by (rule map_of_SomeD)
    then obtain p where p: "p \<in> set m" and w: "w = canonicalize x (snd p)"
      by (auto simp: canon_entry_def)
    then show ?thesis using JObject.IH [OF p, of "snd p"] by (simp add: snds.intros prod_set_defs)
  qed
  then show ?case using assms by (auto simp: canonicalize_object to_value_laws_def)
qed auto

lemma canonicalize_wf_id:
  assumes "to_value_laws x"
  shows "wf_json v \<Longrightarrow> canonicalize x v = v"
proof (induction v)
  case (JArray vs)
  then show ?case by (simp add: map_idI)
next
  case (JObject m)
  have "canon_entry x p = p" if "p \<in> set m" for p
    using JObject.IH [OF that, of "snd p"] JObject.prems that
    by (cases p) (auto simp: canon_entry_def prod_set_defs)
  then have "map (canon_entry x) m = m" by (simp add: map_idI)
  then show ?case
    using JObject.prems assms by (simp add: canonicalize_object bt_collect_wf_id to_value_laws_def)
qed auto

lemma same_json_canonicalize:
  "same_json v w \<Longrightarrow> distinct_keys v \<Longrightarrow> canonicalize x v = canonicalize x w"
proof (induction rule: same_json.induct)
  case (same_array vs ws)
  then show ?case by (auto simp: list_all2_conv_all_nth intro!: nth_equalityI)
next
  case (same_object m' n m)
  have "map (canon_entry x) m = map (canon_entry x) m'"
    using same_object(2) same_object.prems
    by (auto simp: list_all2_conv_all_nth canon_entry_def intro!: nth_equalityI)
      (metis case_prodD nth_mem prod.collapse)
  moreover have "bt_collect (map (canon_entry x) m') = bt_collect (map (canon_entry x) n)"
    unfolding bt_collect_of_pairs
  proof (rule bt.of_pairs_perm)
    show "mset (map (canon_entry x) m') = mset (map (canon_entry x) n)"
      using same_object(1) by simp
    show "distinct (map fst (map (canon_entry x) m'))"
      using calculation same_object.prems map_fst_canon_entry by (metis distinct_keys.simps(2))
  qed simp
  ultimately show ?case by (simp only: canonicalize_object)
qed simp_all

lemma canonicalize_same_json:
  assumes laws: "to_value_laws x"
  shows "canonicalize x v = canonicalize x w \<Longrightarrow> distinct_keys v \<Longrightarrow> distinct_keys w \<Longrightarrow> same_json v w"
proof (induction v arbitrary: w)
  case (JArray vs)
  from JArray.prems(1) laws obtain ws where w: "w = JArray ws"
    by (cases w) (simp_all add: canonicalize_object to_value_laws_def)
  with JArray.prems have eq: "map (canonicalize x) vs = map (canonicalize x) ws" by simp
  then have len: "length vs = length ws" by (metis length_map)
  have "same_json (vs ! i) (ws ! i)" if "i < length vs" for i
    using that len eq JArray.prems w
    by (intro JArray.IH) (auto, metis nth_map)
  then show ?case using len by (auto simp: w list_all2_conv_all_nth intro!: same_array)
next
  case (JObject m)
  from JObject.prems(1) laws obtain n where w: "w = JObject n"
    by (cases w) (simp_all add: canonicalize_object to_value_laws_def)
  have "bt_collect (map (canon_entry x) m) = bt_collect (map (canon_entry x) n)"
    using JObject.prems(1) laws by (simp add: w canonicalize_object to_value_laws_def)
  then have "mset (map (canon_entry x) m) = mset (map (canon_entry x) n)"
    using JObject.prems(2,3) w mset_bt_collect [of "map (canon_entry x) m"]
      mset_bt_collect [of "map (canon_entry x) n"] by (simp del: map_map)
  then obtain m' where m': "mset m' = mset n" "map (canon_entry x) m = map (canon_entry x) m'"
    using mset_map_reorder by metis
  then have len: "length m = length m'" by (metis length_map)
  have "fst (m ! i) = fst (m' ! i) \<and> same_json (snd (m ! i)) (snd (m' ! i))"
    if i: "i < length m" for i
  proof -
    have entry: "canon_entry x (m ! i) = canon_entry x (m' ! i)"
      using i len m'(2) by (metis nth_map)
    have "m' ! i \<in> set n" using i len m'(1) by (metis nth_mem set_mset_mset)
    then have "distinct_keys (snd (m' ! i))" "distinct_keys (snd (m ! i))"
      using JObject.prems(2,3) w i nth_mem [OF i] by (auto simp: case_prod_beta)
    then show ?thesis
      using entry JObject.IH [of "m ! i" "snd (m ! i)" "snd (m' ! i)"] i
      by (auto simp: canon_entry_def prod_set_defs)
  qed
  then show ?case
    unfolding w using len by (intro same_object [OF m'(1)]) (auto simp: list_all2_conv_all_nth)
next
  case JNull
  with laws show ?case by (cases w) (simp_all add: canonicalize_object to_value_laws_def same_null)
next
  case (JBool b)
  with laws show ?case by (cases w) (simp_all add: canonicalize_object to_value_laws_def same_bool)
next
  case (JNumber n)
  with laws show ?case by (cases w) (simp_all add: canonicalize_object to_value_laws_def same_number)
next
  case (JString s)
  with laws show ?case by (cases w) (simp_all add: canonicalize_object to_value_laws_def same_string)
qed

subsection \<open>The hash as a commitment\<close>

text \<open>
  Documented behaviour of \<open>serde_json\<close> and \<open>hex\<close>: a value that was printed is parsed back, and
  hexadecimal text determines its bytes.
\<close>

definition print_laws :: "'n ext \<Rightarrow> (u8 list \<Rightarrow> 'n json option) \<Rightarrow> bool" where
  "print_laws x parse \<longleftrightarrow> (\<forall>v. wf_json v \<longrightarrow> parse (to_vec x v) = Some v) \<and> inj (hex_encode x)"

lemma hash_map_bytes:
  assumes "to_value_laws x" and "wf_json (JObject m)"
  shows "hash_json_map x m = hex_encode x (sha256_digest x (to_vec x (JObject m)))"
  using assms(1) canonicalize_wf_id [OF assms]
  by (simp add: hash_json_map_def hash_value_def to_value_laws_def)

text \<open>Two maps with one hash are equal, or their serializations are a collision.\<close>

lemma hash_commits:
  assumes "to_value_laws x" and "print_laws x parse" and "wf_json (JObject m)" and "wf_json (JObject m')"
    and "hash_json_map x m = hash_json_map x m'"
  shows "m = m' \<or> (to_vec x (JObject m) \<noteq> to_vec x (JObject m') \<and>
    sha256_digest x (to_vec x (JObject m)) = sha256_digest x (to_vec x (JObject m')))"
proof -
  have "sha256_digest x (to_vec x (JObject m)) = sha256_digest x (to_vec x (JObject m'))"
    using assms(5) assms(2) hash_map_bytes [OF assms(1,3)] hash_map_bytes [OF assms(1,4)]
    by (auto simp: print_laws_def dest: injD)
  moreover have "to_vec x (JObject m) = to_vec x (JObject m') \<Longrightarrow> m = m'"
    using assms(2-4) unfolding print_laws_def by (metis json.inject(5) option.inject)
  ultimately show ?thesis by blast
qed

subsection \<open>Properties of the hash\<close>

definition sample_value :: "f64 json" where
  "sample_value = JObject [(''b'', JBool True), (''a'', JArray [JNull])]"

definition sample_sorted :: "f64 json" where
  "sample_sorted = JObject [(''a'', JArray [JNull]), (''b'', JBool True)]"

lemma same_sample: "same_json sample_value sample_sorted"
  unfolding sample_value_def sample_sorted_def
  by (rule same_object [where m' = "[(''b'', JBool True), (''a'', JArray [JNull])]"])
    (auto intro: same_json.intros)

lemma sample_keys [simp]: "distinct_keys sample_value" "distinct_keys sample_sorted"
  "wf_json sample_sorted"
  by (simp_all add: sample_value_def sample_sorted_def bt_wf_def less_char_def)

text \<open>
  C30: The canonical form identifies exactly the values that differ only in the order in which the
  entries of their objects, at any depth, are stored. So the bytes that are hashed never depend
  on that order, and two values with different content never get the same bytes as long as the
  serializer separates canonical values.
\<close>

theorem canonicalize_iff_same_json:
  assumes "to_value_laws x" and "distinct_keys v" and "distinct_keys w"
  shows "canonicalize x v = canonicalize x w \<longleftrightarrow> same_json v w"
  using assms canonicalize_same_json same_json_canonicalize by metis

theorem canonicalize_iff_same_json_witness:
  "canonicalize demo_ext sample_value = canonicalize demo_ext sample_sorted"
  using canonicalize_iff_same_json [of demo_ext sample_value sample_sorted] same_sample by simp

text \<open>
  \<open>hash_json\<close> gives values that differ only in the order of object entries the same hash
  (the determinism its comment requires of distributed nodes), and it hashes a value that is
  already in key order as it is serialized.
\<close>

theorem hash_json_deterministic:
  assumes "to_value_laws x" and "distinct_keys v" and "same_json v w"
  shows "hash_json x v = hash_json x w \<and>
    (wf_json w \<longrightarrow> hash_json x v = hex_encode x (sha256_digest x (to_vec x w)))"
proof -
  have "canonicalize x v = canonicalize x w" using assms(2,3) same_json_canonicalize by metis
  then show ?thesis
    using assms(1) canonicalize_wf_id [OF assms(1), of w]
    by (auto simp: hash_json_def hash_value_def to_value_laws_def)
qed

theorem hash_json_deterministic_witness:
  "hash_json demo_ext sample_value = hash_json demo_ext sample_sorted \<and>
   hash_json demo_ext sample_value = demo_hex (take 4 (demo_vec sample_sorted))"
  using hash_json_deterministic [OF demo_to_value_laws sample_keys(1) same_sample] sample_keys(3)
  unfolding demo_ext_simps by blast

end
