(* ===== verification/Resilience.thy ===== *)
theory Resilience
  imports Demo_Ext
begin

section \<open>Timeout, retry, circuit breaker, rate limit (resilience.rs)\<close>

text \<open>
  \<open>ResilientExecutor::run\<close> is modelled in the order of the code: the rate limiter is asked, the
  breaker is asked, the closure is called until it succeeds or the attempts are used up, the
  breaker is told. What the environment decides is an argument: the answer of the \<open>governor\<close>
  limiter, the readings of the clock, how each call of the closure ends under
  \<open>tokio::time::timeout\<close>, and what the other tasks do to the shared breaker while this one holds
  no lock (\<open>interfere\<close>). The retry loop returns the sleeps it asked for beside its outcome.
\<close>

record resilience_config =
  rc_timeout :: duration
  rc_max_retries :: u32
  rc_initial_backoff :: duration
  rc_max_backoff :: duration
  rc_rps :: u32
  rc_circuit_threshold :: u8
  rc_circuit_cooldown :: duration

definition default_resilience :: resilience_config where
  "default_resilience =
     \<lparr>rc_timeout = from_secs 30, rc_max_retries = 3, rc_initial_backoff = from_millis 100,
      rc_max_backoff = from_secs 5, rc_rps = 1000, rc_circuit_threshold = 5,
      rc_circuit_cooldown = from_secs 10\<rparr>"

subsection \<open>The circuit breaker\<close>

record circuit_breaker =
  cb_threshold :: u8
  cb_cooldown :: duration
  cb_failures :: u8
  cb_open_until :: "instant option"

definition cb_new :: "u8 \<Rightarrow> duration \<Rightarrow> circuit_breaker" where
  "cb_new threshold cooldown =
     \<lparr>cb_threshold = threshold, cb_cooldown = cooldown, cb_failures = 0, cb_open_until = None\<rparr>"

definition allow :: "instant \<Rightarrow> circuit_breaker \<Rightarrow> bool \<times> circuit_breaker" where
  "allow now cb =
     (case cb_open_until cb of
        Some t \<Rightarrow>
          if now < t then (False, cb)
          else (True, cb\<lparr>cb_open_until := None, cb_failures := 0\<rparr>)
      | None \<Rightarrow> (True, cb))"

definition on_success :: "circuit_breaker \<Rightarrow> circuit_breaker" where
  "on_success cb = cb\<lparr>cb_failures := 0\<rparr>"

definition on_failure :: "instant \<Rightarrow> circuit_breaker \<Rightarrow> unit kernel_result \<times> circuit_breaker" where
  "on_failure now cb =
     (let cb' = cb\<lparr>cb_failures := saturating_add (cb_failures cb) 1\<rparr> in
      if cb_threshold cb' \<le> cb_failures cb' then
        (case instant_add now (cb_cooldown cb') of
           Ok t \<Rightarrow> (Ok (), cb'\<lparr>cb_open_until := Some t\<rparr>)
         | Err e \<Rightarrow> (Err e, cb')
         | Panic p \<Rightarrow> (Panic p, cb'))
      else (Ok (), cb'))"

subsection \<open>The executor\<close>

record executor =
  ex_cfg :: resilience_config
  ex_quota :: u32
  ex_breaker :: circuit_breaker

text \<open>\<open>NonZeroU32::new(cfg.rps.max(1)).unwrap()\<close> and the fresh breaker.\<close>

definition executor_new :: "resilience_config \<Rightarrow> executor kernel_result" where
  "executor_new cfg =
     (let n = max (rc_rps cfg) 1 in
      and_then (unwrap (if n = 0 then None else Some n)) (\<lambda>quota.
        Ok \<lparr>ex_cfg = cfg, ex_quota = quota,
            ex_breaker = cb_new (rc_circuit_threshold cfg) (rc_circuit_cooldown cfg)\<rparr>))"

datatype 'a attempt = Elapsed | Completed "'a kernel_result"

definition attempt_outcome :: "resilience_config \<Rightarrow> 'a attempt \<Rightarrow> 'a kernel_result" where
  "attempt_outcome cfg a =
     (case a of Completed r \<Rightarrow> r | Elapsed \<Rightarrow> Err (Timeout (rc_timeout cfg)))"

text \<open>The loop: call \<open>i\<close> of the closure ends as \<open>f i\<close>.\<close>

function retry_loop :: "resilience_config \<Rightarrow> (nat \<Rightarrow> 'a attempt) \<Rightarrow> u32 \<Rightarrow> duration \<Rightarrow>
    'a kernel_result \<times> duration list" where
  "retry_loop cfg f attempt backoff =
     (case add_w attempt 1 of
        Panic p \<Rightarrow> (Panic p, [])
      | Err e \<Rightarrow> (Err e, [])
      | Ok attempt' \<Rightarrow>
          (case attempt_outcome cfg (f (unat attempt)) of
             Ok v \<Rightarrow> (Ok v, [])
           | Panic p \<Rightarrow> (Panic p, [])
           | Err e \<Rightarrow>
               if rc_max_retries cfg \<le> attempt' then (Err e, [])
               else (case duration_mul backoff 2 of
                       Ok d \<Rightarrow>
                         (let (r, sleeps) = retry_loop cfg f attempt' (min d (rc_max_backoff cfg))
                          in (r, backoff # sleeps))
                     | Err e' \<Rightarrow> (Err e', [backoff])
                     | Panic p \<Rightarrow> (Panic p, [backoff]))))"
  by pat_completeness auto
termination
  by (relation "measure (\<lambda>(cfg, f, attempt, backoff). unat (rc_max_retries cfg) - unat attempt)")
    (auto dest!: unat_add_w simp: word_le_nat_alt)

declare retry_loop.simps [simp del]

definition run_admit :: "bool \<Rightarrow> instant \<Rightarrow> circuit_breaker \<Rightarrow> unit kernel_result \<times> circuit_breaker" where
  "run_admit limiter_ok now cb =
     (if \<not> limiter_ok then (Err RateLimited, cb)
      else (let (ok, cb') = allow now cb in
            if ok then (Ok (), cb') else (Err CircuitOpen, cb')))"

definition run_settle :: "instant \<Rightarrow> 'a kernel_result \<Rightarrow> circuit_breaker \<Rightarrow>
    'a kernel_result \<times> circuit_breaker" where
  "run_settle now r cb =
     (case r of
        Ok v \<Rightarrow> (Ok v, on_success cb)
      | Err e \<Rightarrow>
          (case on_failure now cb of
             (Ok _, cb') \<Rightarrow> (Err e, cb')
           | (Err e', cb') \<Rightarrow> (Err e', cb')
           | (Panic p, cb') \<Rightarrow> (Panic p, cb'))
      | Panic p \<Rightarrow> (Panic p, cb))"

definition run :: "resilience_config \<Rightarrow> bool \<Rightarrow> instant \<Rightarrow> (nat \<Rightarrow> 'a attempt) \<Rightarrow>
    (circuit_breaker \<Rightarrow> circuit_breaker) \<Rightarrow> instant \<Rightarrow> circuit_breaker \<Rightarrow>
    'a kernel_result \<times> circuit_breaker" where
  "run cfg limiter_ok now f interfere now' cb =
     (case run_admit limiter_ok now cb of
        (Ok _, cb') \<Rightarrow>
          run_settle now' (fst (retry_loop cfg f 0 (rc_initial_backoff cfg))) (interfere cb')
      | (Err e, cb') \<Rightarrow> (Err e, cb')
      | (Panic p, cb') \<Rightarrow> (Panic p, cb'))"

subsection \<open>What the retry loop does\<close>

text \<open>
  The number of calls the loop may make, the sleep after call \<open>k\<close> (the first one is not
  capped), and the condition under which doubling a sleep does not overflow.
\<close>

definition max_calls :: "resilience_config \<Rightarrow> nat" where
  "max_calls cfg = max 1 (unat (rc_max_retries cfg))"

definition nth_backoff :: "resilience_config \<Rightarrow> nat \<Rightarrow> duration" where
  "nth_backoff cfg k =
     (if k = 0 then rc_initial_backoff cfg
      else min (Duration (as_nanos (rc_initial_backoff cfg) * 2 ^ k)) (rc_max_backoff cfg))"

definition backoff_safe :: "resilience_config \<Rightarrow> bool" where
  "backoff_safe cfg \<longleftrightarrow>
     as_nanos (rc_initial_backoff cfg) * 2 \<le> duration_max \<and>
     as_nanos (rc_max_backoff cfg) * 2 \<le> duration_max"

definition is_err :: "'a kernel_result \<Rightarrow> bool" where
  "is_err r \<longleftrightarrow> (\<exists>e. r = Err e)"

lemma max_calls_less: "max_calls cfg < 2 ^ 32"
  using unsigned_less [of "rc_max_retries cfg", where ?'a = nat] by (simp add: max_calls_def)

lemma nth_backoff_Suc:
  "nth_backoff cfg (Suc k) = min (Duration (as_nanos (nth_backoff cfg k) * 2)) (rc_max_backoff cfg)"
  by (cases k) (auto simp: nth_backoff_def min_def ac_simps duration.expand)

text \<open>Doubling the sleep after call \<open>k\<close> overflows.\<close>

definition backoff_overflows :: "resilience_config \<Rightarrow> nat \<Rightarrow> bool" where
  "backoff_overflows cfg k \<longleftrightarrow> duration_max < as_nanos (nth_backoff cfg k) * 2"

lemma safe_no_overflow: "backoff_safe cfg \<Longrightarrow> \<not> backoff_overflows cfg k"
  by (auto simp: backoff_safe_def backoff_overflows_def nth_backoff_def)

text \<open>One round of the loop, with the counter read as a number.\<close>

lemma retry_loop_round:
  assumes k: "unat a = k" and bound: "k < max_calls cfg"
  shows "retry_loop cfg f a (nth_backoff cfg k) =
    (if is_err (attempt_outcome cfg (f k)) \<and> Suc k < max_calls cfg
     then if backoff_overflows cfg k then (Panic Arith_Overflow, [nth_backoff cfg k])
          else (let (r, sleeps) = retry_loop cfg f (a + 1) (nth_backoff cfg (Suc k))
                in (r, nth_backoff cfg k # sleeps))
     else (attempt_outcome cfg (f k), []))"
proof -
  have lt: "unat a + unat (1 :: u32) < 2 ^ LENGTH(32)"
    using max_calls_less [of cfg] k bound by simp
  then have step: "add_w a 1 = Ok (a + 1)" by (simp add: add_w_def)
  have "unat (a + 1) = Suc k" using unat_add_w [OF step] k by simp
  then have "rc_max_retries cfg \<le> a + 1 \<longleftrightarrow> \<not> Suc k < max_calls cfg"
    by (auto simp: max_calls_def word_le_nat_alt)
  moreover have "(duration_mul (nth_backoff cfg k) 2 :: duration kernel_result) =
      (if backoff_overflows cfg k then Panic Arith_Overflow
       else Ok (Duration (as_nanos (nth_backoff cfg k) * 2)))"
    by (simp add: duration_mul_def backoff_overflows_def)
  ultimately show ?thesis
    using k by (subst retry_loop.simps)
      (auto simp: step is_err_def nth_backoff_Suc split: outcome.split)
qed

lemma retry_loop_from:
  assumes i: "i < max_calls cfg"
    and errs: "\<And>j. j < i \<Longrightarrow> is_err (attempt_outcome cfg (f j))"
    and stop: "Suc i = max_calls cfg \<or> \<not> is_err (attempt_outcome cfg (f i))"
  shows "unat a = k \<Longrightarrow> k \<le> i \<Longrightarrow>
    fst (retry_loop cfg f a (nth_backoff cfg k)) =
      (if \<exists>j \<in> {k..<i}. backoff_overflows cfg j then Panic Arith_Overflow else attempt_outcome cfg (f i)) \<and>
    ((\<forall>j \<in> {k..<i}. \<not> backoff_overflows cfg j) \<longrightarrow>
      snd (retry_loop cfg f a (nth_backoff cfg k)) = map (nth_backoff cfg) [k..<i])"
proof (induction "i - k" arbitrary: a k)
  case 0
  then have "k = i" by simp
  with 0 stop show ?case by (auto simp: retry_loop_round [OF _ i])
next
  case (Suc n)
  then have less: "k < i" and k: "k < max_calls cfg" and Sk: "Suc k < max_calls cfg" using i by auto
  have "add_w a 1 = Ok (a + 1)"
    using max_calls_less [of cfg] k Suc.prems(1) by (simp add: add_w_def)
  from unat_add_w [OF this] have "unat (a + 1) = Suc k" using Suc.prems(1) by simp
  moreover have "n = i - Suc k" using Suc.hyps(2) by simp
  ultimately have IH: "fst (retry_loop cfg f (a + 1) (nth_backoff cfg (Suc k))) =
      (if \<exists>j \<in> {Suc k..<i}. backoff_overflows cfg j then Panic Arith_Overflow else attempt_outcome cfg (f i)) \<and>
    ((\<forall>j \<in> {Suc k..<i}. \<not> backoff_overflows cfg j) \<longrightarrow>
      snd (retry_loop cfg f (a + 1) (nth_backoff cfg (Suc k))) = map (nth_backoff cfg) [Suc k..<i])"
    using less by (intro Suc.hyps(1)) simp_all
  have range: "{k..<i} = insert k {Suc k..<i}" using less by auto
  show ?case
    using IH less errs [OF less] Sk
    by (simp add: retry_loop_round [OF Suc.prems(1) k] range upt_conv_Cons case_prod_beta')
qed

lemma first_stop:
  obtains i where "i < max_calls cfg"
    and "\<And>j. j < i \<Longrightarrow> is_err (attempt_outcome cfg (f j))"
    and "Suc i = max_calls cfg \<or> \<not> is_err (attempt_outcome cfg (f i))"
proof -
  let ?P = "\<lambda>i. Suc i = max_calls cfg \<or> \<not> is_err (attempt_outcome cfg (f i))"
  have last: "?P (max_calls cfg - 1)" by (simp add: max_calls_def)
  obtain i where "i \<le> max_calls cfg - 1" and least: "\<forall>j < i. \<not> ?P j" and i: "?P i"
    using ex_least_nat_le [of ?P, OF last] by blast
  then have "i < max_calls cfg" by (simp add: max_calls_def)
  then show thesis using least i by (intro that [of i]) blast+
qed

text \<open>The loop makes boundedly many calls and returns only what some call returned.\<close>

lemma retry_loop_sleeps:
  "Suc (unat a + length (snd (retry_loop cfg f a b))) \<le> max (Suc (unat a)) (unat (rc_max_retries cfg))"
proof (induction cfg f a b rule: retry_loop.induct)
  case (1 cfg f a b)
  show ?case
  proof (cases "add_w a 1 :: u32 kernel_result")
    case (Ok a')
    then have a': "unat a' = Suc (unat a)" using unat_add_w [OF Ok] by simp
    show ?thesis
    proof (cases "\<exists>e. attempt_outcome cfg (f (unat a)) = Err e \<and> \<not> rc_max_retries cfg \<le> a'")
      case True
      then obtain e where e: "attempt_outcome cfg (f (unat a)) = Err e" "\<not> rc_max_retries cfg \<le> a'"
        by blast
      then have "Suc (unat a) < unat (rc_max_retries cfg)"
        using a' by (simp add: word_le_nat_alt)
      with e a' "1.IH" [OF Ok e] show ?thesis
        by (subst retry_loop.simps) (auto simp: Ok case_prod_beta' Let_def split: outcome.split)
    next
      case False
      then show ?thesis by (subst retry_loop.simps) (auto simp: Ok split: outcome.split)
    qed
  qed (subst retry_loop.simps, simp)+
qed

lemma retry_loop_Ok:
  "fst (retry_loop cfg f a b) = Ok v \<Longrightarrow>
   \<exists>i. f i = Completed (Ok v) \<and> i < max (Suc (unat a)) (unat (rc_max_retries cfg))"
proof (induction cfg f a b rule: retry_loop.induct)
  case (1 cfg f a b)
  show ?case
  proof (cases "attempt_outcome cfg (f (unat a))")
    case (Err e)
    from "1.prems" Err obtain a' d where a': "add_w a 1 = (Ok a' :: u32 kernel_result)"
      and lt: "\<not> rc_max_retries cfg \<le> a'" and d: "duration_mul b 2 = (Ok d :: duration kernel_result)"
      and rest: "fst (retry_loop cfg f a' (min d (rc_max_backoff cfg))) = Ok v"
      by (subst (asm) retry_loop.simps) (auto simp: case_prod_beta' Let_def split: outcome.splits if_splits)
    have "unat a' = Suc (unat a)" using unat_add_w [OF a'] by simp
    moreover have "unat a' < unat (rc_max_retries cfg)" using lt by (simp add: word_le_nat_alt)
    ultimately show ?thesis using "1.IH" [OF a' Err lt d rest] by auto
  next
    case (Ok w)
    with "1.prems" have "f (unat a) = Completed (Ok v)"
      by (subst (asm) retry_loop.simps)
        (auto simp: attempt_outcome_def split: outcome.splits attempt.splits)
    then show ?thesis by auto
  next
    case (Panic q)
    with "1.prems" show ?thesis
      by (subst (asm) retry_loop.simps) (simp split: outcome.splits)
  qed
qed

lemma retry_loop_Err:
  "fst (retry_loop cfg f a b) = Err e \<Longrightarrow> \<exists>i. attempt_outcome cfg (f i) = Err e"
proof (induction cfg f a b rule: retry_loop.induct)
  case (1 cfg f a b)
  show ?case
  proof (cases "\<exists>e' a' d. attempt_outcome cfg (f (unat a)) = Err e' \<and> add_w a 1 = (Ok a' :: u32 kernel_result) \<and>
      \<not> rc_max_retries cfg \<le> a' \<and> duration_mul b 2 = (Ok d :: duration kernel_result)")
    case True
    then obtain e' a' d where a': "add_w a 1 = (Ok a' :: u32 kernel_result)"
      and e': "attempt_outcome cfg (f (unat a)) = Err e'" and lt: "\<not> rc_max_retries cfg \<le> a'"
      and d: "duration_mul b 2 = (Ok d :: duration kernel_result)" by blast
    from "1.prems" have "fst (retry_loop cfg f a' (min d (rc_max_backoff cfg))) = Err e"
      by (subst (asm) retry_loop.simps) (simp add: a' e' lt d case_prod_beta' Let_def)
    from "1.IH" [OF a' e' lt d this] show ?thesis .
  next
    case False
    have "add_w a 1 \<noteq> (Err e'' :: u32 kernel_result)" "duration_mul b 2 \<noteq> (Err e'' :: duration kernel_result)" for e''
      by (simp_all add: add_w_def duration_mul_def)
    with False "1.prems" have "attempt_outcome cfg (f (unat a)) = Err e"
      by (subst (asm) retry_loop.simps) (auto split: outcome.splits if_splits)
    then show ?thesis by blast
  qed
qed

subsection \<open>The breaker as a state machine\<close>

text \<open>
  The critical sections of the mutex, as one step each, with what the caller is told.
\<close>

datatype breaker_event = Ask instant | Succeeded | Failed instant

datatype breaker_reply = Allowed bool | Noted "unit kernel_result"

fun breaker_step :: "circuit_breaker \<Rightarrow> breaker_event \<Rightarrow> breaker_reply \<times> circuit_breaker" where
  "breaker_step cb (Ask now) = (let (ok, cb') = allow now cb in (Allowed ok, cb'))"
| "breaker_step cb Succeeded = (Noted (Ok ()), on_success cb)"
| "breaker_step cb (Failed now) = (let (r, cb') = on_failure now cb in (Noted r, cb'))"

fun breaker_replies :: "circuit_breaker \<Rightarrow> breaker_event list \<Rightarrow> breaker_reply list" where
  "breaker_replies cb [] = []"
| "breaker_replies cb (e # es) =
     (let (r, cb') = breaker_step cb e in r # breaker_replies cb' es)"

text \<open>
  The abstract breaker counts consecutive failures without a bound; \<open>th\<close> is the threshold as a
  number. It says what the eight-bit saturating counter of the code is meant to implement.
\<close>

record breaker_spec =
  bs_count :: nat
  bs_open :: "instant option"

fun spec_step :: "nat \<Rightarrow> duration \<Rightarrow> breaker_spec \<Rightarrow> breaker_event \<Rightarrow> breaker_reply \<times> breaker_spec" where
  "spec_step th cd s (Ask now) =
     (case bs_open s of
        None \<Rightarrow> (Allowed True, s)
      | Some t \<Rightarrow> if now < t then (Allowed False, s)
                  else (Allowed True, \<lparr>bs_count = 0, bs_open = None\<rparr>))"
| "spec_step th cd s Succeeded = (Noted (Ok ()), s\<lparr>bs_count := 0\<rparr>)"
| "spec_step th cd s (Failed now) =
     (let s' = s\<lparr>bs_count := Suc (bs_count s)\<rparr> in
      if th \<le> bs_count s' then
        (case instant_add now cd of
           Ok t \<Rightarrow> (Noted (Ok ()), s'\<lparr>bs_open := Some t\<rparr>)
         | Err e \<Rightarrow> (Noted (Err e), s')
         | Panic p \<Rightarrow> (Noted (Panic p), s'))
      else (Noted (Ok ()), s'))"

fun spec_replies :: "nat \<Rightarrow> duration \<Rightarrow> breaker_spec \<Rightarrow> breaker_event list \<Rightarrow> breaker_reply list" where
  "spec_replies th cd s [] = []"
| "spec_replies th cd s (e # es) =
     (let (r, s') = spec_step th cd s e in r # spec_replies th cd s' es)"

definition breaker_sim :: "nat \<Rightarrow> duration \<Rightarrow> circuit_breaker \<Rightarrow> breaker_spec \<Rightarrow> bool" where
  "breaker_sim th cd cb s \<longleftrightarrow>
     unat (cb_threshold cb) = th \<and> cb_cooldown cb = cd \<and>
     unat (cb_failures cb) = min (bs_count s) 255 \<and> cb_open_until cb = bs_open s"

lemma breaker_sim_step:
  assumes "breaker_sim th cd cb s"
  shows "fst (breaker_step cb e) = fst (spec_step th cd s e) \<and>
    breaker_sim th cd (snd (breaker_step cb e)) (snd (spec_step th cd s e))"
proof (cases e)
  case (Ask now)
  with assms show ?thesis
    by (auto simp: breaker_sim_def allow_def split: option.split)
next
  case Succeeded
  with assms show ?thesis by (simp add: breaker_sim_def on_success_def)
next
  case (Failed now)
  let ?f = "saturating_add (cb_failures cb) 1"
  have f: "unat ?f = min (Suc (bs_count s)) 255"
    using assms by (simp add: breaker_sim_def unat_saturating_add)
  have "unat (cb_threshold cb) < 256"
    using unsigned_less [of "cb_threshold cb", where ?'a = nat] by simp
  then have "cb_threshold cb \<le> ?f \<longleftrightarrow> th \<le> Suc (bs_count s)"
    using assms by (auto simp: breaker_sim_def word_le_nat_alt f)
  with Failed assms show ?thesis
    by (auto simp: breaker_sim_def on_failure_def Let_def f split: outcome.split)
qed

lemma breaker_sim_replies:
  "breaker_sim th cd cb s \<Longrightarrow> breaker_replies cb es = spec_replies th cd s es"
proof (induction es arbitrary: cb s)
  case Nil
  then show ?case by simp
next
  case (Cons e es)
  from breaker_sim_step [OF Cons.prems, of e] show ?case
    by (auto simp: case_prod_beta' Let_def intro: Cons.IH)
qed

lemma breaker_sim_new: "breaker_sim (unat th) cd (cb_new th cd) \<lparr>bs_count = 0, bs_open = None\<rparr>"
  by (simp add: breaker_sim_def cb_new_def)

text \<open>
  Steps of a breaker that do not panic, and the invariant they keep: with a positive threshold, a
  closed breaker has seen fewer consecutive failures than the threshold.
\<close>

fun reply_quiet :: "breaker_reply \<Rightarrow> bool" where
  "reply_quiet (Noted r) = no_panic r"
| "reply_quiet (Allowed _) = True"

inductive breaker_moves :: "circuit_breaker \<Rightarrow> circuit_breaker \<Rightarrow> bool" where
  move: "breaker_step cb e = (r, cb') \<Longrightarrow> reply_quiet r \<Longrightarrow> breaker_moves cb cb'"

inductive_cases breaker_moves_cases: "breaker_moves cb cb'"

definition breaker_fresh :: "circuit_breaker \<Rightarrow> bool" where
  "breaker_fresh cb \<longleftrightarrow> (\<exists>th cd. 0 < th \<and> cb = cb_new th cd)"

definition breaker_inv :: "circuit_breaker \<Rightarrow> bool" where
  "breaker_inv cb \<longleftrightarrow>
     0 < cb_threshold cb \<and> (cb_open_until cb = None \<longrightarrow> cb_failures cb < cb_threshold cb)"

lemma breaker_inv_step:
  assumes "breaker_inv cb" and "breaker_moves cb cb'"
  shows "breaker_inv cb'"
proof -
  obtain e r where st: "breaker_step cb e = (r, cb')" and np: "reply_quiet r"
    using assms(2) by (rule breaker_moves_cases)
  show ?thesis
  proof (cases e)
    case (Ask now)
    with st assms(1) show ?thesis
      by (auto simp: breaker_inv_def allow_def split: option.splits if_splits)
  next
    case Succeeded
    with st assms(1) show ?thesis by (auto simp: breaker_inv_def on_success_def)
  next
    case (Failed now)
    with st np assms(1) show ?thesis
      by (auto simp: breaker_inv_def on_failure_def Let_def instant_add_def not_le split: if_splits)
  qed
qed

interpretation breaker: step_invariant breaker_fresh breaker_moves breaker_inv
proof
  show "breaker_fresh s \<Longrightarrow> breaker_inv s" for s
    by (auto simp: breaker_fresh_def breaker_inv_def cb_new_def)
qed (rule breaker_inv_step)

text \<open>The state after a run of failures reported at the given times.\<close>

definition after_failures :: "circuit_breaker \<Rightarrow> instant list \<Rightarrow> circuit_breaker" where
  "after_failures cb ts = foldl (\<lambda>cb t. snd (on_failure t cb)) cb ts"

lemma after_failures_snoc:
  "after_failures cb (ts @ [t]) = snd (on_failure t (after_failures cb ts))"
  by (simp add: after_failures_def)

lemma after_failures_closed:
  "length ts < unat th \<Longrightarrow> after_failures (cb_new th cd) ts =
     \<lparr>cb_threshold = th, cb_cooldown = cd, cb_failures = of_nat (length ts), cb_open_until = None\<rparr>"
proof (induction ts rule: rev_induct)
  case Nil
  then show ?case by (simp add: after_failures_def cb_new_def)
next
  case (snoc t ts)
  have "unat th < 256" using unsigned_less [of th, where ?'a = nat] by simp
  then have n: "Suc (length ts) < 256" using snoc.prems by simp
  then have "unat (of_nat (Suc (length ts)) :: u8) = Suc (length ts)"
    by (simp only: unat_of_nat) simp
  moreover have "saturating_add (of_nat (length ts)) 1 = (of_nat (Suc (length ts)) :: u8)"
    using n by (simp add: saturating_add_def unat_of_nat)
  ultimately show ?case
    using snoc by (simp add: after_failures_snoc on_failure_def Let_def word_le_nat_alt del: of_nat_Suc)
qed

lemma after_failures_opens:
  assumes th: "0 < th" and len: "length ts + 1 = unat th"
    and fits: "since_origin t + as_nanos cd < instant_limit"
  shows "after_failures (cb_new th cd) (ts @ [t]) =
    \<lparr>cb_threshold = th, cb_cooldown = cd, cb_failures = th,
     cb_open_until = Some (Instant (since_origin t + as_nanos cd))\<rparr>"
proof -
  have "unat th < 256" using unsigned_less [of th, where ?'a = nat] by simp
  then have "unat (of_nat (length ts) :: u8) = length ts" using len by (simp add: unat_of_nat)
  moreover have "of_nat (length ts) + 1 = th"
    using arg_cong [OF len, of "of_nat :: nat \<Rightarrow> u8"] by (simp add: add.commute)
  ultimately have "saturating_add (of_nat (length ts)) 1 = th"
    using len \<open>unat th < 256\<close> by (simp add: saturating_add_def)
  then show ?thesis
    using fits len by (simp add: after_failures_snoc after_failures_closed on_failure_def Let_def
        instant_add_def)
qed

subsection \<open>Properties of the resilience layer\<close>

text \<open>Call \<open>i\<close> is the last one: every earlier one failed, and it succeeds or is the last allowed.\<close>

definition stops_at :: "resilience_config \<Rightarrow> (nat \<Rightarrow> 'a attempt) \<Rightarrow> nat \<Rightarrow> bool" where
  "stops_at cfg f i \<longleftrightarrow> i < max_calls cfg \<and> (\<forall>j < i. is_err (attempt_outcome cfg (f j))) \<and>
     (Suc i = max_calls cfg \<or> \<not> is_err (attempt_outcome cfg (f i)))"

lemma stops_at_exists: "\<exists>i. stops_at cfg f i"
  using first_stop [of cfg f] by (auto simp: stops_at_def)

lemma retry_loop_outcome:
  assumes "stops_at cfg f i"
  shows "fst (retry_loop cfg f 0 (rc_initial_backoff cfg)) =
    (if \<exists>k < i. backoff_overflows cfg k then Panic Arith_Overflow else attempt_outcome cfg (f i))"
  using retry_loop_from [of i cfg f 0 0] assms
  by (simp add: stops_at_def nth_backoff_def Bex_def)

lemma retry_loop_stops:
  assumes "backoff_safe cfg" and "stops_at cfg f i"
  shows "retry_loop cfg f 0 (rc_initial_backoff cfg) =
    (attempt_outcome cfg (f i), map (nth_backoff cfg) [0..<i])"
  using retry_loop_from [of i cfg f 0 0] assms(2) safe_no_overflow [OF assms(1)]
  by (simp add: stops_at_def nth_backoff_def prod_eq_iff)

text \<open>Two failures, then success, as in the test of the crate; and a service that never answers.\<close>

definition flaky :: "nat \<Rightarrow> nat attempt" where
  "flaky i = (if i < 2 then Completed (Err (Network ''x'')) else Completed (Ok 42))"

definition stuck :: "nat \<Rightarrow> nat attempt" where
  "stuck i = Elapsed"

lemma default_backoff_safe [simp]: "backoff_safe default_resilience"
  by (simp add: backoff_safe_def default_resilience_def from_secs_def from_millis_def
      duration_max_def nanos_per_sec_def)

lemma default_max_calls [simp]: "max_calls default_resilience = 3"
  by (simp add: max_calls_def default_resilience_def)

lemma flaky_stops: "stops_at default_resilience flaky i \<longleftrightarrow> i = 2"
  by (auto simp: stops_at_def flaky_def is_err_def attempt_outcome_def less_Suc_eq numeral_3_eq_3
      numeral_2_eq_2)

lemma stuck_stops: "stops_at default_resilience stuck i \<longleftrightarrow> i = 2"
  by (auto simp: stops_at_def stuck_def is_err_def attempt_outcome_def numeral_3_eq_3
      numeral_2_eq_2)

text \<open>
  C24: The retry loop ends. It calls the closure until a call does not fail, at most
  \<open>max(1, max_retries)\<close> times, returns what the last call returned (a timeout for a call that
  did not finish), and sleeps between the calls for the initial backoff doubled after each
  call and capped by the maximal one, the first sleep excepted.
\<close>

theorem retry_loop_result:
  assumes "backoff_safe cfg"
  shows "\<exists>i. stops_at cfg f i \<and>
    retry_loop cfg f 0 (rc_initial_backoff cfg) =
      (attempt_outcome cfg (f i), map (nth_backoff cfg) [0..<i])"
  using stops_at_exists retry_loop_stops [OF assms] by metis

theorem retry_loop_result_witness:
  "retry_loop default_resilience flaky 0 (rc_initial_backoff default_resilience) =
     (Ok 42, [from_millis 100, from_millis 200])"
proof -
  have "map (nth_backoff default_resilience) [0..<2] = [from_millis 100, from_millis 200]"
    by (simp add: numeral_2_eq_2 nth_backoff_def default_resilience_def from_millis_def
        from_secs_def nanos_per_sec_def)
  moreover have "attempt_outcome default_resilience (flaky 2) = Ok 42"
    by (simp add: flaky_def attempt_outcome_def)
  ultimately show ?thesis
    using retry_loop_result [OF default_backoff_safe, of flaky] by (auto simp: flaky_stops)
qed

text \<open>
  Whatever the configuration and the environment, the loop makes at most
  \<open>max(1, max_retries)\<close> calls: it sleeps one time less than it calls.
\<close>

theorem retry_calls_bounded:
  "length (snd (retry_loop cfg f 0 b)) < max_calls cfg"
  using retry_loop_sleeps [of 0 cfg f b] by (simp add: max_calls_def)

text \<open>A failed call as the breaker counts it: up to 255, and open from the threshold on.\<close>

lemma on_failure_result:
  "on_failure now cb =
    (let n = min 255 (Suc (unat (cb_failures cb))); counted = cb\<lparr>cb_failures := of_nat n\<rparr>;
         until = since_origin now + as_nanos (cb_cooldown cb) in
     if n < unat (cb_threshold cb) then (Ok (), counted)
     else if until < instant_limit then (Ok (), counted\<lparr>cb_open_until := Some (Instant until)\<rparr>)
     else (Panic Arith_Overflow, counted))"
proof -
  let ?n = "min 255 (Suc (unat (cb_failures cb)))"
  have sat: "unat (saturating_add (cb_failures cb) 1) = ?n" by (simp add: unat_saturating_add min.commute)
  have "saturating_add (cb_failures cb) 1 = (of_nat (unat (saturating_add (cb_failures cb) 1)) :: u8)" by simp
  then have "saturating_add (cb_failures cb) 1 = (of_nat ?n :: u8)" unfolding sat .
  then show ?thesis
    using sat by (simp add: on_failure_def Let_def word_le_nat_alt instant_add_def not_le del: of_nat_Suc)
qed

lemma run_settle_result:
  "run_settle now r cb =
    (let n = min 255 (Suc (unat (cb_failures cb))); counted = cb\<lparr>cb_failures := of_nat n\<rparr>;
         until = since_origin now + as_nanos (cb_cooldown cb) in
     case r of
       Ok v \<Rightarrow> (Ok v, cb\<lparr>cb_failures := 0\<rparr>)
     | Panic p \<Rightarrow> (Panic p, cb)
     | Err e \<Rightarrow>
         if n < unat (cb_threshold cb) then (Err e, counted)
         else if until < instant_limit then (Err e, counted\<lparr>cb_open_until := Some (Instant until)\<rparr>)
         else (Panic Arith_Overflow, counted))"
  by (cases r) (simp_all add: run_settle_def on_failure_result on_success_def Let_def)

text \<open>
  C23: What \<open>run\<close> returns and what it leaves in the breaker, on every branch and for every
  configuration. A refusal of the limiter and an open breaker are reported without a call of the
  closure and without a change of the breaker. Otherwise a breaker whose cooldown has passed is
  closed with no failures, the other tasks interfere, and the last call decides: a success resets
  the counter; an error, however many calls failed, adds one to it, up to 255, and from the
  threshold on opens the breaker until the cooldown has passed from then. Two sums can overflow: a
  doubled sleep panics before the next call with the breaker as it was, and the end of the cooldown
  panics with the failure counted but the breaker not opened.
\<close>

theorem run_result:
  assumes "stops_at cfg f i"
  shows "run cfg limiter_ok now f interfere now' cb =
    (if \<not> limiter_ok then (Err RateLimited, cb)
     else if \<exists>t. cb_open_until cb = Some t \<and> now < t then (Err CircuitOpen, cb)
     else
       let cb' = interfere (if cb_open_until cb = None then cb
                            else cb\<lparr>cb_open_until := None, cb_failures := 0\<rparr>);
           n = min 255 (Suc (unat (cb_failures cb')));
           counted = cb'\<lparr>cb_failures := of_nat n\<rparr>;
           until = since_origin now' + as_nanos (cb_cooldown cb') in
       if \<exists>k < i. duration_max < as_nanos (nth_backoff cfg k) * 2 then (Panic Arith_Overflow, cb')
       else case attempt_outcome cfg (f i) of
         Ok v \<Rightarrow> (Ok v, cb'\<lparr>cb_failures := 0\<rparr>)
       | Panic p \<Rightarrow> (Panic p, cb')
       | Err e \<Rightarrow>
           if n < unat (cb_threshold cb') then (Err e, counted)
           else if until < instant_limit then (Err e, counted\<lparr>cb_open_until := Some (Instant until)\<rparr>)
           else (Panic Arith_Overflow, counted))"
proof -
  define c where "c = (if cb_open_until cb = None then cb else cb\<lparr>cb_open_until := None, cb_failures := 0\<rparr>)"
  define opened where "opened = (\<exists>t. cb_open_until cb = Some t \<and> now < t)"
  define overflow where "overflow = (\<exists>k < i. duration_max < as_nanos (nth_backoff cfg k) * 2)"
  have admit: "run_admit limiter_ok now cb =
      (if \<not> limiter_ok then (Err RateLimited, cb)
       else if opened then (Err CircuitOpen, cb) else (Ok (), c))"
    by (auto simp: run_admit_def allow_def c_def opened_def split: option.split)
  have loop: "fst (retry_loop cfg f 0 (rc_initial_backoff cfg)) =
      (if overflow then Panic Arith_Overflow else attempt_outcome cfg (f i))"
    using retry_loop_outcome [OF assms] by (simp only: backoff_overflows_def overflow_def)
  show ?thesis
    unfolding c_def [symmetric] opened_def [symmetric] overflow_def [symmetric]
      run_def admit loop run_settle_result
    by (cases limiter_ok; cases opened; cases overflow) (simp_all add: Let_def)
qed

theorem run_result_witness:
  "run default_resilience True (Instant 5) stuck (\<lambda>cb. cb) (Instant 100)
     (cb_new 1 (from_secs 10)) =
   (Err (Timeout (from_secs 30)),
    \<lparr>cb_threshold = 1, cb_cooldown = from_secs 10, cb_failures = 1,
     cb_open_until = Some (Instant 10000000100)\<rparr>)"
proof -
  have "\<not> duration_max < as_nanos (nth_backoff default_resilience k) * 2" for k
    using safe_no_overflow [OF default_backoff_safe] by (simp add: backoff_overflows_def)
  moreover have "attempt_outcome default_resilience (stuck 2) = Err (Timeout (from_secs 30))"
    by (simp add: stuck_def attempt_outcome_def default_resilience_def)
  ultimately show ?thesis
    using run_result [OF stuck_stops [THEN iffD2, OF refl], of True "Instant 5" "\<lambda>cb. cb" "Instant 100"
        "cb_new 1 (from_secs 10)"]
    by (simp add: cb_new_def from_secs_def nanos_per_sec_def instant_limit_def Let_def)
qed

lemma run_Ok_lemma:
  assumes "fst (run cfg limiter_ok now f interfere now' cb) = Ok v"
  shows "limiter_ok \<and> fst (allow now cb) \<and> (\<exists>i < max_calls cfg. f i = Completed (Ok v))"
proof -
  have ok: "limiter_ok" "fst (allow now cb)"
    using assms by (auto simp: run_def run_admit_def split: prod.splits if_splits)
  then have "fst (run_settle now' (fst (retry_loop cfg f 0 (rc_initial_backoff cfg)))
      (interfere (snd (allow now cb)))) = Ok v"
    using assms by (auto simp: run_def run_admit_def split: prod.splits)
  then have "fst (retry_loop cfg f 0 (rc_initial_backoff cfg)) = Ok v"
    by (auto simp: run_settle_def split: outcome.splits prod.splits)
  from retry_loop_Ok [OF this] ok show ?thesis by (auto simp: max_calls_def)
qed

lemma run_Err_lemma:
  assumes "fst (run cfg limiter_ok now f interfere now' cb) = Err e"
  shows "e = RateLimited \<or> e = CircuitOpen \<or> e = Timeout (rc_timeout cfg) \<or> (\<exists>i. f i = Completed (Err e))"
proof (cases "limiter_ok \<and> fst (allow now cb)")
  case True
  then have "fst (run_settle now' (fst (retry_loop cfg f 0 (rc_initial_backoff cfg)))
      (interfere (snd (allow now cb)))) = Err e"
    using assms by (auto simp: run_def run_admit_def split: prod.splits)
  then have "fst (retry_loop cfg f 0 (rc_initial_backoff cfg)) = Err e"
    by (auto simp: run_settle_def on_failure_def instant_add_def Let_def split: outcome.splits prod.splits if_splits)
  from retry_loop_Err [OF this] obtain i where "attempt_outcome cfg (f i) = Err e" by blast
  then show ?thesis by (cases "f i") (auto simp: attempt_outcome_def)
next
  case False
  then show ?thesis using assms by (auto simp: run_def run_admit_def split: prod.splits if_splits)
qed

text \<open>
  \<open>run\<close> never invents a result: a value it returns was returned by one of the first
  \<open>max(1, max_retries)\<close> calls of the closure, after the limiter and the breaker let it through.
\<close>

theorem run_Ok_from_call:
  assumes "fst (run cfg limiter_ok now f interfere now' cb) = Ok v"
  shows "limiter_ok \<and> fst (allow now cb) \<and> (\<exists>i < max_calls cfg. f i = Completed (Ok v))"
  by (rule run_Ok_lemma [OF assms])

theorem run_Ok_from_call_witness:
  "\<exists>i < 3. flaky i = Completed (Ok 42)"
proof -
  have "stops_at default_resilience flaky 2" by (simp add: flaky_stops)
  from retry_loop_stops [OF default_backoff_safe this]
  have "fst (run default_resilience True (Instant 0) flaky id (Instant 1) (cb_new 5 (from_secs 10))) =
      Ok 42"
    by (simp add: run_def run_admit_def run_settle_def allow_def cb_new_def flaky_def
        attempt_outcome_def)
  from run_Ok_from_call [OF this] show ?thesis by simp
qed

text \<open>
  C25: The breaker with its saturating eight-bit counter answers every sequence of questions,
  successes and failures as one that counts consecutive failures without a bound: the
  saturation is never visible, for no threshold.
\<close>

theorem breaker_refines_spec:
  "breaker_replies (cb_new th cd) es = spec_replies (unat th) cd \<lparr>bs_count = 0, bs_open = None\<rparr> es"
  by (rule breaker_sim_replies [OF breaker_sim_new])

text \<open>
  In every state a breaker with a positive threshold can reach, whatever the tasks report in
  whatever order, a breaker that is not open has counted fewer failures than the threshold.
\<close>

theorem breaker_reachable:
  assumes "0 < th" and "breaker_moves\<^sup>*\<^sup>* (cb_new th cd) cb"
  shows "cb_open_until cb = None \<Longrightarrow> cb_failures cb < cb_threshold cb"
  using breaker.reachable_inv [OF _ assms(2)] assms(1)
  by (auto simp: breaker_fresh_def breaker_inv_def)

theorem breaker_reachable_witness:
  "cb_failures (cb_new 5 (from_secs 10)\<lparr>cb_failures := 1\<rparr>) < (5 :: u8)"
proof -
  have "breaker_step (cb_new 5 (from_secs 10)) (Failed (Instant 7)) =
      (Noted (Ok ()), cb_new 5 (from_secs 10)\<lparr>cb_failures := 1\<rparr>)"
    by (simp add: on_failure_def cb_new_def Let_def saturating_add_def word_le_nat_alt)
  then have "breaker_moves (cb_new 5 (from_secs 10)) (cb_new 5 (from_secs 10)\<lparr>cb_failures := 1\<rparr>)"
    by (rule breaker_moves.move) simp
  then have steps: "breaker_moves\<^sup>*\<^sup>* (cb_new 5 (from_secs 10)) (cb_new 5 (from_secs 10)\<lparr>cb_failures := 1\<rparr>)"
    by simp
  have "(0 :: u8) < 5" by simp
  from breaker_reachable [OF this steps] show ?thesis by (simp add: cb_new_def)
qed

text \<open>
  C26: A fresh breaker admits calls until exactly \<open>threshold\<close> consecutive failures; from then on
  it refuses every call before the cooldown has passed, and the first call after it is admitted
  and finds the breaker as new.
\<close>

theorem breaker_cycle:
  assumes "length ts + 1 = unat th" and "since_origin t + as_nanos cd < instant_limit"
  shows "(\<forall>k \<le> length ts. fst (allow now (after_failures (cb_new th cd) (take k ts)))) \<and>
    (let cb = after_failures (cb_new th cd) (ts @ [t]) in
       if since_origin now < since_origin t + as_nanos cd then allow now cb = (False, cb)
       else allow now cb = (True, cb_new th cd))"
proof -
  have "0 < th" using assms(1) by (metis add_is_0 one_neq_zero unat_0 word_neq_0_conv)
  have "fst (allow now (after_failures (cb_new th cd) (take k ts)))" if "k \<le> length ts" for k
    using that assms(1) after_failures_closed [of "take k ts" th cd] by (simp add: allow_def)
  with after_failures_opens [OF \<open>0 < th\<close> assms] show ?thesis
    by (auto simp: allow_def cb_new_def Let_def)
qed

theorem breaker_cycle_witness:
  "allow (Instant 30) (after_failures (cb_new 2 (Duration 5)) [Instant 10, Instant 20]) =
     (True, cb_new 2 (Duration 5))"
  using breaker_cycle [of "[Instant 10]" 2 "Instant 20" "Duration 5" "Instant 30"]
  by (simp add: Let_def instant_limit_def nanos_per_sec_def)

end
