(* ===== verification/Scheduler.thy ===== *)
theory Scheduler
  imports Dag Hashing Resilience
begin

section \<open>The scheduler (scheduler.rs)\<close>

text \<open>
  \<open>Scheduler::run\<close> as a step relation. The state holds the local variables of the function
  (\<open>indeg\<close>, \<open>outputs\<close>, \<open>ready\<close>, the futures in flight), the events sent so far and what the
  function returned. One step is one round of the outer loop up to the first \<open>await\<close> (every ready
  node is dispatched), one completion of the inner loop (any future in flight may be the next
  one), or the tail of the function. What \<open>NodeActor::call\<close> may answer is the parameter \<open>R\<close>: a
  relation between the node, its context, its input and the reply. The function \<open>drive\<close> runs the
  same steps for a given order of completions. A panic inside a node ends the task of its actor,
  so \<open>call\<close> answers it with an error and never panics itself. The closure \<open>node_factory\<close> of the
  caller runs in the task of the run: it may panic for a node (\<open>Inl\<close>), and that ends the run.
\<close>

text \<open>The capacity is a number the caller chooses, a \<open>usize\<close> of a 64-bit target.\<close>

record scheduler_config =
  sc_resilience :: resilience_config
  sc_event_buffer :: u64

definition default_scheduler_config :: scheduler_config where
  "default_scheduler_config = \<lparr>sc_resilience = default_resilience, sc_event_buffer = 1024\<rparr>"

record ('a, 'n) sched =
  s_indeg :: "(node_id, usize) btree_map"
  s_outputs :: "(node_id, 'n json) btree_map"
  s_ready :: "node_id list"
  s_inflight :: "(node_id \<times> 'a \<times> 'n node_input) list"
  s_log :: "kernel_event list"
  s_status :: "string kernel_result option"

subsection \<open>Start\<close>

type_synonym ('p, 'a) node_closure = "node_id \<Rightarrow> 'p \<Rightarrow> panic + 'a"

fun spawn_from :: "('p, 'a) node_closure \<Rightarrow> (node_id \<times> 'p) list \<Rightarrow> (node_id, 'a) btree_map \<Rightarrow>
    (node_id, 'a) btree_map kernel_result" where
  "spawn_from mk [] actors = Ok actors"
| "spawn_from mk ((i, payload) # nodes) actors =
     (case mk i payload of
        Inl p \<Rightarrow> Panic p
      | Inr node \<Rightarrow> spawn_from mk nodes (bt_insert i node actors))"

definition spawn_actors :: "('p, 'a) node_closure \<Rightarrow> ('p, 'n) dag \<Rightarrow> (node_id, 'a) btree_map kernel_result" where
  "spawn_actors mk d = spawn_from mk (dag_nodes d) bt_new"

text \<open>
  What the closure made for a node when it returned, and the map of the actors when it returned
  for every node; after the start the run uses only these.
\<close>

definition made :: "('p, 'a) node_closure \<Rightarrow> node_id \<Rightarrow> 'p \<Rightarrow> 'a" where
  "made mk i payload = projr (mk i payload)"

definition actor_map :: "(node_id \<Rightarrow> 'p \<Rightarrow> 'a) \<Rightarrow> ('p, 'n) dag \<Rightarrow> (node_id, 'a) btree_map" where
  "actor_map factory d = bt_collect (map (\<lambda>(i, payload). (i, factory i payload)) (dag_nodes d))"

fun incr_indeg :: "'n edge list \<Rightarrow> (node_id, usize) btree_map \<Rightarrow>
    (node_id, usize) btree_map kernel_result" where
  "incr_indeg [] indeg = Ok indeg"
| "incr_indeg (e # es) indeg =
     and_then (unwrap (bt_get indeg (e_to e))) (\<lambda>n. incr_indeg es (bt_set (e_to e) (n + 1) indeg))"

definition stopped :: "string kernel_result \<Rightarrow> ('a, 'n) sched \<Rightarrow> ('a, 'n) sched" where
  "stopped r st = st\<lparr>s_status := Some r, s_inflight := []\<rparr>"

text \<open>A panic or an early return ends the function with the state reached.\<close>

definition continue :: "('a, 'n) sched \<Rightarrow> ('a, 'n) sched kernel_result \<Rightarrow> ('a, 'n) sched" where
  "continue st r =
     (case r of Ok st' \<Rightarrow> st' | Err e \<Rightarrow> stopped (Err e) st | Panic p \<Rightarrow> stopped (Panic p) st)"

text \<open>The state before the first round, when all actors have been spawned; then the whole start.\<close>

definition sched_init :: "('p, 'n) dag \<Rightarrow> ('a, 'n) sched" where
  "sched_init d =
     (let st = \<lparr>s_indeg = init_indeg d, s_outputs = bt_new, s_ready = [], s_inflight = [],
                s_log = [WorkflowStarted (dag_id d) (dag_name d)], s_status = None\<rparr>
      in continue st (and_then (incr_indeg (dag_edges d) (s_indeg st)) (\<lambda>indeg.
           Ok (st\<lparr>s_indeg := indeg, s_ready := zero_indeg indeg\<rparr>))))"

definition run_begin :: "('p, 'a) node_closure \<Rightarrow> ('p, 'n) dag \<Rightarrow> ('a, 'n) sched" where
  "run_begin mk d =
     (let st = \<lparr>s_indeg = bt_new, s_outputs = bt_new, s_ready = [], s_inflight = [],
                s_log = [WorkflowStarted (dag_id d) (dag_name d)], s_status = None\<rparr>
      in continue st (and_then (spawn_actors mk d) (\<lambda>actors. Ok (sched_init d))))"

subsection \<open>Dispatching the ready nodes\<close>

definition parent_values :: "('p, 'n) dag \<Rightarrow> (node_id, 'n json) btree_map \<Rightarrow> node_id \<Rightarrow>
    (node_id, 'n json) btree_map" where
  "parent_values d outputs nid =
     bt_collect (List.map_filter (\<lambda>e. map_option (\<lambda>v. (e_from e, v)) (bt_get outputs (e_from e)))
       (parents d nid))"

definition make_input :: "('p, 'n) dag \<Rightarrow> (node_id, 'n json) btree_map \<Rightarrow> node_id \<Rightarrow> 'n node_input" where
  "make_input d outputs nid =
     \<lparr>in_workflow_id = dag_id d, in_node_id = nid, in_payload = JNull,
      in_parents = parent_values d outputs nid\<rparr>"

fun dispatch_all :: "('p, 'n) dag \<Rightarrow> (node_id, 'a) btree_map \<Rightarrow> node_id list \<Rightarrow>
    ('a, 'n) sched \<Rightarrow> ('a, 'n) sched kernel_result" where
  "dispatch_all d actors [] st = Ok st"
| "dispatch_all d actors (nid # rest) st =
     (let input = make_input d (s_outputs st) nid in
      and_then (unwrap (bt_get actors nid)) (\<lambda>actor.
        dispatch_all d actors rest
          (st\<lparr>s_log := s_log st @ [NodeStarted (dag_id d) nid 1],
              s_inflight := s_inflight st @ [(nid, actor, input)]\<rparr>)))"

definition dispatch :: "('p, 'n) dag \<Rightarrow> (node_id \<Rightarrow> 'p \<Rightarrow> 'a) \<Rightarrow> ('a, 'n) sched \<Rightarrow> ('a, 'n) sched" where
  "dispatch d factory st =
     continue st (dispatch_all d (actor_map factory d) (s_ready st) (st\<lparr>s_ready := []\<rparr>))"

subsection \<open>One completion\<close>

fun unlock :: "'n ext \<Rightarrow> node_id \<Rightarrow> (node_id, 'n json) btree_map \<Rightarrow> 'n edge list \<Rightarrow>
    (node_id, usize) btree_map \<Rightarrow> node_id list \<Rightarrow>
    ((node_id, usize) btree_map \<times> node_id list) kernel_result" where
  "unlock x nid outputs [] indeg ready = Ok (indeg, ready)"
| "unlock x nid outputs (e # es) indeg ready =
     (let parent_out = (case bt_get outputs nid of Some v \<Rightarrow> v | None \<Rightarrow> JNull) in
      if \<not> evaluate x (e_condition e) parent_out then unlock x nid outputs es indeg ready
      else
        and_then (unwrap (bt_get indeg (e_to e))) (\<lambda>n.
        and_then (checked_dec n) (\<lambda>n'.
          unlock x nid outputs es (bt_set (e_to e) n' indeg)
            (if n' = 0 then ready @ [e_to e] else ready))))"

definition complete :: "'n ext \<Rightarrow> ('p, 'n) dag \<Rightarrow> node_id \<Rightarrow> 'n node_output \<Rightarrow>
    ('a, 'n) sched \<Rightarrow> ('a, 'n) sched kernel_result" where
  "complete x d nid out st =
     (let outcome = Success (hash_json x (out_value out)) (out_gas_used out);
          outputs = bt_insert nid (out_value out) (s_outputs st);
          st' = st\<lparr>s_log := s_log st @ [NodeCompleted (dag_id d) nid outcome], s_outputs := outputs\<rparr>
      in and_then (unlock x nid outputs (children d nid) (s_indeg st') (s_ready st'))
           (\<lambda>(indeg, ready). Ok (st'\<lparr>s_indeg := indeg, s_ready := ready\<rparr>)))"

definition settle :: "'n ext \<Rightarrow> ('p, 'n) dag \<Rightarrow> node_id \<Rightarrow> 'n node_output kernel_result \<Rightarrow>
    ('a, 'n) sched \<Rightarrow> ('a, 'n) sched" where
  "settle x d nid res st =
     (case res of
        Ok out \<Rightarrow> continue st (complete x d nid out st)
      | Err e \<Rightarrow> stopped (Err e)
          (st\<lparr>s_log := s_log st @ [WorkflowFailed (dag_id d) (error_to_string e)]\<rparr>)
      | Panic p \<Rightarrow> stopped (Panic p) st)"

subsection \<open>The tail of the function\<close>

definition finish :: "'n ext \<Rightarrow> ('p, 'n) dag \<Rightarrow> ('a, 'n) sched \<Rightarrow> ('a, 'n) sched" where
  "finish x d st =
     (if bt_len (s_outputs st) \<noteq> bt_len (dag_nodes d)
      then stopped (Err (InvalidInput ''not all nodes were reached'')) st
      else let attestation_hash = hash_json_map x (s_outputs st) in
        stopped (Ok attestation_hash)
          (st\<lparr>s_log := s_log st @ [WorkflowCompleted (dag_id d) attestation_hash]\<rparr>))"

subsection \<open>Executions\<close>

type_synonym ('a, 'n) call_rel =
  "'a \<Rightarrow> node_context \<Rightarrow> 'n node_input \<Rightarrow> 'n node_output kernel_result \<Rightarrow> bool"

inductive sched_step :: "'n ext \<Rightarrow> ('p, 'n) dag \<Rightarrow> (node_id \<Rightarrow> 'p \<Rightarrow> 'a) \<Rightarrow> ('a, 'n) call_rel \<Rightarrow>
    ('a, 'n) sched \<Rightarrow> ('a, 'n) sched \<Rightarrow> bool"
  for x d factory R where
  step_dispatch:
    "s_status st = None \<Longrightarrow> s_inflight st = [] \<Longrightarrow> s_ready st \<noteq> [] \<Longrightarrow>
     sched_step x d factory R st (dispatch d factory st)"
| step_settle:
    "s_status st = None \<Longrightarrow> s_inflight st = pre @ (nid, actor, input) # post \<Longrightarrow>
     R actor (default_context trace) input res \<Longrightarrow> no_panic res \<Longrightarrow>
     sched_step x d factory R st (settle x d nid res (st\<lparr>s_inflight := pre @ post\<rparr>))"
| step_finish:
    "s_status st = None \<Longrightarrow> s_inflight st = [] \<Longrightarrow> s_ready st = [] \<Longrightarrow>
     sched_step x d factory R st (finish x d st)"

inductive_cases sched_step_cases: "sched_step x d factory R st st'"

text \<open>
  The same steps as a function: \<open>call\<close> answers every call, \<open>pick\<close> chooses which future in flight
  completes next, \<open>n\<close> bounds the number of steps.
\<close>

fun drive :: "'n ext \<Rightarrow> ('p, 'n) dag \<Rightarrow> (node_id \<Rightarrow> 'p \<Rightarrow> 'a) \<Rightarrow>
    ('a \<Rightarrow> 'n node_input \<Rightarrow> 'n node_output kernel_result) \<Rightarrow> (nat \<Rightarrow> nat) \<Rightarrow> nat \<Rightarrow>
    ('a, 'n) sched \<Rightarrow> ('a, 'n) sched" where
  "drive x d factory call pick 0 st = st"
| "drive x d factory call pick (Suc n) st =
     (if s_status st \<noteq> None then st
      else drive x d factory call pick n
        (case s_inflight st of
           [] \<Rightarrow> (if s_ready st = [] then finish x d st else dispatch d factory st)
         | f # fs \<Rightarrow>
             (let i = pick n mod length (f # fs); (nid, actor, input) = (f # fs) ! i in
              settle x d nid (call actor input)
                (st\<lparr>s_inflight := take i (f # fs) @ drop (Suc i) (f # fs)\<rparr>))))"

subsection \<open>Counting at the start\<close>

definition node_ids :: "('p, 'n) dag \<Rightarrow> node_id set" where
  "node_ids d = dom (bt_get (dag_nodes d))"

definition targets_known :: "('p, 'n) dag \<Rightarrow> bool" where
  "targets_known d \<longleftrightarrow> (\<forall>e \<in> set (dag_edges d). bt_get (dag_nodes d) (e_to e) \<noteq> None)"

lemma targets_known_ids: "targets_known d \<longleftrightarrow> e_to ` set (dag_edges d) \<subseteq> node_ids d"
  by (auto simp: targets_known_def node_ids_def)

lemma incr_indeg_Ok:
  assumes "\<forall>e \<in> set es. bt_get indeg (e_to e) \<noteq> None"
  shows "\<exists>indeg'. incr_indeg es indeg = Ok indeg' \<and> bt_wf indeg' = bt_wf indeg \<and>
    (\<forall>v. bt_get indeg' v = map_option (\<lambda>n. n + in_count es v) (bt_get indeg v))"
  using assms
proof (induction es arbitrary: indeg)
  case Nil
  then show ?case by (simp add: option.map_ident)
next
  case (Cons e es)
  then obtain n where n: "bt_get indeg (e_to e) = Some n" by auto
  have "\<forall>e' \<in> set es. bt_get (bt_set (e_to e) (n + 1) indeg) (e_to e') \<noteq> None"
    using Cons.prems bt_get_set [OF n, of "n + 1"] by simp
  from Cons.IH [OF this] obtain indeg' where
    "incr_indeg es (bt_set (e_to e) (n + 1) indeg) = Ok indeg'" "bt_wf indeg' = bt_wf indeg"
    "\<forall>v. bt_get indeg' v = map_option (\<lambda>k. k + in_count es v) (bt_get (bt_set (e_to e) (n + 1) indeg) v)"
    by auto
  then show ?case using n bt_get_set [OF n, of "n + 1"] by auto
qed

lemma incr_indeg_Panic:
  "\<exists>e \<in> set es. bt_get indeg (e_to e) = None \<Longrightarrow> incr_indeg es indeg = Panic Unwrap_None"
proof (induction es arbitrary: indeg)
  case (Cons e es)
  show ?case
  proof (cases "bt_get indeg (e_to e)")
    case (Some n)
    with Cons.prems have "\<exists>f \<in> set es. bt_get (bt_set (e_to e) (n + 1) indeg) (e_to f) = None"
      by (auto simp: bt_get_set [OF Some]) (metis option.distinct(1))
    from Cons.IH [OF this] Some show ?thesis by simp
  qed simp
qed simp

subsection \<open>Edges that fired\<close>

definition fired :: "'n ext \<Rightarrow> (node_id, 'n json) btree_map \<Rightarrow> 'n edge \<Rightarrow> bool" where
  "fired x outs e = (case bt_get outs (e_from e) of None \<Rightarrow> False | Some v \<Rightarrow> evaluate x (e_condition e) v)"

definition pending :: "'n ext \<Rightarrow> ('p, 'n) dag \<Rightarrow> (node_id, 'n json) btree_map \<Rightarrow> 'n edge list" where
  "pending x d outs = filter (\<lambda>e. \<not> fired x outs e) (dag_edges d)"

definition newly_fired :: "'n ext \<Rightarrow> ('p, 'n) dag \<Rightarrow> node_id \<Rightarrow> 'n json \<Rightarrow> 'n edge list" where
  "newly_fired x d nid v = filter (\<lambda>e. evaluate x (e_condition e) v) (children d nid)"

lemma fired_insert:
  "fired x (bt_insert nid v outs) e =
     (if e_from e = nid then evaluate x (e_condition e) v else fired x outs e)"
  by (simp add: fired_def bt_get_insert)

lemma in_count_pending_insert:
  assumes "bt_get outs nid = None"
  shows "in_count (pending x d outs) u =
    in_count (newly_fired x d nid v) u + in_count (pending x d (bt_insert nid v outs)) u"
proof -
  have "\<not> fired x outs e" if "e_from e = nid" for e using that assms by (simp add: fired_def)
  then have "filter (fired x (bt_insert nid v outs)) (pending x d outs) = newly_fired x d nid v"
    and "filter (\<lambda>e. \<not> fired x (bt_insert nid v outs) e) (pending x d outs) = pending x d (bt_insert nid v outs)"
    by (auto simp: pending_def newly_fired_def children_def fired_insert intro!: filter_cong)
  then show ?thesis
    using in_count_filter_split [of "pending x d outs" u "fired x (bt_insert nid v outs)"] by simp
qed

lemma no_pending_iff:
  "in_count (pending x d outs) v = 0 \<longleftrightarrow> (\<forall>e \<in> set (parents d v). fired x outs e)"
  using in_count_pos [of "pending x d outs" v] by (auto simp: pending_def parents_def)

lemma fired_source: "fired x outs e \<Longrightarrow> bt_get outs (e_from e) \<noteq> None"
  by (auto simp: fired_def split: option.splits)

lemma unlock_relax:
  assumes "bt_get outputs nid = Some v"
  shows "unlock x nid outputs es indeg ready =
    relax (filter (\<lambda>e. evaluate x (e_condition e) v) es) indeg ready"
proof (induction es arbitrary: indeg ready)
  case (Cons e es)
  show ?case by (simp add: assms Cons.IH cong: and_then_cong)
qed simp

lemma make_input_cong:
  assumes "\<forall>e \<in> set (parents d nid). bt_get outs (e_from e) = bt_get outs' (e_from e)"
  shows "make_input d outs nid = make_input d outs' nid"
proof -
  have "List.map_filter (\<lambda>e. map_option (\<lambda>v. (e_from e, v)) (bt_get outs (e_from e))) es =
      List.map_filter (\<lambda>e. map_option (\<lambda>v. (e_from e, v)) (bt_get outs' (e_from e))) es"
    if "\<forall>e \<in> set es. bt_get outs (e_from e) = bt_get outs' (e_from e)" for es
    using that by (induction es) (auto simp: List.map_filter_simps split: option.split)
  from this [OF assms] show ?thesis by (simp add: make_input_def parent_values_def)
qed

subsection \<open>The actors\<close>

lemma bt_get_actor_map:
  assumes "bt_wf (dag_nodes d)"
  shows "bt_get (actor_map factory d) i = map_option (factory i) (bt_get (dag_nodes d) i)"
proof -
  have "map fst (map (\<lambda>(i, payload). (i, factory i payload)) (dag_nodes d)) = map fst (dag_nodes d)"
    by auto
  then have "bt_wf (map (\<lambda>(i, payload). (i, factory i payload)) (dag_nodes d))"
    using assms unfolding bt_wf_def by metis
  moreover have "bt_get (map (\<lambda>(i, payload). (i, factory i payload)) m) i =
      map_option (factory i) (bt_get m i)" for m
    by (induction m) auto
  ultimately show ?thesis by (simp add: actor_map_def bt_collect_wf_id)
qed

lemma spawn_from_find:
  "spawn_from mk nodes actors =
     (case List.find (\<lambda>(i, payload). isl (mk i payload)) nodes of
        Some (i, payload) \<Rightarrow> Panic (projl (mk i payload))
      | None \<Rightarrow> Ok (fold (\<lambda>(i, payload). bt_insert i (made mk i payload)) nodes actors))"
  by (induction nodes arbitrary: actors) (auto simp: made_def split: sum.split option.split)

text \<open>When the closure panics for no node, the actors are those of \<open>actor_map\<close>.\<close>

lemma spawn_actors_find:
  "spawn_actors mk d =
     (case List.find (\<lambda>(i, payload). isl (mk i payload)) (dag_nodes d) of
        Some (i, payload) \<Rightarrow> Panic (projl (mk i payload))
      | None \<Rightarrow> Ok (actor_map (made mk) d))"
  by (simp add: spawn_actors_def spawn_from_find actor_map_def bt_collect_def fold_map o_def
      case_prod_unfold cong: option.case_cong)

lemma run_begin_init:
  assumes "List.find (\<lambda>(i, payload). isl (mk i payload)) (dag_nodes d) = None"
  shows "run_begin mk d = sched_init d"
  by (simp add: run_begin_def spawn_actors_find assms continue_def Let_def)

lemma run_begin_panic:
  assumes "List.find (\<lambda>(i, payload). isl (mk i payload)) (dag_nodes d) = Some (i, payload)"
  shows "s_status (run_begin mk d) = Some (Panic (projl (mk i payload)))"
    and "s_log (run_begin mk d) = [WorkflowStarted (dag_id d) (dag_name d)]"
  by (simp_all add: run_begin_def spawn_actors_find assms continue_def stopped_def Let_def)

definition flight :: "('p, 'n) dag \<Rightarrow> (node_id \<Rightarrow> 'p \<Rightarrow> 'a) \<Rightarrow> (node_id, 'n json) btree_map \<Rightarrow>
    node_id \<Rightarrow> node_id \<times> 'a \<times> 'n node_input" where
  "flight d factory outs i = (i, factory i (the (bt_get (dag_nodes d) i)), make_input d outs i)"

lemma dispatch_all_Ok:
  assumes "bt_wf (dag_nodes d)" and "set rest \<subseteq> node_ids d"
  shows "dispatch_all d (actor_map factory d) rest st =
    Ok (st\<lparr>s_log := s_log st @ map (\<lambda>i. NodeStarted (dag_id d) i 1) rest,
           s_inflight := s_inflight st @ map (flight d factory (s_outputs st)) rest\<rparr>)"
  using assms(2)
proof (induction rest arbitrary: st)
  case (Cons i rest)
  then obtain q where "bt_get (dag_nodes d) i = Some q" by (auto simp: node_ids_def)
  then have "bt_get (actor_map factory d) i = Some (factory i (the (bt_get (dag_nodes d) i)))"
    by (simp add: bt_get_actor_map [OF assms(1)])
  with Cons show ?case by (simp add: flight_def Let_def)
qed simp

subsection \<open>The invariant of the loops\<close>

text \<open>
  Every counter holds the number of edges into its node that have not fired. The nodes without
  such an edge are, without repetition, in flight, ready, or completed; what is in flight was
  built from the outputs of its parents.
\<close>

definition active :: "('a, 'n) sched \<Rightarrow> node_id list" where
  "active st = map fst (s_inflight st) @ s_ready st"

definition reached :: "'n ext \<Rightarrow> ('p, 'n) dag \<Rightarrow> (node_id, 'n json) btree_map \<Rightarrow> node_id set" where
  "reached x d outs = {v \<in> node_ids d. \<forall>e \<in> set (parents d v). fired x outs e}"

definition sched_core :: "'n ext \<Rightarrow> ('p, 'n) dag \<Rightarrow> (node_id \<Rightarrow> 'p \<Rightarrow> 'a) \<Rightarrow> ('a, 'n) sched \<Rightarrow> bool" where
  "sched_core x d factory st \<longleftrightarrow>
     bt_wf (s_outputs st) \<and>
     (\<forall>v. bt_get (s_indeg st) v =
        (if v \<in> node_ids d then Some (in_count (pending x d (s_outputs st)) v) else None)) \<and>
     distinct (active st) \<and>
     set (active st) \<inter> dom (bt_get (s_outputs st)) = {} \<and>
     set (active st) \<union> dom (bt_get (s_outputs st)) = reached x d (s_outputs st) \<and>
     (\<forall>f \<in> set (s_inflight st). f = flight d factory (s_outputs st) (fst f))"

lemma sched_core_init:
  assumes "targets_known d"
  obtains indeg where "bt_wf indeg"
    and "\<And>v. bt_get indeg v = (if v \<in> node_ids d then Some (in_count (dag_edges d) v) else None)"
    and "sched_init d =
      \<lparr>s_indeg = indeg, s_outputs = bt_new, s_ready = zero_indeg indeg, s_inflight = [],
       s_log = [WorkflowStarted (dag_id d) (dag_name d)], s_status = None\<rparr>"
    and "sched_core x d factory (sched_init d)"
proof -
  have "\<forall>e \<in> set (dag_edges d). bt_get (init_indeg d) (e_to e) \<noteq> None"
    using assms by (auto simp: bt_get_init_indeg targets_known_def)
  from incr_indeg_Ok [OF this] obtain indeg where
    eq: "incr_indeg (dag_edges d) (init_indeg d) = Ok indeg" and wf: "bt_wf indeg"
    and "\<forall>v. bt_get indeg v = map_option (\<lambda>n. n + in_count (dag_edges d) v) (bt_get (init_indeg d) v)"
    by auto
  then have get: "bt_get indeg v = (if v \<in> node_ids d then Some (in_count (dag_edges d) v) else None)" for v
    by (auto simp: bt_get_init_indeg node_ids_def)
  have init: "sched_init d =
      \<lparr>s_indeg = indeg, s_outputs = bt_new, s_ready = zero_indeg indeg, s_inflight = [],
       s_log = [WorkflowStarted (dag_id d) (dag_name d)], s_status = None\<rparr>"
    by (simp add: sched_init_def Let_def eq continue_def)
  have pend: "pending x d bt_new = dag_edges d"
    by (auto simp: pending_def fired_def bt_new_def intro!: filter_True)
  have "set (zero_indeg indeg) = reached x d bt_new"
    using no_pending_iff [of x d bt_new]
    by (auto simp: zero_indeg_props [OF wf] get reached_def pend split: if_splits)
  then have "sched_core x d factory (sched_init d)"
    using get zero_indeg_props(1) [OF wf]
    by (simp add: sched_core_def init active_def pend bt.get_empty)
  with wf get init show thesis by (rule that)
qed

lemma sched_core_dispatch:
  assumes core: "sched_core x d factory st" and wf: "bt_wf (dag_nodes d)"
    and idle: "s_inflight st = []"
  shows "dispatch d factory st =
      st\<lparr>s_ready := [],
         s_log := s_log st @ map (\<lambda>i. NodeStarted (dag_id d) i 1) (s_ready st),
         s_inflight := map (flight d factory (s_outputs st)) (s_ready st)\<rparr>"
    and "sched_core x d factory (dispatch d factory st)"
proof -
  have "set (s_ready st) \<subseteq> node_ids d"
    using core by (auto simp: sched_core_def active_def reached_def)
  then show eq: "dispatch d factory st =
      st\<lparr>s_ready := [],
         s_log := s_log st @ map (\<lambda>i. NodeStarted (dag_id d) i 1) (s_ready st),
         s_inflight := map (flight d factory (s_outputs st)) (s_ready st)\<rparr>"
    by (simp add: dispatch_def dispatch_all_Ok [OF wf] continue_def idle)
  show "sched_core x d factory (dispatch d factory st)"
    using core by (simp add: sched_core_def eq active_def idle flight_def comp_def)
qed

lemma reached_insert:
  assumes "bt_get outs nid = None"
  shows "reached x d outs \<subseteq> reached x d (bt_insert nid v outs)"
  using assms fired_source by (fastforce simp: reached_def fired_insert)

lemma flight_insert:
  assumes "bt_get outs nid = None" and "i \<in> reached x d outs"
  shows "flight d factory (bt_insert nid v outs) i = flight d factory outs i"
proof -
  have "e_from e \<noteq> nid" if "e \<in> set (parents d i)" for e
    using assms that by (auto simp: reached_def dest: fired_source)
  then have "make_input d (bt_insert nid v outs) i = make_input d outs i"
    by (intro make_input_cong) (simp add: bt_get_insert)
  then show ?thesis by (simp add: flight_def)
qed

lemma sched_core_complete:
  fixes x :: "'n ext" and out :: "'n node_output"
  assumes core: "sched_core x d factory st" and known: "targets_known d"
    and flight: "s_inflight st = pre @ (nid, actor, input) # post"
  defines "outs \<equiv> bt_insert nid (out_value out) (s_outputs st)"
  obtains st' where "complete x d nid out (st\<lparr>s_inflight := pre @ post\<rparr>) = Ok st'"
    and "sched_core x d factory st'"
    and "s_outputs st' = outs" and "s_inflight st' = pre @ post" and "s_status st' = s_status st"
    and "s_log st' = s_log st @ [NodeCompleted (dag_id d) nid
      (Success (hash_json x (out_value out)) (out_gas_used out))]"
    and "bt_total (s_indeg st') + length (s_ready st') \<le> bt_total (s_indeg st) + length (s_ready st)"
proof -
  let ?old = "s_outputs st" and ?fs = "newly_fired x d nid (out_value out)"
  have wf: "bt_wf ?old"
    and get: "\<And>v. bt_get (s_indeg st) v = (if v \<in> node_ids d then Some (in_count (pending x d ?old) v) else None)"
    and dist: "distinct (active st)" and disj: "set (active st) \<inter> dom (bt_get ?old) = {}"
    and union: "set (active st) \<union> dom (bt_get ?old) = reached x d ?old"
    and built: "\<forall>f \<in> set (s_inflight st). f = flight d factory ?old (fst f)"
    using core by (simp_all add: sched_core_def)
  have new: "bt_get ?old nid = None" using disj by (auto simp: active_def flight)
  have cnt: "in_count (pending x d ?old) v = in_count ?fs v + in_count (pending x d outs) v" for v
    unfolding outs_def by (rule in_count_pending_insert [OF new])
  have "\<forall>e \<in> set ?fs. \<exists>n. bt_get (s_indeg st) (e_to e) = Some n \<and> in_count ?fs (e_to e) \<le> n"
    using known by (auto simp: newly_fired_def children_def targets_known_ids get cnt)
  from relax_spec [OF this] obtain indeg ps
    where r: "relax ?fs (s_indeg st) (s_ready st) = Ok (indeg, s_ready st @ ps)"
      and eff: "relax_effect ?fs (s_indeg st) indeg ps" by blast
  have get': "bt_get indeg v = (if v \<in> node_ids d then Some (in_count (pending x d outs) v) else None)" for v
    using eff by (simp add: relax_effect_def get cnt)
  have zero: "v \<in> reached x d w \<longleftrightarrow> v \<in> node_ids d \<and> in_count (pending x d w) v = 0" for v w
    by (simp add: reached_def no_pending_iff)
  have ps: "distinct ps" "v \<in> set ps \<longleftrightarrow> v \<in> reached x d outs - reached x d ?old" for v
    using eff in_count_pos [of ?fs v] unfolding relax_effect_def
    by (auto simp: get cnt zero split: if_splits)
  let ?st' = "st\<lparr>s_inflight := pre @ post, s_indeg := indeg, s_outputs := outs, s_ready := s_ready st @ ps,
    s_log := s_log st @ [NodeCompleted (dag_id d) nid
      (Success (hash_json x (out_value out)) (out_gas_used out))]\<rparr>"
  have "unlock x nid outs (children d nid) (s_indeg st) (s_ready st) = Ok (indeg, s_ready st @ ps)"
    using r unlock_relax [of outs nid "out_value out"] by (simp add: outs_def bt_get_insert newly_fired_def)
  then have ok: "complete x d nid out (st\<lparr>s_inflight := pre @ post\<rparr>) = Ok ?st'"
    by (simp add: complete_def Let_def outs_def)
  have sub: "reached x d ?old \<subseteq> reached x d outs"
    unfolding outs_def by (rule reached_insert [OF new])
  define others where "others = fst ` set (pre @ post) \<union> set (s_ready st)"
  have act: "set (active st) = insert nid others" "nid \<notin> others"
    "set (active ?st') = others \<union> set ps" "distinct (active ?st')"
    using dist disj union ps by (auto simp: active_def flight others_def)
  have "\<forall>f \<in> set (pre @ post). f = flight d factory outs (fst f)"
  proof
    fix f
    assume f: "f \<in> set (pre @ post)"
    then have "fst f \<in> reached x d ?old" using union by (auto simp: active_def flight)
    then have "flight d factory outs (fst f) = flight d factory ?old (fst f)"
      unfolding outs_def by (rule flight_insert [OF new])
    moreover have "f = flight d factory ?old (fst f)" using f built by (simp only: flight) auto
    ultimately show "f = flight d factory outs (fst f)" by (rule trans [rotated, OF sym])
  qed
  moreover have "set (active ?st') \<inter> dom (bt_get outs) = {}"
    using act(1,2) disj ps union unfolding act(3) unfolding outs_def bt_get_insert by auto
  moreover have "set (active ?st') \<union> dom (bt_get outs) = reached x d outs"
  proof -
    have "set (active ?st') \<union> dom (bt_get outs) = reached x d ?old \<union> set ps"
      using act(1) union unfolding act(3) unfolding outs_def bt_get_insert by auto
    then show ?thesis using ps sub by auto
  qed
  ultimately have "sched_core x d factory ?st'"
    using get' wf act(4) by (simp add: sched_core_def outs_def bt_wf_insert)
  from ok this show thesis by (rule that) (simp_all add: relax_rank [OF r, simplified])
qed

subsection \<open>The event log\<close>

fun started_id :: "kernel_event \<Rightarrow> node_id option" where
  "started_id (NodeStarted w v a) = Some v"
| "started_id _ = None"

fun completed_id :: "kernel_event \<Rightarrow> node_id option" where
  "completed_id (NodeCompleted w v r) = Some v"
| "completed_id _ = None"

definition started_ids :: "kernel_event list \<Rightarrow> node_id list" where
  "started_ids evs = List.map_filter started_id evs"

definition completed_ids :: "kernel_event list \<Rightarrow> node_id list" where
  "completed_ids evs = List.map_filter completed_id evs"

lemma map_filter_append [simp]:
  "List.map_filter f (xs @ ys) = List.map_filter f xs @ List.map_filter f ys"
  by (induction xs) (auto simp: List.map_filter_simps split: option.split)

lemma ids_append [simp]:
  "started_ids (xs @ ys) = started_ids xs @ started_ids ys"
  "completed_ids (xs @ ys) = completed_ids xs @ completed_ids ys"
  "started_ids [] = []" "completed_ids [] = []"
  "started_ids [ev] = (case started_id ev of None \<Rightarrow> [] | Some v \<Rightarrow> [v])"
  "completed_ids [ev] = (case completed_id ev of None \<Rightarrow> [] | Some v \<Rightarrow> [v])"
  "started_ids (map (\<lambda>i. NodeStarted w i a) vs) = vs"
  "completed_ids (map (\<lambda>i. NodeStarted w i a) vs) = []"
proof -
  show "started_ids (map (\<lambda>i. NodeStarted w i a) vs) = vs"
    and "completed_ids (map (\<lambda>i. NodeStarted w i a) vs) = []"
    by (induction vs) (simp_all add: started_ids_def completed_ids_def List.map_filter_simps)
qed (simp_all add: started_ids_def completed_ids_def List.map_filter_simps split: option.split)

text \<open>
  The completion of the source of an edge was reported, with a value that satisfies the condition
  of the edge, before the start of its target.
\<close>

definition fired_before :: "'n ext \<Rightarrow> ('p, 'n) dag \<Rightarrow> ('a, 'n) sched \<Rightarrow> 'n edge \<Rightarrow> node_id \<Rightarrow> bool" where
  "fired_before x d st e v \<longleftrightarrow>
     (\<exists>w gas. bt_get (s_outputs st) (e_from e) = Some w \<and> evaluate x (e_condition e) w \<and>
        before (s_log st) (NodeCompleted (dag_id d) (e_from e) (Success (hash_json x w) gas))
          (NodeStarted (dag_id d) v 1))"

definition log_ok :: "'n ext \<Rightarrow> ('p, 'n) dag \<Rightarrow> ('a, 'n) sched \<Rightarrow> bool" where
  "log_ok x d st \<longleftrightarrow>
     distinct (started_ids (s_log st)) \<and> distinct (completed_ids (s_log st)) \<and>
     set (completed_ids (s_log st)) = dom (bt_get (s_outputs st)) \<and>
     fst ` set (s_inflight st) \<union> dom (bt_get (s_outputs st)) \<subseteq> set (started_ids (s_log st)) \<and>
     (s_status st = None \<longrightarrow>
       set (started_ids (s_log st)) \<subseteq> fst ` set (s_inflight st) \<union> dom (bt_get (s_outputs st))) \<and>
     (\<forall>v w. bt_get (s_outputs st) v = Some w \<longrightarrow>
       (\<exists>gas. NodeCompleted (dag_id d) v (Success (hash_json x w) gas) \<in> set (s_log st))) \<and>
     (\<forall>v \<in> set (started_ids (s_log st)). \<forall>e \<in> set (parents d v). fired_before x d st e v)"

lemma log_ok_quiet:
  assumes "log_ok x d st" and "s_log st' = s_log st @ [ev]"
    and "started_id ev = None" and "completed_id ev = None"
    and "s_outputs st' = s_outputs st" and "s_inflight st' = []" and "s_status st' \<noteq> None"
  shows "log_ok x d st'"
  using assms by (force simp: log_ok_def fired_before_def)

lemma log_ok_dispatch:
  assumes log: "log_ok x d st" and core: "sched_core x d factory st" and run: "s_status st = None"
    and wf: "bt_wf (dag_nodes d)" and idle: "s_inflight st = []"
  shows "log_ok x d (dispatch d factory st)"
proof -
  let ?st = "dispatch d factory st"
  note eq = sched_core_dispatch(1) [OF core wf idle]
  have started: "set (started_ids (s_log st)) = dom (bt_get (s_outputs st))"
    using log run idle by (auto simp: log_ok_def)
  have rdy: "distinct (s_ready st)" "set (s_ready st) \<inter> dom (bt_get (s_outputs st)) = {}"
    "set (s_ready st) \<subseteq> reached x d (s_outputs st)"
    using core by (auto simp: sched_core_def active_def idle)
  have new: "fired_before x d ?st e v" if v: "v \<in> set (s_ready st)" and e: "e \<in> set (parents d v)" for v e
  proof -
    have "fired x (s_outputs st) e" using v e rdy(3) by (auto simp: reached_def)
    then obtain w where w: "bt_get (s_outputs st) (e_from e) = Some w" "evaluate x (e_condition e) w"
      by (auto simp: fired_def split: option.splits)
    then obtain gas where
      "NodeCompleted (dag_id d) (e_from e) (Success (hash_json x w) gas) \<in> set (s_log st)"
      using log unfolding log_ok_def by blast
    moreover have "NodeStarted (dag_id d) v 1 \<in> set (map (\<lambda>i. NodeStarted (dag_id d) i 1) (s_ready st))"
      using v by simp
    ultimately show ?thesis
      unfolding fired_before_def eq using w before_append_right by fastforce
  qed
  have old: "fired_before x d ?st e v"
    if "v \<in> set (started_ids (s_log st))" "e \<in> set (parents d v)" for v e
    using log that unfolding log_ok_def fired_before_def eq by fastforce
  have ids: "started_ids (s_log ?st) = started_ids (s_log st) @ s_ready st"
    "completed_ids (s_log ?st) = completed_ids (s_log st)"
    "fst ` set (s_inflight ?st) = set (s_ready st)" "s_outputs ?st = s_outputs st"
    by (simp_all add: eq flight_def image_image)
  have "\<forall>v \<in> set (started_ids (s_log ?st)). \<forall>e \<in> set (parents d v). fired_before x d ?st e v"
    unfolding ids using new old by auto
  moreover have "\<exists>gas. NodeCompleted (dag_id d) v (Success (hash_json x w) gas) \<in> set (s_log ?st)"
    if "bt_get (s_outputs st) v = Some w" for v w
    using log that unfolding log_ok_def eq by fastforce
  ultimately show ?thesis
    using log started rdy(1,2) ids unfolding log_ok_def by auto
qed

lemma log_ok_complete:
  assumes log: "log_ok x d st" and core: "sched_core x d factory st" and run: "s_status st = None"
    and flight: "s_inflight st = pre @ (nid, actor, input) # post"
    and eqs: "s_outputs st' = bt_insert nid (out_value out) (s_outputs st)"
      "s_inflight st' = pre @ post" "s_status st' = s_status st"
      "s_log st' = s_log st @ [NodeCompleted (dag_id d) nid
        (Success (hash_json x (out_value out)) (out_gas_used out))]"
  shows "log_ok x d st'"
proof -
  have new: "bt_get (s_outputs st) nid = None"
    using core by (auto simp: sched_core_def active_def flight)
  have "fired_before x d st' e v"
    if "v \<in> set (started_ids (s_log st))" "e \<in> set (parents d v)" for v e
  proof -
    from log that have "fired_before x d st e v" by (simp add: log_ok_def)
    then show ?thesis
      using new unfolding fired_before_def eqs bt_get_insert by (metis before_append fun_upd_other option.distinct(1))
  qed
  moreover have "\<exists>gas. NodeCompleted (dag_id d) v (Success (hash_json x w) gas) \<in> set (s_log st')"
    if "bt_get (s_outputs st') v = Some w" for v w
    using log that unfolding log_ok_def eqs bt_get_insert by (cases "v = nid") auto
  ultimately show ?thesis
    using log new run unfolding log_ok_def
    by (simp add: eqs bt_get_insert flight) blast
qed

subsection \<open>Every step keeps the invariant and lowers the rank\<close>

text \<open>Every output is what a call of its node answered to the input built from the outputs.\<close>

definition answered :: "('p, 'n) dag \<Rightarrow> (node_id \<Rightarrow> 'p \<Rightarrow> 'a) \<Rightarrow> ('a, 'n) call_rel \<Rightarrow>
    (node_id, 'n json) btree_map \<Rightarrow> node_id \<Rightarrow> 'n node_output kernel_result \<Rightarrow> bool" where
  "answered d factory R outs v res \<longleftrightarrow>
     (\<exists>trace. R (factory v (the (bt_get (dag_nodes d) v))) (default_context trace)
        (make_input d outs v) res)"

definition provenance :: "('p, 'n) dag \<Rightarrow> (node_id \<Rightarrow> 'p \<Rightarrow> 'a) \<Rightarrow> ('a, 'n) call_rel \<Rightarrow>
    (node_id, 'n json) btree_map \<Rightarrow> bool" where
  "provenance d factory R outs \<longleftrightarrow>
     (\<forall>v w. bt_get outs v = Some w \<longrightarrow>
        (\<exists>gas. answered d factory R outs v (Ok \<lparr>out_value = w, out_gas_used = gas\<rparr>)))"

text \<open>The events that tell that a workflow has ended.\<close>

fun is_final :: "kernel_event \<Rightarrow> bool" where
  "is_final (WorkflowCompleted w h) = True"
| "is_final (WorkflowFailed w r) = True"
| "is_final _ = False"

definition not_reached :: kernel_error where
  "not_reached = InvalidInput ''not all nodes were reached''"

fun result_ok :: "'n ext \<Rightarrow> ('p, 'n) dag \<Rightarrow> (node_id \<Rightarrow> 'p \<Rightarrow> 'a) \<Rightarrow> ('a, 'n) call_rel \<Rightarrow>
    (node_id, 'n json) btree_map \<Rightarrow> kernel_event list \<Rightarrow> string kernel_result \<Rightarrow> bool" where
  "result_ok x d factory R outs evs (Ok h) =
     (dom (bt_get outs) = node_ids d \<and> dom (bt_get outs) = reached x d outs \<and>
      h = hash_json_map x outs \<and> filter is_final evs = [WorkflowCompleted (dag_id d) h] \<and>
      last evs = WorkflowCompleted (dag_id d) h)"
| "result_ok x d factory R outs evs (Err e) =
     ((e = not_reached \<and> dom (bt_get outs) = reached x d outs \<and> dom (bt_get outs) \<noteq> node_ids d \<and>
        set (started_ids evs) = dom (bt_get outs) \<and> filter is_final evs = []) \<or>
      (\<exists>v \<in> reached x d outs - dom (bt_get outs). answered d factory R outs v (Err e) \<and>
         filter is_final evs = [WorkflowFailed (dag_id d) (error_to_string e)] \<and>
         last evs = WorkflowFailed (dag_id d) (error_to_string e)))"
| "result_ok x d factory R outs evs (Panic p) = False"

definition sched_inv :: "'n ext \<Rightarrow> ('p, 'n) dag \<Rightarrow> (node_id \<Rightarrow> 'p \<Rightarrow> 'a) \<Rightarrow> ('a, 'n) call_rel \<Rightarrow>
    ('a, 'n) sched \<Rightarrow> bool" where
  "sched_inv x d factory R st \<longleftrightarrow>
     targets_known d \<and> bt_wf (dag_nodes d) \<and>
     log_ok x d st \<and> provenance d factory R (s_outputs st) \<and> bt_wf (s_outputs st) \<and>
     dom (bt_get (s_outputs st)) \<subseteq> reached x d (s_outputs st) \<and>
     (case s_status st of
        None \<Rightarrow> sched_core x d factory st \<and> filter is_final (s_log st) = []
      | Some r \<Rightarrow> result_ok x d factory R (s_outputs st) (s_log st) r)"

definition sched_start :: "('p, 'n) dag \<Rightarrow> ('a, 'n) sched \<Rightarrow> bool" where
  "sched_start d st \<longleftrightarrow> targets_known d \<and> bt_wf (dag_nodes d) \<and> st = sched_init d"

definition sched_rank :: "('a, 'n) sched \<Rightarrow> nat" where
  "sched_rank st = (if s_status st = None
     then Suc (2 * (bt_total (s_indeg st) + length (s_ready st)) + length (s_inflight st)) else 0)"

lemma sched_inv_init:
  assumes "sched_start d st"
  shows "sched_inv x d factory R st"
proof -
  have start: "targets_known d" "bt_wf (dag_nodes d)" "st = sched_init d"
    using assms by (simp_all add: sched_start_def)
  obtain indeg where "st =
      \<lparr>s_indeg = indeg, s_outputs = bt_new, s_ready = zero_indeg indeg, s_inflight = [],
       s_log = [WorkflowStarted (dag_id d) (dag_name d)], s_status = None\<rparr>"
    and "sched_core x d factory st"
    unfolding start(3) by (rule sched_core_init [OF start(1)])
  then have "s_outputs st = bt_new" "s_inflight st = []" "s_status st = None"
    "s_log st = [WorkflowStarted (dag_id d) (dag_name d)]" "sched_core x d factory st"
    by simp_all
  with start(1,2) show ?thesis
    by (simp add: sched_inv_def log_ok_def provenance_def bt.get_empty)
qed

lemma provenance_complete:
  assumes prov: "provenance d factory R outs" and dom: "dom (bt_get outs) \<subseteq> reached x d outs"
    and new: "bt_get outs nid = None" and nid: "nid \<in> reached x d outs"
    and ans: "answered d factory R outs nid (Ok out)"
  shows "provenance d factory R (bt_insert nid (out_value out) outs)"
proof -
  have same: "answered d factory R (bt_insert nid (out_value out) outs) v = answered d factory R outs v"
    if "v \<in> reached x d outs" for v
    using flight_insert [OF new that, of factory "out_value out"]
    by (simp add: flight_def answered_def fun_eq_iff)
  have "out = \<lparr>out_value = out_value out, out_gas_used = out_gas_used out\<rparr>" by simp
  then have "\<exists>gas. answered d factory R outs nid (Ok \<lparr>out_value = out_value out, out_gas_used = gas\<rparr>)"
    using ans by metis
  then show ?thesis
    using prov dom nid unfolding provenance_def bt_get_insert by (auto simp: same)
qed

lemma sched_inv_step:
  assumes inv: "sched_inv x d factory R st" and step: "sched_step x d factory R st st'"
  shows "sched_inv x d factory R st' \<and> sched_rank st' < sched_rank st"
  using step
proof (cases rule: sched_step_cases [consumes 1])
  case 1
  have base: "bt_wf (dag_nodes d)" "sched_core x d factory st" "log_ok x d st"
    using inv 1(2) by (simp_all add: sched_inv_def)
  note eq = sched_core_dispatch(1) [OF base(2,1) 1(3)]
  have "sched_core x d factory st'" "log_ok x d st'"
    using sched_core_dispatch(2) [OF base(2,1) 1(3)] log_ok_dispatch [OF base(3,2) 1(2) base(1) 1(3)]
    by (simp_all add: 1(1))
  moreover have "filter is_final (map (\<lambda>i. NodeStarted (dag_id d) i 1) (s_ready st)) = []"
    by (auto simp: filter_empty_conv)
  ultimately show ?thesis
    using inv 1(2,3,4) by (auto simp: sched_inv_def 1(1) eq sched_rank_def)
next
  case (2 pre nid actor input post trace res)
  have base: "targets_known d" "sched_core x d factory st" "log_ok x d st"
    "provenance d factory R (s_outputs st)" "dom (bt_get (s_outputs st)) \<subseteq> reached x d (s_outputs st)"
    using inv 2(2) by (simp_all add: sched_inv_def)
  have nid: "bt_get (s_outputs st) nid = None" "nid \<in> reached x d (s_outputs st)"
    using base(2) by (auto simp: sched_core_def active_def 2(3))
  have "(nid, actor, input) = flight d factory (s_outputs st) nid"
    using base(2) by (simp add: sched_core_def 2(3))
  then have ans: "answered d factory R (s_outputs st) nid res"
    using 2(4) by (auto simp: answered_def flight_def)
  show ?thesis
  proof (cases res)
    case (Ok out)
    obtain st2 where ok: "complete x d nid out (st\<lparr>s_inflight := pre @ post\<rparr>) = Ok st2"
      and core: "sched_core x d factory st2"
      and eqs: "s_outputs st2 = bt_insert nid (out_value out) (s_outputs st)"
        "s_inflight st2 = pre @ post" "s_status st2 = s_status st"
        "s_log st2 = s_log st @ [NodeCompleted (dag_id d) nid
          (Success (hash_json x (out_value out)) (out_gas_used out))]"
      and rank: "bt_total (s_indeg st2) + length (s_ready st2) \<le>
        bt_total (s_indeg st) + length (s_ready st)"
      by (rule sched_core_complete [OF base(2,1) 2(3)])
    have st': "st' = st2" using ok by (simp add: 2(1) Ok settle_def continue_def)
    have "log_ok x d st2" by (rule log_ok_complete [OF base(3,2) 2(2,3) eqs])
    moreover have "provenance d factory R (s_outputs st2)"
      unfolding eqs using ans Ok by (intro provenance_complete [OF base(4,5) nid]) simp
    moreover have "dom (bt_get (s_outputs st2)) \<subseteq> reached x d (s_outputs st2)" "bt_wf (s_outputs st2)"
      using core unfolding sched_core_def by blast+
    ultimately show ?thesis
      using inv core 2(2) rank by (simp add: sched_inv_def st' eqs sched_rank_def 2(3))
  next
    case (Err e)
    let ?ev = "WorkflowFailed (dag_id d) (error_to_string e)"
    have st': "st' = st\<lparr>s_inflight := [], s_log := s_log st @ [?ev], s_status := Some (Err e)\<rparr>"
      by (simp add: 2(1) Err settle_def stopped_def)
    have "log_ok x d st'"
      by (rule log_ok_quiet [OF base(3), of _ ?ev]) (simp_all add: st')
    moreover have "result_ok x d factory R (s_outputs st) (s_log st @ [?ev]) (Err e)"
      using nid ans Err inv 2(2) by (auto simp: sched_inv_def)
    ultimately show ?thesis
      using inv 2(2) by (simp add: sched_inv_def st' sched_rank_def del: result_ok.simps)
  next
    case (Panic p)
    with 2(5) show ?thesis by simp
  qed
next
  case 3
  have base: "bt_wf (dag_nodes d)" "sched_core x d factory st" "log_ok x d st" "bt_wf (s_outputs st)"
    using inv 3(2) by (simp_all add: sched_inv_def)
  have dom: "dom (bt_get (s_outputs st)) = reached x d (s_outputs st)"
    using base(2) by (simp add: sched_core_def active_def 3(3,4))
  then have sub: "dom (bt_get (s_outputs st)) \<subseteq> node_ids d" by (auto simp: reached_def)
  have all: "bt_len (s_outputs st) = bt_len (dag_nodes d) \<longleftrightarrow> dom (bt_get (s_outputs st)) = node_ids d"
    using sub bt_len_card [OF base(1)] bt_len_card [OF base(4)]
    by (metis node_ids_def bt_get_map_of card_subset_eq finite_dom_map_of)
  have "log_ok x d st'"
  proof (cases "bt_len (s_outputs st) = bt_len (dag_nodes d)")
    case True
    then show ?thesis
      using base(3) 3(3)
      by (intro log_ok_quiet [OF base(3), of _ "WorkflowCompleted (dag_id d) (hash_json_map x (s_outputs st))"])
        (simp_all add: 3(1) finish_def stopped_def Let_def)
  next
    case False
    then show ?thesis using base(3) 3(3) by (simp add: 3(1) finish_def stopped_def log_ok_def fired_before_def)
  qed
  moreover have "set (started_ids (s_log st)) = dom (bt_get (s_outputs st))"
    using base(3) 3(2,3) by (auto simp: log_ok_def)
  ultimately show ?thesis
    using inv 3(2) dom all
    by (auto simp: sched_inv_def 3(1) finish_def stopped_def Let_def sched_rank_def not_reached_def)
qed

interpretation sched: ranked_steps "sched_start d" "sched_step x d factory R"
  "sched_inv x d factory R" sched_rank
  for x :: "'n ext" and d :: "('p, 'n) dag" and factory :: "node_id \<Rightarrow> 'p \<Rightarrow> 'a" and R
  by unfold_locales (use sched_inv_init sched_inv_step in blast)+

end
