(* ===== verification/Scheduler_Spec.thy ===== *)
theory Scheduler_Spec
  imports Scheduler
begin

section \<open>What a run of the scheduler computes\<close>

text \<open>
  The sequential specification: the nodes are executed one after the other in a topological order,
  each when all edges into it have fired. The lemmas show that its outputs are the only map in
  which every node has what its call answers to the outputs of its parents, that the outputs of a
  parallel run are always part of it, and so that every run, whatever the order of completions,
  ends as the specification allows. The properties of the scheduler are stated at the end.
\<close>

subsection \<open>The sequential specification\<close>

type_synonym ('a, 'n) node_fun = "'a \<Rightarrow> 'n node_input \<Rightarrow> 'n node_output kernel_result"

definition node_reply :: "('p, 'n) dag \<Rightarrow> (node_id \<Rightarrow> 'p \<Rightarrow> 'a) \<Rightarrow> ('a, 'n) node_fun \<Rightarrow>
    (node_id, 'n json) btree_map \<Rightarrow> node_id \<Rightarrow> 'n node_output kernel_result" where
  "node_reply d factory f outs v =
     f (factory v (the (bt_get (dag_nodes d) v))) (make_input d outs v)"

definition seq_step :: "'n ext \<Rightarrow> ('p, 'n) dag \<Rightarrow> (node_id \<Rightarrow> 'p \<Rightarrow> 'a) \<Rightarrow> ('a, 'n) node_fun \<Rightarrow>
    node_id \<Rightarrow> (node_id, 'n json) btree_map \<Rightarrow> (node_id, 'n json) btree_map" where
  "seq_step x d factory f v outs =
     (if list_all (fired x outs) (parents d v)
      then (case node_reply d factory f outs v of Ok out \<Rightarrow> bt_insert v (out_value out) outs | _ \<Rightarrow> outs)
      else outs)"

definition seq_outputs :: "'n ext \<Rightarrow> ('p, 'n) dag \<Rightarrow> (node_id \<Rightarrow> 'p \<Rightarrow> 'a) \<Rightarrow> ('a, 'n) node_fun \<Rightarrow>
    node_id list \<Rightarrow> (node_id, 'n json) btree_map" where
  "seq_outputs x d factory f order = fold (seq_step x d factory f) order bt_new"

definition reply_value :: "'n node_output kernel_result \<Rightarrow> 'n json option" where
  "reply_value r = (case r of Ok out \<Rightarrow> Some (out_value out) | _ \<Rightarrow> None)"

text \<open>A map in which every node that is reached has the value its call returns.\<close>

definition solution :: "'n ext \<Rightarrow> ('p, 'n) dag \<Rightarrow> (node_id \<Rightarrow> 'p \<Rightarrow> 'a) \<Rightarrow> ('a, 'n) node_fun \<Rightarrow>
    (node_id, 'n json) btree_map \<Rightarrow> bool" where
  "solution x d factory f outs \<longleftrightarrow> bt_wf outs \<and>
     (\<forall>v. bt_get outs v =
        (if v \<in> reached x d outs then reply_value (node_reply d factory f outs v) else None))"

lemma fired_cong: "bt_get outs (e_from e) = bt_get outs' (e_from e) \<Longrightarrow> fired x outs e = fired x outs' e"
  by (simp add: fired_def)

lemma node_reply_cong:
  "\<forall>e \<in> set (parents d v). bt_get outs (e_from e) = bt_get outs' (e_from e) \<Longrightarrow>
   node_reply d factory f outs v = node_reply d factory f outs' v"
  using make_input_cong [of d v outs outs'] by (simp add: node_reply_def)

lemma before_prefix:
  assumes "distinct (ps @ n # qs)" and "before (ps @ n # qs) u v" and "v \<in> set (ps @ [n])"
  shows "u \<in> set ps"
proof -
  obtain as bs where split: "ps @ n # qs = as @ v # bs" and u: "u \<in> set as"
    using assms(2) by (auto simp: before_def)
  have "set as \<subseteq> set ps"
  proof (cases "v = n")
    case True
    with assms(1) split show ?thesis
      by (metis append_Cons_eq_iff distinct.simps(2) distinct_append Un_iff order_refl set_append
          not_distinct_conv_prefix)
  next
    case False
    with assms(3) obtain p1 p2 where "ps = p1 @ v # p2" by (auto dest: split_list)
    then show ?thesis using assms(1) split
      by (auto simp: append_eq_append_conv2 append_eq_Cons_conv Cons_eq_append_conv)
  qed
  with u show ?thesis by blast
qed

lemma seq_prefix:
  assumes topo: "topo_order d (ps @ qs)"
  shows "bt_wf (seq_outputs x d factory f ps) \<and>
    (\<forall>v. bt_get (seq_outputs x d factory f ps) v =
       (if v \<in> set ps \<and> (\<forall>e \<in> set (parents d v). fired x (seq_outputs x d factory f ps) e)
        then reply_value (node_reply d factory f (seq_outputs x d factory f ps) v) else None))"
  using topo
proof (induction ps arbitrary: qs rule: rev_induct)
  case Nil
  then show ?case by (simp add: seq_outputs_def bt.get_empty)
next
  case (snoc n ps)
  let ?old = "seq_outputs x d factory f ps" and ?new = "seq_outputs x d factory f (ps @ [n])"
  have topo: "topo_order d (ps @ n # qs)" using snoc.prems by simp
  have IH: "bt_wf ?old" "\<And>v. bt_get ?old v =
      (if v \<in> set ps \<and> (\<forall>e \<in> set (parents d v). fired x ?old e)
       then reply_value (node_reply d factory f ?old v) else None)"
    using snoc.IH [OF topo] by blast+
  have n: "n \<notin> set ps" using topo by (auto simp: topo_order_def)
  have step: "?new = seq_step x d factory f n ?old" by (simp add: seq_outputs_def)
  have get_new: "bt_get ?new v = (if v = n \<and> (\<forall>e \<in> set (parents d n). fired x ?old e)
      then reply_value (node_reply d factory f ?old n) else bt_get ?old v)" for v
    using IH(2) [of n] n
    by (auto simp: step seq_step_def list_all_iff bt_get_insert reply_value_def split: outcome.split)
  have src: "e_from e \<in> set ps" if "v \<in> set (ps @ [n])" "e \<in> set (parents d v)" for v e
    using topo that by (intro before_prefix [of ps n qs _ v]) (auto simp: topo_order_def parents_def)
  have same: "\<forall>e \<in> set (parents d v). bt_get ?new (e_from e) = bt_get ?old (e_from e)"
    if "v \<in> set (ps @ [n])" for v
    using src [OF that] n get_new by auto
  have cond: "(\<forall>e \<in> set (parents d v). fired x ?new e) \<longleftrightarrow> (\<forall>e \<in> set (parents d v). fired x ?old e)"
    if "v \<in> set (ps @ [n])" for v
    using same [OF that] fired_cong by metis
  have reply: "node_reply d factory f ?new v = node_reply d factory f ?old v"
    if "v \<in> set (ps @ [n])" for v
    by (rule node_reply_cong [OF same [OF that]])
  have "bt_get ?new v = (if v \<in> set (ps @ [n]) \<and> (\<forall>e \<in> set (parents d v). fired x ?new e)
      then reply_value (node_reply d factory f ?new v) else None)" for v
    using cond [of v] reply [of v] IH(2) [of v] n get_new [of v] by (cases "v = n") auto
  moreover have "bt_wf ?new"
    using IH(1) by (auto simp: step seq_step_def bt_wf_insert split: outcome.split)
  ultimately show ?case by blast
qed

lemma seq_outputs_solution:
  assumes "topo_order d order"
  shows "solution x d factory f (seq_outputs x d factory f order)"
proof -
  have "set order = node_ids d" using assms by (simp add: topo_order_def node_ids_def)
  then show ?thesis using seq_prefix [of d order "[]" x factory f] assms
    by (simp add: solution_def reached_def)
qed

subsection \<open>Induction along the edges\<close>

lemma edge_induct [consumes 1, case_names node]:
  assumes ac: "acyclic (edge_rel d)"
    and step: "\<And>v. (\<And>e. e \<in> set (parents d v) \<Longrightarrow> P (e_from e)) \<Longrightarrow> P v"
  shows "P v"
proof -
  have "finite (edge_rel d)" by (simp add: edge_rel_def)
  then have "wf (edge_rel d)" using ac by (rule finite_acyclic_wf)
  then show ?thesis
  proof (induction v rule: wf_induct_rule)
    case (less v)
    show ?case by (rule step, rule less) (auto simp: edge_rel_def parents_def)
  qed
qed

lemma solution_unique:
  assumes ac: "acyclic (edge_rel d)"
    and sol: "solution x d factory f outs" "solution x d factory f outs'"
  shows "outs = outs'"
proof -
  have "bt_get outs v = bt_get outs' v" for v
    using ac
  proof (induction v rule: edge_induct)
    case (node v)
    then have "\<forall>e \<in> set (parents d v). bt_get outs (e_from e) = bt_get outs' (e_from e)" by blast
    moreover from this have "v \<in> reached x d outs \<longleftrightarrow> v \<in> reached x d outs'"
      by (auto simp: reached_def fired_def)
    ultimately show ?case
      using sol node_reply_cong [of d v outs outs' factory f] by (simp add: solution_def)
  qed
  then show ?thesis using sol by (intro bt.get_inject) (auto simp: solution_def fun_eq_iff)
qed

text \<open>Replies that are a function of the node and its input.\<close>

definition replies_of :: "('a, 'n) node_fun \<Rightarrow> ('a, 'n) call_rel" where
  "replies_of f = (\<lambda>actor ctx input res. res = f actor input)"

lemma answered_replies_of:
  "answered d factory (replies_of f) outs v res \<longleftrightarrow> res = node_reply d factory f outs v"
  by (simp add: answered_def replies_of_def node_reply_def)

lemma part_of_solution:
  assumes ac: "acyclic (edge_rel d)" and sol: "solution x d factory f sol"
    and prov: "provenance d factory (replies_of f) outs"
    and dom: "dom (bt_get outs) \<subseteq> reached x d outs"
  shows "bt_get outs v = Some w \<Longrightarrow> bt_get sol v = Some w"
  using ac
proof (induction v arbitrary: w rule: edge_induct)
  case (node v)
  have v: "v \<in> reached x d outs" using dom node.prems by blast
  have par: "\<forall>e \<in> set (parents d v). bt_get outs (e_from e) = bt_get sol (e_from e)"
  proof
    fix e assume e: "e \<in> set (parents d v)"
    with v obtain u where "bt_get outs (e_from e) = Some u"
      using fired_source [of x outs e] by (auto simp: reached_def)
    with node.IH [OF e this] show "bt_get outs (e_from e) = bt_get sol (e_from e)" by simp
  qed
  have "v \<in> reached x d sol" using v par by (auto simp: reached_def fired_def)
  moreover have "reply_value (node_reply d factory f outs v) = Some w"
    using prov node.prems unfolding provenance_def answered_replies_of reply_value_def
    by (metis outcome.simps(10) node_output.select_convs(1))
  ultimately show ?case
    using sol node_reply_cong [OF par, of factory f] by (simp add: solution_def)
qed

subsection \<open>What the specification allows\<close>

definition failure_at :: "'n ext \<Rightarrow> ('p, 'n) dag \<Rightarrow> (node_id \<Rightarrow> 'p \<Rightarrow> 'a) \<Rightarrow> ('a, 'n) node_fun \<Rightarrow>
    (node_id, 'n json) btree_map \<Rightarrow> node_id \<Rightarrow> kernel_error option" where
  "failure_at x d factory f outs v =
     (if list_all (fired x outs) (parents d v)
      then (case node_reply d factory f outs v of Err e \<Rightarrow> Some e | _ \<Rightarrow> None) else None)"

definition failures :: "'n ext \<Rightarrow> ('p, 'n) dag \<Rightarrow> (node_id \<Rightarrow> 'p \<Rightarrow> 'a) \<Rightarrow> ('a, 'n) node_fun \<Rightarrow>
    (node_id, 'n json) btree_map \<Rightarrow> kernel_error list" where
  "failures x d factory f outs =
     List.map_filter (failure_at x d factory f outs) (bt_keys (dag_nodes d))"

text \<open>
  The results a run may have: the error of some node that was reached, if one failed; otherwise
  the hash of all outputs, or the error for nodes that were never reached.
\<close>

definition spec_results :: "'n ext \<Rightarrow> ('p, 'n) dag \<Rightarrow> (node_id \<Rightarrow> 'p \<Rightarrow> 'a) \<Rightarrow> ('a, 'n) node_fun \<Rightarrow>
    node_id list \<Rightarrow> string kernel_result set" where
  "spec_results x d factory f order =
     (let outs = seq_outputs x d factory f order; errs = failures x d factory f outs in
      if errs \<noteq> [] then Err ` set errs
      else if bt_len outs = bt_len (dag_nodes d) then {Ok (hash_json_map x outs)}
      else {Err not_reached})"

lemma set_map_filter: "set (List.map_filter g xs) = {y. \<exists>v \<in> set xs. g v = Some y}"
  by (induction xs) (auto simp: List.map_filter_simps split: option.split)

lemma failure_at_Some:
  "failure_at x d factory f outs v = Some e \<longleftrightarrow>
   (\<forall>u \<in> set (parents d v). fired x outs u) \<and> node_reply d factory f outs v = Err e"
  by (cases "node_reply d factory f outs v") (auto simp: failure_at_def list_all_iff)

lemma set_failures:
  "e \<in> set (failures x d factory f outs) \<longleftrightarrow>
   (\<exists>v \<in> reached x d outs. node_reply d factory f outs v = Err e)"
  by (auto simp: failures_def set_map_filter failure_at_Some reached_def node_ids_def)

lemma run_result_cases:
  fixes x :: "'n ext" and d :: "('p, 'n) dag"
  assumes ac: "acyclic (edge_rel d)" and sol: "solution x d factory f sol"
    and inv: "sched_inv x d factory (replies_of f) st" and final: "s_status st = Some r"
  shows "r \<in> (if failures x d factory f sol \<noteq> [] then Err ` set (failures x d factory f sol)
     else if bt_len sol = bt_len (dag_nodes d) then {Ok (hash_json_map x sol)} else {Err not_reached})"
proof -
  let ?outs = "s_outputs st"
  have prov: "provenance d factory (replies_of f) ?outs" and dom: "dom (bt_get ?outs) \<subseteq> reached x d ?outs"
    and wf: "bt_wf ?outs" "bt_wf (dag_nodes d)"
    and res: "result_ok x d factory (replies_of f) ?outs (s_log st) r"
    using inv final by (simp_all add: sched_inv_def)
  note part = part_of_solution [OF ac sol prov dom]
  have same: "?outs = sol" if all: "dom (bt_get ?outs) = reached x d ?outs"
  proof (rule solution_unique [OF ac _ sol])
    have "bt_get ?outs v = (if v \<in> reached x d ?outs
        then reply_value (node_reply d factory f ?outs v) else None)" for v
    proof (cases "bt_get ?outs v")
      case None
      then show ?thesis using all by auto
    next
      case (Some w)
      then have "reply_value (node_reply d factory f ?outs v) = Some w"
        using prov unfolding provenance_def answered_replies_of reply_value_def
        by (metis outcome.simps(10) node_output.select_convs(1))
      with Some all show ?thesis by auto
    qed
    then show "solution x d factory f ?outs" using wf(1) by (simp add: solution_def)
  qed
  have none: "failures x d factory f sol = []" if "dom (bt_get sol) = reached x d sol"
  proof -
    have "reply_value (node_reply d factory f sol v) \<noteq> None" if v: "v \<in> reached x d sol" for v
    proof -
      have "bt_get sol v \<noteq> None" using v \<open>dom (bt_get sol) = reached x d sol\<close> by blast
      moreover have "bt_get sol v = reply_value (node_reply d factory f sol v)"
        using sol v by (simp add: solution_def)
      ultimately show ?thesis by simp
    qed
    then have "e \<notin> set (failures x d factory f sol)" for e
      unfolding set_failures reply_value_def by (metis outcome.simps(11))
    then show ?thesis by (metis list.set_intros(1) neq_Nil_conv)
  qed
  have len: "bt_len sol = bt_len (dag_nodes d) \<longleftrightarrow> dom (bt_get sol) = node_ids d"
    if "dom (bt_get sol) = reached x d sol"
  proof -
    have "dom (bt_get sol) \<subseteq> node_ids d" using that by (auto simp: reached_def)
    moreover have "bt_wf sol" using sol by (simp add: solution_def)
    ultimately show ?thesis using bt_len_card [OF wf(2)] bt_len_card [of sol]
      by (metis node_ids_def bt_get_map_of card_subset_eq finite_dom_map_of)
  qed
  show ?thesis
  proof (cases "dom (bt_get ?outs) = reached x d ?outs")
    case True
    with same none len res show ?thesis by (cases r) auto
  next
    case False
    with res obtain v e where r: "r = Err e" and v: "v \<in> reached x d ?outs - dom (bt_get ?outs)"
      and ans: "Err e = node_reply d factory f ?outs v"
      by (cases r) (auto simp: answered_replies_of)
    have par: "\<forall>u \<in> set (parents d v). bt_get ?outs (e_from u) = bt_get sol (e_from u)"
    proof
      fix u assume "u \<in> set (parents d v)"
      with v obtain w where "bt_get ?outs (e_from u) = Some w"
        using fired_source [of x ?outs u] by (auto simp: reached_def)
      with part [OF this] show "bt_get ?outs (e_from u) = bt_get sol (e_from u)" by simp
    qed
    then have "v \<in> reached x d sol" using v by (auto simp: reached_def fired_def)
    then have "e \<in> set (failures x d factory f sol)"
      using ans node_reply_cong [OF par, of factory f] by (auto simp: set_failures)
    then show ?thesis using r by (auto simp: length_pos_if_in_set)
  qed
qed

subsection \<open>Length of a run\<close>

lemma incr_indeg_total:
  "incr_indeg es indeg = Ok indeg' \<Longrightarrow> bt_total indeg' = bt_total indeg + length es"
proof (induction es arbitrary: indeg)
  case (Cons e es)
  then obtain n where n: "bt_get indeg (e_to e) = Some n"
    and rest: "incr_indeg es (bt_set (e_to e) (n + 1) indeg) = Ok indeg'"
    by (auto simp: outcome_simps)
  from Cons.IH [OF rest] bt_total_set [OF n, of "n + 1"] show ?case by simp
qed simp

lemma init_indeg_total: "bt_total (init_indeg d) = 0"
proof -
  have "k = 0" if "(v, k) \<in> set (init_indeg d)" for v k
  proof -
    have "bt_get (init_indeg d) v = Some k"
      using bt_wf_distinct [OF bt_wf_init_indeg] that unfolding bt_get_map_of by (rule map_of_is_SomeI)
    then show ?thesis by (simp add: bt_get_init_indeg split: if_splits)
  qed
  then show ?thesis by (auto simp: bt_total_def)
qed

definition max_steps :: "('p, 'n) dag \<Rightarrow> nat" where
  "max_steps d = 2 * (bt_len (dag_nodes d) + length (dag_edges d)) + 1"

lemma sched_rank_init:
  assumes "sched_start d st"
  shows "sched_rank st \<le> max_steps d"
proof -
  have known: "targets_known d" and wf: "bt_wf (dag_nodes d)" and st: "st = sched_init d"
    using assms by (simp_all add: sched_start_def)
  have "\<forall>e \<in> set (dag_edges d). bt_get (init_indeg d) (e_to e) \<noteq> None"
    using known by (auto simp: bt_get_init_indeg targets_known_def)
  then obtain indeg where ok: "incr_indeg (dag_edges d) (init_indeg d) = Ok indeg" "bt_wf indeg"
    and get: "\<forall>v. bt_get indeg v = map_option (\<lambda>n. n + in_count (dag_edges d) v) (bt_get (init_indeg d) v)"
    using incr_indeg_Ok [of "dag_edges d" "init_indeg d"] by auto
  have "dom (bt_get indeg) = node_ids d"
    using get by (auto simp: dom_def bt_get_init_indeg node_ids_def)
  then have "length indeg = bt_len (dag_nodes d)"
    using bt_len_card [OF ok(2)] bt_len_card [OF wf] by (simp add: bt_len_def node_ids_def)
  then have "length (zero_indeg indeg) \<le> bt_len (dag_nodes d)"
    by (simp add: zero_indeg_def) (metis length_filter_le)
  then show ?thesis
    using incr_indeg_total [OF ok(1)]
    by (simp add: st sched_init_def Let_def ok(1) continue_def sched_rank_def init_indeg_total max_steps_def)
qed

subsection \<open>Running the steps\<close>

definition calm :: "('a, 'n) node_fun \<Rightarrow> bool" where
  "calm call \<longleftrightarrow> (\<forall>actor input. no_panic (call actor input))"

lemma drive_step:
  assumes run: "s_status st = None" and calm: "calm call"
  shows "\<exists>st'. sched_step x d factory (replies_of call) st st' \<and>
    drive x d factory call pick (Suc n) st = drive x d factory call pick n st'"
proof (cases "s_inflight st")
  case Nil
  then show ?thesis using run by (cases "s_ready st = []") (auto intro: sched_step.intros)
next
  case (Cons g fs)
  define k where "k = pick n mod length (s_inflight st)"
  obtain nid actor input where g: "s_inflight st ! k = (nid, actor, input)" by (cases "s_inflight st ! k") auto
  have "k < length (s_inflight st)" by (simp add: k_def Cons)
  then have split: "s_inflight st = take k (s_inflight st) @ (nid, actor, input) # drop (Suc k) (s_inflight st)"
    using g by (metis id_take_nth_drop)
  have "sched_step x d factory (replies_of call) st (settle x d nid (call actor input)
      (st\<lparr>s_inflight := take k (s_inflight st) @ drop (Suc k) (s_inflight st)\<rparr>))"
    by (rule step_settle [OF run split]) (use calm in \<open>simp_all add: replies_of_def calm_def\<close>)
  moreover have "drive x d factory call pick (Suc n) st = drive x d factory call pick n
      (settle x d nid (call actor input)
        (st\<lparr>s_inflight := take k (s_inflight st) @ drop (Suc k) (s_inflight st)\<rparr>))"
    using run g by (simp add: Cons k_def Let_def)
  ultimately show ?thesis by blast
qed

lemma drive_steps:
  assumes "calm call"
  shows "(sched_step x d factory (replies_of call))\<^sup>*\<^sup>* st (drive x d factory call pick n st)"
proof (induction n arbitrary: st)
  case (Suc n)
  show ?case
  proof (cases "s_status st")
    case None
    from drive_step [OF this assms, where x = x and d = d and factory = factory and pick = pick and n = n]
    obtain st' where "sched_step x d factory (replies_of call) st st'"
      "drive x d factory call pick (Suc n) st = drive x d factory call pick n st'" by blast
    with Suc [of st'] show ?thesis by (metis converse_rtranclp_into_rtranclp)
  qed simp
qed simp

lemma drive_ends:
  assumes calm: "calm call"
  shows "sched_inv x d factory (replies_of call) st \<Longrightarrow> sched_rank st \<le> n \<Longrightarrow>
    s_status (drive x d factory call pick n st) \<noteq> None"
proof (induction n arbitrary: st)
  case 0
  then show ?case by (auto simp: sched_rank_def split: if_splits)
next
  case (Suc n)
  show ?case
  proof (cases "s_status st")
    case None
    from drive_step [OF this calm, where x = x and d = d and factory = factory and pick = pick and n = n]
    obtain st' where step: "sched_step x d factory (replies_of call) st st'"
      and eq: "drive x d factory call pick (Suc n) st = drive x d factory call pick n st'" by blast
    from sched_inv_step [OF Suc.prems(1) step] Suc.prems(2) show ?thesis
      unfolding eq by (intro Suc.IH) auto
  qed simp
qed

subsection \<open>A sample workflow\<close>

text \<open>
  The workflow of the integration test with nodes that answer at once; in the second one the
  validation reports a failure, so the edge to \<open>attest\<close> does not fire.
\<close>

definition sample_node :: "bool \<Rightarrow> (string, f64) node_fun" where
  "sample_node valid kind input =
     (if kind = ''wasm:validate'' then Ok \<lparr>out_value = JObject [(''ok'', JBool valid)], out_gas_used = 7\<rparr>
      else if kind = ''native:attest'' then Ok \<lparr>out_value = JArray (bt_values (in_parents input)), out_gas_used = 2\<rparr>
      else Ok \<lparr>out_value = JString (in_node_id input), out_gas_used = 1\<rparr>)"

definition sample_run :: "bool \<Rightarrow> (nat \<Rightarrow> nat) \<Rightarrow> (string, f64) sched" where
  "sample_run valid pick =
     drive demo_ext e2e_dag (\<lambda>i kind. kind) (sample_node valid) pick (max_steps e2e_dag) (sched_init e2e_dag)"

abbreviation sample_step :: "bool \<Rightarrow> (string, f64) sched \<Rightarrow> (string, f64) sched \<Rightarrow> bool" where
  "sample_step valid \<equiv> sched_step demo_ext e2e_dag (\<lambda>i kind. kind) (replies_of (sample_node valid))"

lemma closed_targets: "closed_dag d \<Longrightarrow> targets_known d"
  by (simp add: closed_dag_def targets_known_def)

lemma sample_calm: "calm (sample_node valid)"
  by (simp add: calm_def sample_node_def)

lemma sample_start: "sched_start e2e_dag (sched_init e2e_dag)"
  by (simp add: sched_start_def closed_targets e2e_closed e2e_wf)

lemma sample_steps: "(sample_step valid)\<^sup>*\<^sup>* (sched_init e2e_dag) (sample_run valid pick)"
  unfolding sample_run_def by (rule drive_steps [OF sample_calm])

lemma sample_acyclic: "acyclic (edge_rel e2e_dag)"
  by (rule topo_order_acyclic [OF topo_sort_Ok_order [OF e2e_closed(1) e2e_wf(1) e2e_checks(1)]])

lemma sample_status:
  "is_ok (the (s_status (sample_run True (\<lambda>n. 0))))"
  "is_ok (the (s_status (sample_run True (\<lambda>n. n))))"
  "s_status (sample_run False (\<lambda>n. n)) = Some (Err not_reached)"
  by code_simp+

lemma sample_ends: "s_status (sample_run valid pick) \<noteq> None"
  unfolding sample_run_def
  by (intro drive_ends sample_calm sched_inv_init sample_start sched_rank_init)

subsection \<open>Properties of the scheduler\<close>

lemma stopped_stays:
  assumes "(sched_step x d factory R)\<^sup>*\<^sup>* st st'" and "s_status st \<noteq> None"
  shows "st' = st"
  using assms by (induction rule: converse_rtranclp_induct) (auto elim: sched_step_cases)

lemma reachable_sched_inv:
  assumes "targets_known d" and "bt_wf (dag_nodes d)"
    and "(sched_step x d factory R)\<^sup>*\<^sup>* (sched_init d) st"
  shows "sched_inv x d factory R st"
  using sched.reachable_inv [OF _ assms(3)] assms(1,2) by (simp add: sched_start_def)

subsection \<open>Graphs without conditions\<close>

definition unconditional :: "('p, 'n) dag \<Rightarrow> bool" where
  "unconditional d \<longleftrightarrow> (\<forall>e \<in> set (dag_edges d). e_condition e = Always)"

text \<open>If every node whose parents are done is done, then all are.\<close>

lemma unconditional_complete:
  assumes ac: "acyclic (edge_rel d)" and "closed_dag d" and "unconditional d"
    and all: "dom (bt_get outs) = reached x d outs"
  shows "dom (bt_get outs) = node_ids d"
proof -
  have "v \<in> node_ids d \<longrightarrow> v \<in> reached x d outs" for v
    using ac
  proof (induction v rule: edge_induct)
    case (node v)
    have "fired x outs e" if e: "e \<in> set (parents d v)" for e
    proof -
      have "e \<in> set (dag_edges d)" using e by (simp add: parents_def)
      then have "e_condition e = Always" "e_from e \<in> node_ids d"
        using assms(2,3) by (auto simp: unconditional_def closed_dag_def node_ids_def)
      then have "e_from e \<in> dom (bt_get outs)" using node [OF e] all by simp
      with \<open>e_condition e = Always\<close> show ?thesis by (auto simp: fired_def)
    qed
    then show ?case by (simp add: reached_def)
  qed
  then show ?thesis using all by (auto simp: reached_def)
qed

text \<open>So such a run fails only with the error of a node.\<close>

lemma unconditional_Err:
  assumes "closed_dag d" and "bt_wf (dag_nodes d)" and "topo_sort d = Ok order" and "unconditional d"
    and "(sched_step x d factory R)\<^sup>*\<^sup>* (sched_init d) st" and "s_status st = Some (Err e)"
  shows "\<exists>v \<in> reached x d (s_outputs st). answered d factory R (s_outputs st) v (Err e)"
proof -
  have ac: "acyclic (edge_rel d)"
    by (rule topo_order_acyclic [OF topo_sort_Ok_order [OF assms(1-3)]])
  have "result_ok x d factory R (s_outputs st) (s_log st) (Err e)"
    using reachable_sched_inv [OF closed_targets [OF assms(1)] assms(2,5)] assms(6)
    by (simp add: sched_inv_def del: result_ok.simps)
  with unconditional_complete [OF ac assms(1,4)] show ?thesis by (simp only: result_ok.simps) blast
qed

text \<open>After all actors have been spawned a run panics exactly when an edge leads to an unknown node.\<close>

lemma run_cannot_panic:
  assumes "bt_wf (dag_nodes d)" and "(sched_step x d factory R)\<^sup>*\<^sup>* (sched_init d) st"
  shows "if targets_known d then \<forall>p. s_status st \<noteq> Some (Panic p)
    else s_status st = Some (Panic Unwrap_None) \<and> s_log st = [WorkflowStarted (dag_id d) (dag_name d)]"
proof (cases "targets_known d")
  case True
  from reachable_sched_inv [OF True assms] show ?thesis
    using True by (auto simp: sched_inv_def)
next
  case False
  then have "\<exists>e \<in> set (dag_edges d). bt_get (init_indeg d) (e_to e) = None"
    by (auto simp: targets_known_def bt_get_init_indeg)
  from incr_indeg_Panic [OF this] have init: "s_status (sched_init d :: ('c, 'b) sched) = Some (Panic Unwrap_None)"
    "s_log (sched_init d :: ('c, 'b) sched) = [WorkflowStarted (dag_id d) (dag_name d)]"
    by (simp_all add: sched_init_def Let_def continue_def stopped_def)
  with stopped_stays [OF assms(2)] False show ?thesis by simp
qed

text \<open>
  C37: A run panics only at its start, and exactly in two cases. If \<open>node_factory\<close> panics for a
  node, the run panics with the panic of the first such node in the order of the ids. If it returns
  for every node and an edge leads to an unknown node, the \<open>unwrap\<close> of the in-degree counter fails.
  In both cases no node is ever started. On every other graph, also one with cycles or unknown
  sources, no order of completions and no reply of a node leads to a panic: every actor and every
  counter exists and none is decremented below zero.
\<close>

theorem run_panics_iff:
  assumes "bt_wf (dag_nodes d)" and "(sched_step x d (made mk) R)\<^sup>*\<^sup>* (run_begin mk d) st"
  shows "case List.find (\<lambda>(i, payload). isl (mk i payload)) (dag_nodes d) of
      Some (i, payload) \<Rightarrow> s_status st = Some (Panic (projl (mk i payload))) \<and>
        s_log st = [WorkflowStarted (dag_id d) (dag_name d)]
    | None \<Rightarrow> if targets_known d then \<forall>p. s_status st \<noteq> Some (Panic p)
        else s_status st = Some (Panic Unwrap_None) \<and> s_log st = [WorkflowStarted (dag_id d) (dag_name d)]"
proof (cases "List.find (\<lambda>(i, payload). isl (mk i payload)) (dag_nodes d)")
  case None
  with run_cannot_panic [OF assms(1), of x "made mk" R st] assms(2) show ?thesis
    by (simp add: run_begin_init)
next
  case (Some node)
  obtain i payload where node: "node = (i, payload)" by (cases node)
  note start = run_begin_panic [OF Some [unfolded node]]
  with stopped_stays [OF assms(2)] show ?thesis by (simp add: Some node)
qed

text \<open>The workflow of the integration test, once with a closure that panics for two of its nodes.\<close>

definition fussy_factory :: "(string, string) node_closure" where
  "fussy_factory i kind = (if kind = ''native:attest'' \<or> i = ''notify'' then Inl Explicit_Panic else Inr kind)"

theorem run_panics_iff_witness:
  "s_status (run_begin fussy_factory e2e_dag :: (string, f64) sched) = Some (Panic Explicit_Panic) \<and>
   s_status (sample_run True (\<lambda>n. 3)) \<noteq> Some (Panic Unwrap_None)"
proof
  have "List.find (\<lambda>(i, payload). isl (fussy_factory i payload)) (dag_nodes (e2e_dag :: (string, f64) dag)) =
      Some (''attest'', ''native:attest'')"
    by code_simp
  then show "s_status (run_begin fussy_factory e2e_dag :: (string, f64) sched) = Some (Panic Explicit_Panic)"
    using run_panics_iff [OF e2e_wf(1), of demo_ext fussy_factory "replies_of (sample_node True)"
      "run_begin fussy_factory e2e_dag"]
    by (simp add: fussy_factory_def)
  have mk: "made (\<lambda>i kind. Inr kind) = (\<lambda>(i :: node_id) kind :: string. kind)"
    by (simp add: made_def fun_eq_iff)
  have find: "List.find (\<lambda>(i, payload). isl (Inr payload :: panic + string)) nodes = None"
    for nodes :: "(node_id \<times> string) list"
    by (simp add: find_None_iff)
  have start: "run_begin (\<lambda>i kind. Inr kind) e2e_dag = (sched_init e2e_dag :: (string, f64) sched)"
    by (rule run_begin_init) (rule find)
  have "targets_known (e2e_dag :: (string, f64) dag)" by (rule closed_targets [OF e2e_closed(1)])
  then show "s_status (sample_run True (\<lambda>n. 3)) \<noteq> Some (Panic Unwrap_None)"
    using run_panics_iff [OF e2e_wf(1), of demo_ext "\<lambda>i kind. Inr kind", unfolded mk start,
      OF sample_steps [of True "\<lambda>n. 3"]]
    by (simp only: find option.case if_True) blast
qed

text \<open>
  A run is finite: whatever the nodes answer and in whatever order, it has at most
  \<open>2 * (nodes + edges) + 1\<close> rounds.
\<close>

theorem run_bounded:
  assumes "targets_known d" and "bt_wf (dag_nodes d)"
    and "(sched_step x d factory R ^^ n) (sched_init d) st"
  shows "n \<le> max_steps d"
proof -
  have start: "sched_start d (sched_init d)" using assms(1,2) by (simp add: sched_start_def)
  from sched.steps_bounded [OF start assms(3)] sched_rank_init [OF start] show ?thesis
    by (rule order_trans)
qed

theorem run_bounded_witness: "0 \<le> max_steps e2e_dag"
  using run_bounded [OF closed_targets [OF e2e_closed(1)] e2e_wf(1), of 0 demo_ext "\<lambda>i kind. kind"
    "replies_of (sample_node True)" "sched_init e2e_dag"]
  by simp

text \<open>
  A run returns: when every call is answered, the function ends within the bound, for every
  order in which the futures in flight complete. No run is left waiting for a node that nobody
  will start.
\<close>

theorem run_returns:
  assumes "targets_known d" and "bt_wf (dag_nodes d)" and "calm call"
  shows "\<exists>r. s_status (drive x d factory call pick (max_steps d) (sched_init d)) = Some r \<and> no_panic r"
proof -
  have start: "sched_start d (sched_init d)" using assms(1,2) by (simp add: sched_start_def)
  let ?st = "drive x d factory call pick (max_steps d) (sched_init d)"
  have "s_status ?st \<noteq> None"
    by (rule drive_ends [OF assms(3) sched_inv_init [OF start] sched_rank_init [OF start]])
  moreover have "sched_inv x d factory (replies_of call) ?st"
    by (rule reachable_sched_inv [OF assms(1,2) drive_steps [OF assms(3)]])
  ultimately show ?thesis by (auto simp: sched_inv_def no_panic_iff)
qed

theorem run_returns_witness:
  "\<exists>r. s_status (sample_run False (\<lambda>n. 5)) = Some r \<and> no_panic r"
  unfolding sample_run_def
  by (rule run_returns [OF closed_targets [OF e2e_closed(1)] e2e_wf(1) sample_calm])

text \<open>
  C4: In the event log of every run, at every moment, a node is started at most once, and for
  each edge into it the completion of the source, with a value that satisfies the condition of
  the edge and under the hash of that value, was reported before.
\<close>

theorem started_once_after_parents:
  assumes "targets_known d" and "bt_wf (dag_nodes d)"
    and "(sched_step x d factory R)\<^sup>*\<^sup>* (sched_init d) st"
  shows "distinct (started_ids (s_log st)) \<and>
    (\<forall>v \<in> set (started_ids (s_log st)). \<forall>e \<in> set (parents d v). \<exists>w gas.
       evaluate x (e_condition e) w \<and>
       before (s_log st) (NodeCompleted (dag_id d) (e_from e) (Success (hash_json x w) gas))
         (NodeStarted (dag_id d) v 1))"
proof -
  have "log_ok x d st" using reachable_sched_inv [OF assms] by (simp add: sched_inv_def)
  then show ?thesis unfolding log_ok_def fired_before_def by blast
qed

theorem started_once_after_parents_witness:
  "distinct (started_ids (s_log (sample_run True (\<lambda>n. 2))))"
  using started_once_after_parents [OF closed_targets [OF e2e_closed(1)] e2e_wf(1)
    sample_steps [of True "\<lambda>n. 2"]]
  by blast

text \<open>
  C6: A run returns a hash only if every node of the graph completed, every edge fired, and the
  hash is the one of all outputs; each output is the value its node answered to an input built
  from exactly the outputs of its parents; and the log ends with the event that carries this hash,
  which is the only final event in it.
\<close>

theorem run_Ok_complete:
  assumes "targets_known d" and "bt_wf (dag_nodes d)"
    and "(sched_step x d factory R)\<^sup>*\<^sup>* (sched_init d) st" and "s_status st = Some (Ok h)"
  shows "set (completed_ids (s_log st)) = node_ids d \<and> distinct (completed_ids (s_log st)) \<and>
    (\<forall>v \<in> node_ids d. \<forall>e \<in> set (parents d v). fired x (s_outputs st) e) \<and>
    provenance d factory R (s_outputs st) \<and> h = hash_json_map x (s_outputs st) \<and>
    filter is_final (s_log st) = [WorkflowCompleted (dag_id d) h] \<and>
    last (s_log st) = WorkflowCompleted (dag_id d) h"
proof -
  note inv = reachable_sched_inv [OF assms(1-3)]
  then have "result_ok x d factory R (s_outputs st) (s_log st) (Ok h)"
    using assms(4) by (simp add: sched_inv_def del: result_ok.simps)
  moreover have "log_ok x d st" "provenance d factory R (s_outputs st)"
    using inv by (simp_all add: sched_inv_def)
  ultimately show ?thesis by (simp add: log_ok_def) (auto simp: reached_def)
qed

theorem run_Ok_complete_witness:
  "set (completed_ids (s_log (sample_run True (\<lambda>n. 0)))) = node_ids e2e_dag \<and>
   (\<exists>h. last (s_log (sample_run True (\<lambda>n. 0))) = WorkflowCompleted 0 h)"
proof -
  obtain h where "s_status (sample_run True (\<lambda>n. 0)) = Some (Ok h)"
    using sample_status(1) sample_ends [of True "\<lambda>n. 0"]
    by (metis is_ok.elims(2) option.collapse)
  from run_Ok_complete [OF closed_targets [OF e2e_closed(1)] e2e_wf(1) sample_steps this]
  have "set (completed_ids (s_log (sample_run True (\<lambda>n. 0)))) = node_ids e2e_dag"
    "last (s_log (sample_run True (\<lambda>n. 0))) = WorkflowCompleted (dag_id e2e_dag) h"
    by blast+
  moreover have "dag_id e2e_dag = 0" by (simp add: e2e_dag_def dag_of_def)
  ultimately show ?thesis by auto
qed

text \<open>
  C1: The parallel run refines the sequential execution of the nodes in the order of \<open>topo_sort\<close>.
  Whatever order the calls complete in, a run ends with the error of a node that the sequential
  execution reaches and that fails; if none fails, with the hash of the sequential outputs; and if
  a condition kept a node from being reached, with the error for that.
\<close>

theorem run_refines_sequential:
  assumes "closed_dag d" and "bt_wf (dag_nodes d)" and "topo_sort d = Ok order"
    and "(sched_step x d factory (replies_of f))\<^sup>*\<^sup>* (sched_init d) st"
    and "s_status st = Some r"
  shows "r \<in> spec_results x d factory f order"
proof -
  have topo: "topo_order d order" by (rule topo_sort_Ok_order [OF assms(1-3)])
  have inv: "sched_inv x d factory (replies_of f) st"
    by (rule reachable_sched_inv [OF closed_targets [OF assms(1)] assms(2,4)])
  from run_result_cases [OF topo_order_acyclic [OF topo] seq_outputs_solution [OF topo] inv assms(5)]
  show ?thesis unfolding spec_results_def Let_def .
qed

theorem run_refines_sequential_witness:
  "Err not_reached \<in> spec_results demo_ext e2e_dag (\<lambda>i kind. kind) (sample_node False)
     [''ingest'', ''validate'', ''attest'', ''notify'']"
  by (rule run_refines_sequential [OF e2e_closed(1) e2e_wf(1) e2e_checks(1) sample_steps sample_status(3)])

text \<open>What a node of the graph answers when it succeeds depends on its input alone.\<close>

definition actor_of :: "('p, 'n) dag \<Rightarrow> (node_id \<Rightarrow> 'p \<Rightarrow> 'a) \<Rightarrow> node_id \<Rightarrow> 'a" where
  "actor_of d factory v = factory v (the (bt_get (dag_nodes d) v))"

definition value_of_input :: "('p, 'n) dag \<Rightarrow> (node_id \<Rightarrow> 'p \<Rightarrow> 'a) \<Rightarrow> ('a, 'n) call_rel \<Rightarrow> bool" where
  "value_of_input d factory R \<longleftrightarrow> (\<forall>v \<in> node_ids d. \<forall>c c' i out out'.
     R (actor_of d factory v) c i (Ok out) \<longrightarrow> R (actor_of d factory v) c' i (Ok out') \<longrightarrow>
     out_value out = out_value out')"

lemma value_of_input_replies_of: "value_of_input d factory (replies_of f)"
  unfolding value_of_input_def replies_of_def by (metis outcome.inject(1))

lemma outputs_agree:
  assumes ac: "acyclic (edge_rel d)" and det: "value_of_input d factory R"
    and prov: "provenance d factory R outs" "provenance d factory R outs'"
    and closed: "closed_dag d" and all: "dom (bt_get outs) = node_ids d" "dom (bt_get outs') = node_ids d"
  shows "bt_get outs v = bt_get outs' v"
  using ac
proof (induction v rule: edge_induct)
  case (node v)
  have same: "make_input d outs v = make_input d outs' v"
    by (rule make_input_cong) (use node in blast)
  show ?case
  proof (cases "v \<in> node_ids d")
    case True
    then obtain w w' where w: "bt_get outs v = Some w" "bt_get outs' v = Some w'"
      using all by blast
    let ?actor = "actor_of d factory v"
    obtain t t' gas gas' where
      "R ?actor (default_context t) (make_input d outs v) (Ok \<lparr>out_value = w, out_gas_used = gas\<rparr>)"
      "R ?actor (default_context t') (make_input d outs' v) (Ok \<lparr>out_value = w', out_gas_used = gas'\<rparr>)"
      using prov w unfolding provenance_def answered_def actor_of_def by blast
    then have "w = w'" using det True unfolding same value_of_input_def by force
    with w show ?thesis by simp
  next
    case False
    then have "v \<notin> dom (bt_get outs)" "v \<notin> dom (bt_get outs')" using all by simp_all
    then show ?thesis by (simp add: domIff)
  qed
qed

lemma hash_agree:
  assumes "closed_dag d" and "bt_wf (dag_nodes d)" and "topo_sort d = Ok order"
    and "value_of_input d factory R"
    and "(sched_step x d factory R)\<^sup>*\<^sup>* (sched_init d) st" and "s_status st = Some (Ok h)"
    and "(sched_step x d factory R)\<^sup>*\<^sup>* (sched_init d) st'" and "s_status st' = Some (Ok h')"
  shows "h = h'"
proof -
  note inv = reachable_sched_inv [OF closed_targets [OF assms(1)] assms(2)]
  have ac: "acyclic (edge_rel d)"
    by (rule topo_order_acyclic [OF topo_sort_Ok_order [OF assms(1-3)]])
  have ok: "provenance d factory R (s_outputs t)" "bt_wf (s_outputs t)"
    "dom (bt_get (s_outputs t)) = node_ids d" "k = hash_json_map x (s_outputs t)"
    if "(sched_step x d factory R)\<^sup>*\<^sup>* (sched_init d) t" "s_status t = Some (Ok k)" for t k
    using inv [OF that(1)] that(2) by (simp_all add: sched_inv_def)
  note one = ok [OF assms(5,6)] and two = ok [OF assms(7,8)]
  have "bt_get (s_outputs st) v = bt_get (s_outputs st') v" for v
    by (rule outputs_agree [OF ac assms(4) one(1) two(1) assms(1) one(3) two(3)])
  then have "s_outputs st = s_outputs st'"
    by (intro bt.get_inject one(2) two(2)) (rule ext)
  then show ?thesis using one(4) two(4) by simp
qed

text \<open>
  The attestation hash is deterministic: two runs of the same graph that return a hash return
  the same one, whatever the orders of completion, retries, trace ids and gas, as long as what a
  node answers when it succeeds depends on its input alone.
\<close>

theorem hash_schedule_independent:
  assumes "closed_dag d" and "bt_wf (dag_nodes d)" and "topo_sort d = Ok order"
    and "value_of_input d factory R"
    and "(sched_step x d factory R)\<^sup>*\<^sup>* (sched_init d) st" and "s_status st = Some (Ok h)"
    and "(sched_step x d factory R)\<^sup>*\<^sup>* (sched_init d) st'" and "s_status st' = Some (Ok h')"
  shows "h = h'"
  by (rule hash_agree [OF assms])

theorem hash_schedule_independent_witness:
  "s_status (sample_run True (\<lambda>n. n)) = s_status (sample_run True (\<lambda>n. 0))"
proof -
  obtain h h' where hs: "s_status (sample_run True (\<lambda>n. n)) = Some (Ok h)"
      "s_status (sample_run True (\<lambda>n. 0)) = Some (Ok h')"
    using sample_status(1,2) sample_ends [of True] by (metis is_ok.elims(2) option.collapse)
  have det: "value_of_input e2e_dag (\<lambda>i kind. kind) (replies_of (sample_node True))"
    by (rule value_of_input_replies_of)
  have "h = h'"
    by (rule hash_schedule_independent [OF e2e_closed(1) e2e_wf(1) e2e_checks(1) det
      sample_steps hs(1) sample_steps hs(2)])
  with hs show ?thesis by simp
qed

text \<open>
  C38: How an unsuccessful run ends. Either a node that was reached failed, and the only final
  event, the last one of the log, is \<open>WorkflowFailed\<close> with the text of its error; or a condition was false and some node was
  never reached: then the error is returned without a final event, so a subscriber of the events
  is never told that this workflow has ended.
\<close>

theorem run_Err_events:
  assumes "targets_known d" and "bt_wf (dag_nodes d)"
    and "(sched_step x d factory R)\<^sup>*\<^sup>* (sched_init d) st" and "s_status st = Some (Err e)"
  shows "(e = not_reached \<and> filter is_final (s_log st) = [] \<and>
      (\<exists>v \<in> node_ids d - set (started_ids (s_log st)). \<exists>u \<in> set (parents d v).
         \<not> fired x (s_outputs st) u)) \<or>
    (filter is_final (s_log st) = [WorkflowFailed (dag_id d) (error_to_string e)] \<and>
      last (s_log st) = WorkflowFailed (dag_id d) (error_to_string e) \<and>
      (\<exists>v \<in> node_ids d. answered d factory R (s_outputs st) v (Err e)))"
proof -
  note inv = reachable_sched_inv [OF assms(1-3)]
  let ?outs = "s_outputs st"
  have res: "result_ok x d factory R ?outs (s_log st) (Err e)"
    using inv assms(4) by (simp add: sched_inv_def del: result_ok.simps)
  show ?thesis
  proof (cases "\<exists>v \<in> reached x d ?outs - dom (bt_get ?outs). answered d factory R ?outs v (Err e) \<and>
      filter is_final (s_log st) = [WorkflowFailed (dag_id d) (error_to_string e)] \<and>
      last (s_log st) = WorkflowFailed (dag_id d) (error_to_string e)")
    case True
    then show ?thesis by (auto simp: reached_def)
  next
    case False
    then have "e = not_reached \<and> dom (bt_get ?outs) = reached x d ?outs \<and> dom (bt_get ?outs) \<noteq> node_ids d \<and>
        set (started_ids (s_log st)) = dom (bt_get ?outs) \<and> filter is_final (s_log st) = []"
      using res unfolding result_ok.simps by blast
    then have end_state: "e = not_reached" "filter is_final (s_log st) = []"
      "dom (bt_get ?outs) = reached x d ?outs" "dom (bt_get ?outs) \<noteq> node_ids d"
      "set (started_ids (s_log st)) = dom (bt_get ?outs)"
      by blast+
    then have "\<exists>v \<in> node_ids d. v \<notin> reached x d ?outs" by (auto simp: reached_def)
    then have "\<exists>v \<in> node_ids d - set (started_ids (s_log st)). \<exists>u \<in> set (parents d v). \<not> fired x ?outs u"
      unfolding end_state(5,3) by (auto simp: reached_def)
    with end_state(1,2) show ?thesis by blast
  qed
qed

theorem run_Err_events_witness:
  "filter is_final (s_log (sample_run False (\<lambda>n. n))) = []"
proof -
  have "dag_id e2e_dag = 0" by (simp add: e2e_dag_def dag_of_def)
  moreover have "\<not> answered e2e_dag (\<lambda>i kind. kind) (replies_of (sample_node False)) outs v (Err e)" for outs v e
    by (simp add: answered_def replies_of_def sample_node_def)
  ultimately show ?thesis
    using run_Err_events [OF closed_targets [OF e2e_closed(1)] e2e_wf(1) sample_steps sample_status(3)]
    by blast
qed

end
