(* ===== verification/Actor.thy ===== *)
theory Actor
  imports Resilience
begin

section \<open>Node actors (actor.rs)\<close>

text \<open>
  An actor is a task that owns a node and a mailbox. The state holds the messages in the bounded
  channel, the one being executed, and, for the proofs, every message the channel accepted and
  every reply in the order of delivery. A step is an accepted or a refused \<open>send\<close>, the task taking
  the next message, the task replying with what the executor returned, and the end of the task by
  a panic of its node, which drops its receiver and so the reply channels of all messages left.
\<close>

record 'n message =
  m_input :: "'n node_input"
  m_ctx :: node_context

record 'n actor =
  a_alive :: bool
  a_mailbox :: "'n message list"
  a_current :: "'n message option"
  a_sent :: "'n message list"
  a_replies :: "('n message \<times> 'n node_output kernel_result) list"
  a_refused :: "('n message \<times> 'n node_output kernel_result) list"

definition mailbox_capacity :: usize where
  "mailbox_capacity = 64"

definition spawn :: "'n actor" where
  "spawn = \<lparr>a_alive = True, a_mailbox = [], a_current = None, a_sent = [], a_replies = [], a_refused = []\<rparr>"

definition reply_dropped :: "'n node_output kernel_result" where
  "reply_dropped = Err (Network ''actor reply dropped'')"

definition mailbox_closed :: "'n node_output kernel_result" where
  "mailbox_closed = Err (Network ''actor mailbox closed'')"

text \<open>\<open>call\<close> up to its second \<open>await\<close>; a full mailbox makes the caller wait, which is no step.\<close>

definition send :: "'n message \<Rightarrow> 'n actor \<Rightarrow> 'n actor option" where
  "send m a =
     (if \<not> a_alive a then Some (a\<lparr>a_refused := a_refused a @ [(m, mailbox_closed)]\<rparr>)
      else if length (a_mailbox a) < mailbox_capacity
      then Some (a\<lparr>a_mailbox := a_mailbox a @ [m], a_sent := a_sent a @ [m]\<rparr>)
      else None)"

definition recv :: "'n actor \<Rightarrow> 'n actor option" where
  "recv a =
     (case (a_alive a, a_current a, a_mailbox a) of
        (True, None, m # rest) \<Rightarrow> Some (a\<lparr>a_current := Some m, a_mailbox := rest\<rparr>)
      | _ \<Rightarrow> None)"

definition reply :: "'n node_output kernel_result \<Rightarrow> 'n actor \<Rightarrow> 'n actor option" where
  "reply res a =
     (case a_current a of
        Some m \<Rightarrow> Some (a\<lparr>a_current := None, a_replies := a_replies a @ [(m, res)]\<rparr>)
      | None \<Rightarrow> None)"

definition crash :: "'n actor \<Rightarrow> 'n actor option" where
  "crash a =
     (case a_current a of
        Some m \<Rightarrow> Some (a\<lparr>a_alive := False, a_current := None, a_mailbox := [],
          a_replies := a_replies a @ map (\<lambda>m. (m, reply_dropped)) (m # a_mailbox a)\<rparr>)
      | None \<Rightarrow> None)"

subsection \<open>Steps\<close>

text \<open>\<open>exec m res\<close>: the executor, running the node on the message, may return \<open>res\<close>.\<close>

inductive actor_step :: "('n message \<Rightarrow> 'n node_output kernel_result \<Rightarrow> bool) \<Rightarrow>
    'n actor \<Rightarrow> 'n actor \<Rightarrow> bool" for exec where
  step_send: "send m a = Some b \<Longrightarrow> actor_step exec a b"
| step_recv: "recv a = Some b \<Longrightarrow> actor_step exec a b"
| step_reply: "a_current a = Some m \<Longrightarrow> exec m res \<Longrightarrow> no_panic res \<Longrightarrow> reply res a = Some b \<Longrightarrow>
    actor_step exec a b"
| step_crash: "a_current a = Some m \<Longrightarrow> exec m (Panic p) \<Longrightarrow> crash a = Some b \<Longrightarrow> actor_step exec a b"

inductive_cases actor_step_cases: "actor_step exec a b"

text \<open>
  Nothing is lost, duplicated or reordered: the messages answered, the one in execution and those
  in the mailbox are together the messages accepted, in the order they were accepted.
\<close>

definition in_work :: "'n actor \<Rightarrow> 'n message list" where
  "in_work a = (case a_current a of None \<Rightarrow> [] | Some m \<Rightarrow> [m]) @ a_mailbox a"

definition reply_ok :: "('n message \<Rightarrow> 'n node_output kernel_result \<Rightarrow> bool) \<Rightarrow> bool \<Rightarrow>
    'n message \<times> 'n node_output kernel_result \<Rightarrow> bool" where
  "reply_ok exec alive p \<longleftrightarrow>
     (exec (fst p) (snd p) \<and> no_panic (snd p)) \<or> (\<not> alive \<and> snd p = reply_dropped)"

definition actor_inv :: "('n message \<Rightarrow> 'n node_output kernel_result \<Rightarrow> bool) \<Rightarrow> 'n actor \<Rightarrow> bool" where
  "actor_inv exec a \<longleftrightarrow>
     a_sent a = map fst (a_replies a) @ in_work a \<and>
     length (a_mailbox a) \<le> mailbox_capacity \<and>
     (\<not> a_alive a \<longrightarrow> in_work a = []) \<and>
     (\<forall>p \<in> set (a_replies a). reply_ok exec (a_alive a) p) \<and>
     (\<forall>p \<in> set (a_refused a). \<not> a_alive a \<and> snd p = mailbox_closed)"

lemma actor_inv_step:
  assumes inv: "actor_inv exec a" and step: "actor_step exec a b"
  shows "actor_inv exec b"
  using step
proof (cases rule: actor_step_cases [consumes 1])
  case (1 m)
  with inv show ?thesis
    by (auto simp: send_def actor_inv_def in_work_def reply_ok_def split: if_splits option.splits)
next
  case 2
  with inv show ?thesis
    by (auto simp: recv_def actor_inv_def in_work_def reply_ok_def
        split: if_splits option.splits list.splits prod.splits bool.splits)
next
  case (3 m res)
  with inv show ?thesis
    by (auto simp: reply_def actor_inv_def in_work_def reply_ok_def split: option.splits)
next
  case (4 m p)
  with inv show ?thesis
    by (auto simp: crash_def actor_inv_def in_work_def reply_ok_def comp_def split: option.splits)
qed

interpretation actors: step_invariant "\<lambda>a. a = spawn" "actor_step exec" "actor_inv exec" for exec
proof unfold_locales
  show "a = spawn \<Longrightarrow> actor_inv exec a" for a
    by (simp add: actor_inv_def spawn_def in_work_def)
qed (rule actor_inv_step)

subsection \<open>What a call of an actor may answer\<close>

text \<open>
  The task runs the executor on a closure that executes the node anew for each attempt:
  \<open>attempts node ctx input\<close> are the ways in which one execution can end. The executor may return
  whatever \<open>run\<close> returns for some answers of the limiter, some clock, some states of the breaker
  and such attempts; a call answers that, or one of the two errors of the channel.
\<close>

definition executor_returns :: "resilience_config \<Rightarrow> ('n node_output attempt \<Rightarrow> bool) \<Rightarrow>
    'n node_output kernel_result \<Rightarrow> bool" where
  "executor_returns cfg attempt_ok res \<longleftrightarrow>
     (\<exists>limiter_ok now f interfere now' cb. (\<forall>i. attempt_ok (f i)) \<and>
        res = fst (run cfg limiter_ok now f interfere now' cb))"

definition actor_call :: "resilience_config \<Rightarrow>
    ('a \<Rightarrow> node_context \<Rightarrow> 'n node_input \<Rightarrow> 'n node_output attempt \<Rightarrow> bool) \<Rightarrow>
    'a \<Rightarrow> node_context \<Rightarrow> 'n node_input \<Rightarrow> 'n node_output kernel_result \<Rightarrow> bool" where
  "actor_call cfg attempts node ctx input res \<longleftrightarrow>
     executor_returns cfg (attempts node ctx input) res \<or> res = mailbox_closed \<or> res = reply_dropped"

text \<open>A success comes from an execution of the node on the input of the call.\<close>

lemma actor_call_Ok:
  assumes "actor_call cfg attempts node ctx input (Ok out)"
  shows "attempts node ctx input (Completed (Ok out))"
proof -
  have "executor_returns cfg (attempts node ctx input) (Ok out)"
    using assms by (simp add: actor_call_def mailbox_closed_def reply_dropped_def)
  then obtain limiter_ok now f interfere now' cb where f: "\<forall>i. attempts node ctx input (f i)"
    and "fst (run cfg limiter_ok now f interfere now' cb) = Ok out"
    unfolding executor_returns_def by metis
  from run_Ok_lemma [OF this(2)] f show ?thesis by metis
qed

text \<open>The errors that the executor and the channel of an actor add to those of its node.\<close>

definition executor_errors :: "resilience_config \<Rightarrow> kernel_error set" where
  "executor_errors cfg =
     {RateLimited, CircuitOpen, Timeout (rc_timeout cfg), Network ''actor mailbox closed'',
      Network ''actor reply dropped''}"

lemma actor_call_Err:
  assumes "actor_call cfg attempts node ctx input (Err e)"
  shows "e \<in> executor_errors cfg \<or> attempts node ctx input (Completed (Err e))"
proof (cases "executor_returns cfg (attempts node ctx input) (Err e)")
  case True
  then obtain limiter_ok now f interfere now' cb where f: "\<forall>i. attempts node ctx input (f i)"
    and "fst (run cfg limiter_ok now f interfere now' cb) = Err e"
    unfolding executor_returns_def by metis
  from run_Err_lemma [OF this(2)] f show ?thesis by (auto simp: executor_errors_def) (metis)
next
  case False
  with assms show ?thesis
    by (auto simp: actor_call_def mailbox_closed_def reply_dropped_def executor_errors_def)
qed

subsection \<open>Properties of an actor\<close>

text \<open>
  C27: An actor answers the messages its mailbox accepted one at a time in the order it accepted
  them, each at most once: what is answered is a prefix of what was accepted, and the rest is in
  the mailbox, which never holds more than 64, or being executed. Every answer is what the executor
  returned for that message, or, only once the task has died, the error for a dropped reply. A
  call is refused only after that.
\<close>

theorem actor_fifo:
  assumes "(actor_step exec)\<^sup>*\<^sup>* spawn a"
  shows "a_sent a = map fst (a_replies a) @ in_work a \<and> length (a_mailbox a) \<le> 64 \<and>
    (\<forall>p \<in> set (a_replies a). (exec (fst p) (snd p) \<and> no_panic (snd p)) \<or>
       (\<not> a_alive a \<and> snd p = Err (Network ''actor reply dropped''))) \<and>
    (a_refused a \<noteq> [] \<longrightarrow> \<not> a_alive a)"
proof -
  have "actor_inv exec a" by (rule actors.reachable_inv [OF refl assms])
  then show ?thesis
    by (auto simp: actor_inv_def reply_ok_def mailbox_capacity_def reply_dropped_def neq_Nil_conv)
qed

definition sample_message :: "f64 message" where
  "sample_message =
     \<lparr>m_input = \<lparr>in_workflow_id = 0, in_node_id = ''a'', in_payload = JNull, in_parents = bt_new\<rparr>,
      m_ctx = default_context ''t''\<rparr>"

lemma sample_actor_run:
  assumes "exec sample_message (Err RateLimited)"
  shows "(actor_step exec)\<^sup>*\<^sup>* spawn
     (spawn\<lparr>a_sent := [sample_message], a_replies := [(sample_message, Err RateLimited)]\<rparr>)"
proof -
  let ?exec = exec
  have one: "actor_step ?exec spawn (spawn\<lparr>a_sent := [sample_message], a_mailbox := [sample_message]\<rparr>)"
    by (rule step_send [of sample_message]) (simp add: send_def spawn_def mailbox_capacity_def)
  have two: "actor_step ?exec (spawn\<lparr>a_sent := [sample_message], a_mailbox := [sample_message]\<rparr>)
      (spawn\<lparr>a_sent := [sample_message], a_current := Some sample_message\<rparr>)"
    by (rule step_recv) (simp add: recv_def spawn_def)
  have three: "actor_step ?exec (spawn\<lparr>a_sent := [sample_message], a_current := Some sample_message\<rparr>)
      (spawn\<lparr>a_sent := [sample_message], a_replies := [(sample_message, Err RateLimited)]\<rparr>)"
    by (rule step_reply [of _ sample_message _ "Err RateLimited"]) (simp_all add: reply_def spawn_def assms)
  from one two three show ?thesis by (meson r_into_rtranclp rtranclp_trans)
qed

theorem actor_fifo_witness:
  "map fst [(sample_message, Err RateLimited :: f64 node_output kernel_result)] = [sample_message]"
  using actor_fifo [OF sample_actor_run [of "\<lambda>m res. res = Err RateLimited", OF refl]] by (simp add: in_work_def spawn_def)

text \<open>
  The mailbox machine implements the relation by which the scheduler knows its actors: in every
  state that an actor can reach, each answer it gave, also after a panic of its node, and each
  refusal is one that a call may return for the node, the context and the input of that message.
\<close>

theorem actor_implements_call:
  assumes "(actor_step (\<lambda>m res. executor_returns cfg (attempts node (m_ctx m) (m_input m)) res))\<^sup>*\<^sup>* spawn a"
    and "(m, res) \<in> set (a_replies a @ a_refused a)"
  shows "actor_call cfg attempts node (m_ctx m) (m_input m) res"
proof -
  have "actor_inv (\<lambda>m res. executor_returns cfg (attempts node (m_ctx m) (m_input m)) res) a"
    by (rule actors.reachable_inv [OF refl assms(1)])
  with assms(2) show ?thesis
    by (auto simp: actor_inv_def reply_ok_def actor_call_def)
qed

theorem actor_implements_call_witness:
  "actor_call default_resilience (\<lambda>node ctx input a. True) () (m_ctx sample_message) (m_input sample_message)
     (Err RateLimited :: f64 node_output kernel_result)"
proof -
  let ?exec = "\<lambda>m res. executor_returns default_resilience (\<lambda>a. True) (res :: f64 node_output kernel_result)"
  have "?exec sample_message (Err RateLimited)"
    unfolding executor_returns_def
    by (rule exI [where x = False]) (simp add: run_def run_admit_def)
  note run = sample_actor_run [of ?exec, OF this]
  show ?thesis
  proof (rule actor_implements_call)
    show "(actor_step ?exec)\<^sup>*\<^sup>* spawn
        (spawn\<lparr>a_sent := [sample_message], a_replies := [(sample_message, Err RateLimited)]\<rparr>)"
      by (rule run)
  qed (simp add: spawn_def)
qed

end
