(* ===== verification/Hash_Map.thy ===== *)
theory Hash_Map
  imports Prelude "HOL-Library.AList"
begin

section \<open>The hash map of the standard library\<close>

text \<open>
  \<open>std::collections::HashMap\<close>, on which the node registry and the operator registry are built: an
  association list with distinct keys, in an order that the program must not depend on (the
  properties hold for every order). The locale is the contract its clients use: lookup after
  insertion and removal, and the values being those of the keys.
\<close>

type_synonym ('k, 'v) hash_map = "('k \<times> 'v) list"

definition hm_wf :: "('k, 'v) hash_map \<Rightarrow> bool" where
  "hm_wf m \<longleftrightarrow> distinct (map fst m)"

definition hm_new :: "('k, 'v) hash_map" where
  "hm_new = []"

definition hm_get :: "('k, 'v) hash_map \<Rightarrow> 'k \<Rightarrow> 'v option" where
  "hm_get m k = map_of m k"

definition hm_insert :: "'k \<Rightarrow> 'v \<Rightarrow> ('k, 'v) hash_map \<Rightarrow> ('k, 'v) hash_map" where
  "hm_insert k v m = AList.update k v m"

definition hm_remove :: "'k \<Rightarrow> ('k, 'v) hash_map \<Rightarrow> ('k, 'v) hash_map" where
  "hm_remove k m = AList.delete k m"

definition hm_keys :: "('k, 'v) hash_map \<Rightarrow> 'k list" where
  "hm_keys m = map fst m"

definition hm_values :: "('k, 'v) hash_map \<Rightarrow> 'v list" where
  "hm_values m = map snd m"

locale lookup_table =
  fixes empty :: "'m"
    and insert_kv :: "'k \<Rightarrow> 'v \<Rightarrow> 'm \<Rightarrow> 'm"
    and remove_key :: "'k \<Rightarrow> 'm \<Rightarrow> 'm"
    and get :: "'m \<Rightarrow> 'k \<Rightarrow> 'v option"
    and vals :: "'m \<Rightarrow> 'v list"
    and wf :: "'m \<Rightarrow> bool"
  assumes wf_empty: "wf empty"
    and wf_insert: "wf m \<Longrightarrow> wf (insert_kv k v m)"
    and wf_remove: "wf m \<Longrightarrow> wf (remove_key k m)"
    and get_empty: "get empty = Map.empty"
    and get_insert: "get (insert_kv k v m) = (get m)(k \<mapsto> v)"
    and get_remove: "get (remove_key k m) = (get m)(k := None)"
    and set_vals: "wf m \<Longrightarrow> set (vals m) = ran (get m)"
begin

lemma get_insert_same: "get (insert_kv k v m) k = Some v"
  by (simp add: get_insert)

lemma get_insert_other: "l \<noteq> k \<Longrightarrow> get (insert_kv k v m) l = get m l"
  by (simp add: get_insert)

lemma vals_keyed: "wf m \<Longrightarrow> v \<in> set (vals m) \<Longrightarrow> \<exists>k. get m k = Some v"
  by (simp add: set_vals ran_def)

text \<open>A property of every entry survives an insertion of an entry that has it, and a removal.\<close>

lemma all_insert:
  "(\<And>l w. get m l = Some w \<Longrightarrow> P l w) \<Longrightarrow> P k v \<Longrightarrow> get (insert_kv k v m) l = Some w \<Longrightarrow> P l w"
  by (auto simp: get_insert split: if_splits)

lemma all_remove:
  "(\<And>l w. get m l = Some w \<Longrightarrow> P l w) \<Longrightarrow> get (remove_key k m) l = Some w \<Longrightarrow> P l w"
  by (auto simp: get_remove split: if_splits)

end

lemma hm_get_map_of: "hm_get m = map_of m"
  by (rule ext) (simp add: hm_get_def)

interpretation hm: lookup_table hm_new hm_insert hm_remove hm_get hm_values hm_wf
proof unfold_locales
  show "hm_wf m \<Longrightarrow> hm_wf (hm_insert k v m)" for m :: "('a \<times> 'b) list" and k v
    by (simp add: hm_wf_def hm_insert_def distinct_update)
  show "hm_wf m \<Longrightarrow> hm_wf (hm_remove k m)" for m :: "('a \<times> 'b) list" and k
    by (simp add: hm_wf_def hm_remove_def distinct_delete)
  show "hm_get (hm_remove k m) = (hm_get m)(k := None)" for m :: "('a \<times> 'b) list" and k
    by (auto simp: hm_get_def hm_remove_def delete_conv')
  show "hm_wf m \<Longrightarrow> set (hm_values m) = ran (hm_get m)" for m :: "('a \<times> 'b) list"
    by (simp add: hm_wf_def hm_values_def hm_get_map_of ran_distinct)
qed (auto simp: hm_wf_def hm_new_def hm_get_def hm_insert_def update_conv')

end
