(* ===== verification/Capability.thy ===== *)
theory Capability
  imports Prelude
begin

section \<open>Capabilities and resources (capability.rs)\<close>

text \<open>
  What a task requires and what an operator offers, with the check \<open>satisfies\<close>. Requirements and
  capacities have the same fields; the derived order on capacities is what the check is monotone
  in.
\<close>

datatype capability = GenericCpu | WasmHost | HttpEgress | OnchainRpc | GpuProver u32 | Custom string

record resource_requirements =
  req_cpu_cores :: u32
  req_ram_mb :: u32
  req_gpu_vram_mb :: u32
  req_capabilities :: "capability list"

record resource_capacity =
  cpu_cores :: u32
  ram_mb :: u32
  gpu_vram_mb :: u32
  capabilities :: "capability list"

definition default_requirements :: resource_requirements where
  "default_requirements =
     \<lparr>req_cpu_cores = 0, req_ram_mb = 0, req_gpu_vram_mb = 0, req_capabilities = []\<rparr>"

definition satisfies :: "resource_capacity \<Rightarrow> resource_requirements \<Rightarrow> bool" where
  "satisfies c req =
     (if cpu_cores c < req_cpu_cores req then False
      else if ram_mb c < req_ram_mb req then False
      else if gpu_vram_mb c < req_gpu_vram_mb req then False
      else list_all (\<lambda>cap. cap \<in> set (capabilities c)) (req_capabilities req))"

record reservation =
  rv_op_id :: string
  rv_req :: resource_requirements

lemma satisfies_iff:
  "satisfies c req \<longleftrightarrow>
     unat (req_cpu_cores req) \<le> unat (cpu_cores c) \<and> unat (req_ram_mb req) \<le> unat (ram_mb c) \<and>
     unat (req_gpu_vram_mb req) \<le> unat (gpu_vram_mb c) \<and>
     set (req_capabilities req) \<subseteq> set (capabilities c)"
  by (auto simp: satisfies_def word_less_nat_alt list_all_iff not_less)

end
