(* ===== verification/F64_Rounding.thy ===== *)
theory F64_Rounding
  imports F64
begin

section \<open>Rounding as a function on the reals\<close>

text \<open>
  The value of a finite number, the rounding of a real to the bit pattern of the nearest number,
  and the proof that the integer computation of \<open>round_mag\<close> is that rounding. What the other
  components use is at the end: the value of a sum, a product and a half is the rounded exact
  result, and rounding keeps bounds that are themselves representable.
\<close>

definition mag_val :: "nat \<Rightarrow> real" where
  "mag_val m = real (mant m) * 2 powi expo m"

definition f64_val :: "f64 \<Rightarrow> real" where
  "f64_val x = (if f64_neg x then - mag_val (f64_mag x) else mag_val (f64_mag x))"

definition rhe :: "real \<Rightarrow> int" where
  "rhe r = (if r - \<lfloor>r\<rfloor> < 1 / 2 \<or> (r - \<lfloor>r\<rfloor> = 1 / 2 \<and> even \<lfloor>r\<rfloor>) then \<lfloor>r\<rfloor> else \<lfloor>r\<rfloor> + 1)"

definition rexp :: "real \<Rightarrow> int" where
  "rexp x = max (- 1074) (\<lfloor>log 2 x\<rfloor> - 52)"

definition rnd_mag :: "real \<Rightarrow> nat" where
  "rnd_mag x =
     (if x \<le> 0 then 0
      else min mag_inf (nat ((rexp x + 1074) * 2 ^ 52 + rhe (x / 2 powi rexp x))))"

definition rnd_key :: "real \<Rightarrow> int" where
  "rnd_key x = (if x < 0 then - int (rnd_mag (- x)) else int (rnd_mag x))"

subsection \<open>Rounding to an integer\<close>

lemma rhe_bounds: "\<lfloor>r\<rfloor> \<le> rhe r" "rhe r \<le> \<lfloor>r\<rfloor> + 1"
  by (auto simp: rhe_def)

lemma rhe_of_int [simp]: "rhe (of_int k) = k"
  by (simp add: rhe_def)

lemma rhe_mono:
  assumes "x \<le> y"
  shows "rhe x \<le> rhe y"
proof (cases "\<lfloor>x\<rfloor> = \<lfloor>y\<rfloor>")
  case True
  with assms show ?thesis by (auto simp: rhe_def)
next
  case False
  with floor_mono [OF assms] have "\<lfloor>x\<rfloor> + 1 \<le> \<lfloor>y\<rfloor>" by linarith
  with rhe_bounds(2) [of x] rhe_bounds(1) [of y] show ?thesis by linarith
qed

lemma rhe_nonneg: "0 \<le> x \<Longrightarrow> 0 \<le> rhe x"
  using rhe_mono [of 0 x] rhe_of_int [of 0] by simp

lemma rhe_le_int: "x \<le> of_int k \<Longrightarrow> rhe x \<le> k"
  using rhe_mono [of x "of_int k"] by simp

lemma rhe_ge_int: "of_int k \<le> x \<Longrightarrow> k \<le> rhe x"
  using rhe_mono [of "of_int k" x] by simp

lemma real_div_mod: "real m = real (m div 2 ^ s) * 2 ^ s + real (m mod 2 ^ s)"
proof -
  have "real m = real (m div 2 ^ s * 2 ^ s + m mod 2 ^ s)" by (simp only: div_mult_mod_eq)
  then show ?thesis by (simp only: of_nat_add of_nat_mult of_nat_power of_nat_numeral)
qed

lemma nat_scale: "0 \<le> a \<Longrightarrow> nat (a * 2 ^ 52 + int k) = nat a * 2 ^ 52 + k"
  by (simp add: nat_add_distrib nat_mult_distrib)

lemma rhe_rne: "rhe (real m / 2 ^ s) = int (rne m s)"
proof -
  let ?q = "m div 2 ^ s" and ?r = "m mod 2 ^ s"
  have "\<lfloor>real m / 2 ^ s\<rfloor> = int ?q"
    using floor_divide_of_nat_eq [of m "2 ^ s"] by simp
  moreover have "real m / 2 ^ s - real ?q = real ?r / 2 ^ s"
    using real_div_mod [of m s] by (simp add: field_simps)
  ultimately have "rhe (real m / 2 ^ s) =
      (if real ?r / 2 ^ s < 1 / 2 \<or> (real ?r / 2 ^ s = 1 / 2 \<and> even ?q) then int ?q else int ?q + 1)"
    by (simp add: rhe_def)
  moreover have "real ?r / 2 ^ s < 1 / 2 \<longleftrightarrow> 2 * ?r < 2 ^ s"
    using of_nat_less_iff [of "2 * ?r" "2 ^ s", where ?'a = real] by (simp add: field_simps)
  moreover have "real ?r / 2 ^ s = 1 / 2 \<longleftrightarrow> 2 * ?r = 2 ^ s"
    using of_nat_eq_iff [of "2 * ?r" "2 ^ s", where ?'a = real] by (auto simp: field_simps)
  ultimately show ?thesis by (simp add: rne_def Let_def)
qed

subsection \<open>The scaled significand\<close>

lemma powi_split: "2 powi (a + b) = (2::real) powi a * 2 powi b"
  by (simp add: power_int_add)

lemma powi_nat: "0 \<le> k \<Longrightarrow> (2::real) powi k = 2 ^ nat k"
  by (simp add: power_int_def)

lemma powi_pos [simp]: "0 < (2::real) powi k"
  by simp

lemma scaled_upper:
  assumes "0 < x"
  shows "x / 2 powi rexp x < 2 ^ 53"
proof -
  have "log 2 x < real_of_int (rexp x + 53)"
    unfolding rexp_def by linarith
  then have "x < 2 powr (real_of_int (rexp x + 53))"
    using assms by (simp add: less_powr_iff)
  also have "\<dots> = 2 powi (rexp x + 53)" by (rule powr_real_of_int')  simp_all
  also have "\<dots> = 2 powi rexp x * 2 ^ 53" by (simp add: powi_split)
  finally show ?thesis by (simp add: field_simps)
qed

lemma scaled_lower:
  assumes "0 < x" and "- 1074 < rexp x"
  shows "2 ^ 52 \<le> x / 2 powi rexp x"
proof -
  have "real_of_int (rexp x + 52) \<le> log 2 x"
    using assms(2) unfolding rexp_def by linarith
  then have "2 powr (real_of_int (rexp x + 52)) \<le> x"
    using assms by (simp add: powr_le_iff)
  moreover have "2 powr (real_of_int (rexp x + 52)) = 2 powi (rexp x + 52)"
    by (rule powr_real_of_int') simp_all
  ultimately have "2 powi rexp x * 2 ^ 52 \<le> x" by (simp add: powi_split)
  then show ?thesis by (simp add: field_simps)
qed

lemma rexp_mono: "0 < x \<Longrightarrow> x \<le> y \<Longrightarrow> rexp x \<le> rexp y"
proof -
  assume "0 < x" "x \<le> y"
  then have "\<lfloor>log 2 x\<rfloor> \<le> \<lfloor>log 2 y\<rfloor>" by (intro floor_mono) simp
  then show ?thesis unfolding rexp_def by linarith
qed

lemma rexp_ge: "- 1074 \<le> rexp x"
  by (simp add: rexp_def)

subsection \<open>Rounding is monotone\<close>

lemma rnd_mag_mono:
  assumes "x \<le> y"
  shows "rnd_mag x \<le> rnd_mag y"
proof (cases "x \<le> 0")
  case True
  then show ?thesis by (simp add: rnd_mag_def)
next
  case False
  then have x: "0 < x" and y: "0 < y" using assms by auto
  let ?u = "x / 2 powi rexp x" and ?v = "y / 2 powi rexp y"
  have le: "(rexp x + 1074) * 2 ^ 52 + rhe ?u \<le> (rexp y + 1074) * 2 ^ 52 + rhe ?v"
  proof (cases "rexp x = rexp y")
    case True
    then have "?u \<le> ?v" using assms by (simp add: divide_right_mono)
    then show ?thesis using True rhe_mono by simp
  next
    case False
    then have lt: "rexp x + 1 \<le> rexp y" using rexp_mono [OF x assms] by simp
    have "rhe ?u \<le> 2 ^ 53" using scaled_upper [OF x] by (intro rhe_le_int) simp
    moreover have "2 ^ 52 \<le> rhe ?v"
      using scaled_lower [OF y] lt rexp_ge [of x] by (intro rhe_ge_int) simp
    ultimately show ?thesis using lt by simp
  qed
  then show ?thesis using x y by (auto simp: rnd_mag_def)
qed

lemma rnd_mag_0 [simp]: "rnd_mag 0 = 0"
  by (simp add: rnd_mag_def)

lemma rnd_key_mono: "x \<le> y \<Longrightarrow> rnd_key x \<le> rnd_key y"
  by (auto simp: rnd_key_def intro: rnd_mag_mono)

subsection \<open>The integer computation is that rounding\<close>

lemma floor_log_scaled:
  assumes "0 < m"
  shows "\<lfloor>log 2 (real m * 2 powi e)\<rfloor> = int (floorlog 2 m) - 1 + e"
proof -
  have "log 2 (real m * 2 powi e) = log 2 (real m) + log 2 (2 powi e)"
    using assms by (simp add: log_mult)
  also have "log 2 ((2::real) powi e) = of_int e"
    by (subst powr_real_of_int' [symmetric]) simp_all
  finally have "\<lfloor>log 2 (real m * 2 powi e)\<rfloor> = \<lfloor>log 2 (real m)\<rfloor> + e" by simp
  moreover have "int (floorlog 2 m) = \<lfloor>log 2 (real m)\<rfloor> + 1"
    using assms by (simp add: floorlog_def)
  ultimately show ?thesis by simp
qed

lemma round_mag_rnd: "round_mag m e = rnd_mag (real m * 2 powi e)"
proof (cases "m = 0")
  case True
  then show ?thesis by (simp add: round_mag_def)
next
  case False
  let ?x = "real m * 2 powi e" and ?t = "max (- 1074) (e + int (floorlog 2 m) - 53)"
  have t: "rexp ?x = ?t"
    using False floor_log_scaled [of m e] by (simp add: rexp_def algebra_simps)
  have q: "rhe (?x / 2 powi ?t) =
      int (if ?t \<le> e then m * 2 ^ nat (e - ?t) else rne m (nat (?t - e)))"
  proof (cases "?t \<le> e")
    case True
    have "?x / 2 powi ?t = real m * 2 powi (e - ?t)" by (simp add: power_int_diff)
    also have "\<dots> = of_int (int (m * 2 ^ nat (e - ?t)))"
      using True by (simp only: powi_nat diff_ge_0_iff_ge) simp
    finally show ?thesis using True by (simp only: rhe_of_int if_True)
  next
    case False
    then have "?x / 2 powi ?t = real m / 2 powi (?t - e)" by (simp add: power_int_diff)
    also have "\<dots> = real m / 2 ^ nat (?t - e)"
      using False by (simp only: powi_nat diff_ge_0_iff_ge not_le less_imp_le)
    finally show ?thesis using False by (simp only: rhe_rne if_False)
  qed
  have "nat ((?t + 1074) * 2 ^ 52 + int k) = nat (?t + 1074) * 2 ^ 52 + k" for k
    by (rule nat_scale) simp
  moreover have "\<not> ?x \<le> 0" using False by (simp add: not_le)
  ultimately show ?thesis using False q by (simp add: rnd_mag_def round_mag_def t Let_def)
qed

subsection \<open>Numbers are rounded to themselves\<close>

lemma floorlog_eq:
  assumes "2 ^ k \<le> m" and "m < 2 ^ (k + 1)"
  shows "floorlog 2 m = k + 1"
  using floorlog_ge_SucI [OF assms(1)] floorlog_leI [OF assms(2)] by simp

lemma floorlog_le: "m < 2 ^ k \<Longrightarrow> floorlog 2 m \<le> k"
  by (simp add: floorlog_le_iff)

lemma round_mag_exact: "round_mag (mant m) (expo m) = min mag_inf m"
proof (cases "m < 2 ^ 52")
  case True
  then have "floorlog 2 m \<le> 52" by (rule floorlog_le)
  then show ?thesis
    using True by (simp add: round_mag_def mant_def expo_def Let_def)
next
  case False
  let ?e = "m div 2 ^ 52" and ?f = "m mod 2 ^ 52"
  have f: "?f < 2 ^ 52" by simp
  have "floorlog 2 (2 ^ 52 + ?f) = 52 + 1"
    using f by (intro floorlog_eq) simp_all
  moreover have "1 \<le> ?e" using False by (simp add: div_greater_zero_iff Suc_le_eq)
  moreover have m: "?e * 2 ^ 52 + ?f = m" by (rule div_mult_mod_eq)
  ultimately have "round_mag (mant m) (expo m) = min mag_inf ((?e - 1) * 2 ^ 52 + (2 ^ 52 + ?f))"
    using False by (simp add: round_mag_def mant_def expo_def Let_def nat_diff_distrib)
  also have "(?e - 1) * 2 ^ 52 + (2 ^ 52 + ?f) = m"
    using m \<open>1 \<le> ?e\<close> by (simp add: diff_mult_distrib)
  finally show ?thesis .
qed

lemma rnd_mag_val_min: "rnd_mag (mag_val m) = min mag_inf m"
  by (metis mag_val_def round_mag_exact round_mag_rnd)

lemma rnd_mag_val: "m < mag_inf \<Longrightarrow> rnd_mag (mag_val m) = m"
  by (simp add: rnd_mag_val_min)

lemma mag_val_nonneg: "0 \<le> mag_val m"
  by (simp add: mag_val_def)

lemma mag_val_0 [simp]: "mag_val 0 = 0"
  by (simp add: mag_val_def mant_def)

lemma rnd_key_val:
  assumes "f64_is_finite x"
  shows "rnd_key (f64_val x) = f64_key x"
proof (cases "mag_val (f64_mag x) = 0")
  case True
  with assms rnd_mag_val [of "f64_mag x"] have "f64_mag x = 0" by (simp add: f64_is_finite_def)
  then show ?thesis by (simp add: rnd_key_def f64_val_def f64_key_def)
next
  case False
  then have "0 < mag_val (f64_mag x)" using mag_val_nonneg [of "f64_mag x"] by simp
  with assms show ?thesis
    by (simp add: rnd_key_def f64_val_def f64_key_def f64_is_finite_def rnd_mag_val)
qed

subsection \<open>The interface: monotone rounding that keeps numbers\<close>

locale rounding =
  fixes rnd :: "real \<Rightarrow> int"
    and val :: "'f \<Rightarrow> real"
    and key :: "'f \<Rightarrow> int"
    and representable :: "'f \<Rightarrow> bool"
  assumes rnd_mono: "x \<le> y \<Longrightarrow> rnd x \<le> rnd y"
    and rnd_val: "representable a \<Longrightarrow> rnd (val a) = key a"
    and val_key: "representable a \<Longrightarrow> representable b \<Longrightarrow> key a = key b \<Longrightarrow> val a = val b"
begin

lemma rnd_upper: "representable b \<Longrightarrow> x \<le> val b \<Longrightarrow> rnd x \<le> key b"
  using rnd_mono rnd_val by metis

lemma rnd_lower: "representable a \<Longrightarrow> val a \<le> x \<Longrightarrow> key a \<le> rnd x"
  using rnd_mono rnd_val by metis

lemma key_le_iff: "representable a \<Longrightarrow> representable b \<Longrightarrow> key a \<le> key b \<longleftrightarrow> val a \<le> val b"
  by (metis linorder_le_cases order_antisym rnd_mono rnd_val val_key)

lemma key_less_iff: "representable a \<Longrightarrow> representable b \<Longrightarrow> key a < key b \<longleftrightarrow> val a < val b"
  using key_le_iff [of b a] by (simp add: not_le [symmetric])

lemma rnd_between:
  "representable a \<Longrightarrow> representable b \<Longrightarrow> val a \<le> x \<Longrightarrow> x \<le> val b \<Longrightarrow>
   key a \<le> rnd x \<and> rnd x \<le> key b"
  by (simp add: rnd_lower rnd_upper)

end

lemma f64_val_key_inj: "f64_key a = f64_key b \<Longrightarrow> f64_val a = f64_val b"
proof -
  assume eq: "f64_key a = f64_key b"
  then have m: "f64_mag a = f64_mag b" by (metis abs_f64_key of_nat_eq_iff)
  show ?thesis
  proof (cases "f64_neg a = f64_neg b")
    case True
    with m show ?thesis by (simp add: f64_val_def)
  next
    case False
    with eq m have "f64_mag a = 0" by (auto simp: f64_key_def split: if_splits)
    with m show ?thesis by (simp add: f64_val_def)
  qed
qed

interpretation rn: rounding rnd_key f64_val f64_key f64_is_finite
  by unfold_locales (auto intro: rnd_key_mono rnd_key_val f64_val_key_inj)

subsection \<open>The operations round the exact result\<close>

lemma rnd_key_uminus: "rnd_key (- x) = - rnd_key x"
  by (cases x "0 :: real" rule: linorder_cases) (simp_all add: rnd_key_def)

lemma rnd_key_nonneg: "0 \<le> x \<Longrightarrow> rnd_key x = int (rnd_mag x)"
  by (simp add: rnd_key_def)

lemma rnd_key_pack: "f64_key (f64_pack s (round_mag m e)) =
    rnd_key ((if s then - 1 else 1) * (real m * 2 powi e))"
  using f64_key_pack [OF round_mag_lt, of s m e] by (simp add: round_mag_rnd rnd_key_uminus rnd_key_nonneg)

lemma f64_val_mant: "f64_val x = real_of_int (f64_signed_mant x) * 2 powi expo (f64_mag x)"
  by (simp add: f64_val_def mag_val_def f64_signed_mant_def)

lemma not_nan_pack [simp]: "\<not> f64_is_nan (f64_pack s (round_mag m e))"
  using round_mag_le [of m e] by (simp add: f64_is_nan_def not_less)

lemma key_mul:
  assumes "f64_is_finite a" and "f64_is_finite b"
  shows "f64_key (f64_mul a b) = rnd_key (f64_val a * f64_val b)"
    and "\<not> f64_is_nan (f64_mul a b)"
  using finite_not_nan [OF assms(1)] finite_not_nan [OF assms(2)]
  by (auto simp: f64_mul_def rnd_key_pack Let_def f64_val_def mag_val_def powi_split ac_simps)

lemma key_half:
  assumes "f64_is_finite a"
  shows "f64_key (f64_half a) = rnd_key (f64_val a / 2)" and "\<not> f64_is_nan (f64_half a)"
  using finite_not_nan [OF assms]
  by (auto simp: f64_half_def rnd_key_pack f64_val_def mag_val_def power_int_diff)

lemma f64_add_finite:
  assumes "f64_is_finite a" and "f64_is_finite b"
  obtains n e where "f64_val a + f64_val b = real_of_int n * 2 powi e"
    and "f64_add a b = (if n = 0 then f64_pack (f64_neg a \<and> f64_neg b) 0
                        else f64_pack (n < 0) (round_mag (nat \<bar>n\<bar>) e))"
proof -
  let ?ea = "expo (f64_mag a)" and ?eb = "expo (f64_mag b)"
  let ?e = "min ?ea ?eb"
  let ?n = "f64_signed_mant a * 2 ^ nat (?ea - ?e) + f64_signed_mant b * 2 ^ nat (?eb - ?e)"
  have scale: "(2::real) powi k = 2 ^ nat (k - ?e) * 2 powi ?e" if "?e \<le> k" for k
    using that powi_split [of "k - ?e" ?e] powi_nat [of "k - ?e"] by simp
  have "f64_val a + f64_val b = real_of_int ?n * 2 powi ?e"
    using scale [of ?ea] scale [of ?eb] by (simp add: f64_val_mant algebra_simps)
  then show thesis
    using that [of ?n ?e] finite_not_nan [OF assms(1)] finite_not_nan [OF assms(2)]
    by (simp add: f64_add_def Let_def)
qed

lemma key_add:
  assumes "f64_is_finite a" and "f64_is_finite b"
  shows "f64_key (f64_add a b) = rnd_key (f64_val a + f64_val b)"
    and "\<not> f64_is_nan (f64_add a b)"
proof -
  obtain n e where val: "f64_val a + f64_val b = real_of_int n * 2 powi e"
    and add: "f64_add a b = (if n = 0 then f64_pack (f64_neg a \<and> f64_neg b) 0
                        else f64_pack (n < 0) (round_mag (nat \<bar>n\<bar>) e))"
    using f64_add_finite [OF assms] .
  show "f64_key (f64_add a b) = rnd_key (f64_val a + f64_val b)"
  proof (cases "n = 0")
    case True
    with val show ?thesis by (simp add: add f64_key_pack rnd_key_def)
  next
    case False
    then have "real (nat \<bar>n\<bar>) * (if n < 0 then - 1 else 1) = real_of_int n" by auto
    with False show ?thesis by (auto simp: add val rnd_key_pack)
  qed
  show "\<not> f64_is_nan (f64_add a b)"
    by (simp add: add) (simp add: f64_is_nan_def)
qed

lemma f64_val_minus [simp]: "f64_val (f64_minus x) = - f64_val x"
  by (simp add: f64_val_def)

lemma f64_val_abs [simp]: "f64_val (f64_abs x) = \<bar>f64_val x\<bar>"
  using mag_val_nonneg [of "f64_mag x"] by (simp add: f64_val_def)

lemma key_sub:
  assumes "f64_is_finite a" and "f64_is_finite b"
  shows "f64_key (f64_sub a b) = rnd_key (f64_val a - f64_val b)"
    and "\<not> f64_is_nan (f64_sub a b)"
  using key_add [of a "f64_minus b"] assms by (simp_all add: f64_sub_def)

lemma finite_key: "\<not> f64_is_nan x \<Longrightarrow> f64_is_finite x \<longleftrightarrow> \<bar>f64_key x\<bar> < int mag_inf"
  by (simp only: abs_f64_key f64_is_finite_def of_nat_less_iff)

text \<open>A result whose key lies between the keys of two finite numbers is finite.\<close>

lemma finite_between:
  assumes "f64_is_finite a" and "f64_is_finite b" and "\<not> f64_is_nan x"
    and "f64_key a \<le> f64_key x" and "f64_key x \<le> f64_key b"
  shows "f64_is_finite x"
proof -
  have "\<bar>f64_key a\<bar> < int mag_inf" "\<bar>f64_key b\<bar> < int mag_inf"
    using assms(1,2) by (simp_all only: abs_f64_key f64_is_finite_def of_nat_less_iff)
  with assms(4,5) have "\<bar>f64_key x\<bar> < int mag_inf" by linarith
  with assms(3) show ?thesis by (simp add: finite_key)
qed

subsection \<open>Half of a rounded sum\<close>

text \<open>Twice a number is a number, except beyond the largest finite one.\<close>

definition mag_dbl :: "nat \<Rightarrow> nat" where
  "mag_dbl m = (if m < 2 ^ 52 then 2 * m else m + 2 ^ 52)"

lemma mag_val_dbl: "mag_val (mag_dbl m) = 2 * mag_val m"
proof (cases "m < 2 ^ 52")
  case True
  have m2: "mag_val (2 * m) = real (2 * m) * 2 powi - 1074"
  proof (cases "2 * m < 2 ^ 52")
    case True
    then show ?thesis by (simp add: mag_val_def mant_def expo_def)
  next
    case False
    with True have "2 * m div 2 ^ 52 = 1" "2 * m mod 2 ^ 52 = 2 * m - 2 ^ 52"
      by (auto intro!: div_nat_eqI simp: mod_nat_eqI le_mod_geq)
    with False show ?thesis by (simp add: mag_val_def mant_def expo_def)
  qed
  with True show ?thesis by (simp add: mag_dbl_def mag_val_def mant_def expo_def)
next
  case False
  have "expo (m + 2 ^ 52) = expo m + 1" "mant (m + 2 ^ 52) = mant m"
    using False by (simp_all add: expo_def mant_def)
  with False show ?thesis by (simp add: mag_dbl_def mag_val_def powi_split)
qed

lemma mag_val_mono: "m \<le> n \<Longrightarrow> n < mag_inf \<Longrightarrow> mag_val m \<le> mag_val n"
  using rnd_mag_val [of m] rnd_mag_val [of n] rnd_mag_mono [of "mag_val n" "mag_val m"]
  by (cases "mag_val m \<le> mag_val n") auto

lemma mag_val_max: "m < mag_inf \<Longrightarrow> mag_val m \<le> mag_val mag_inf"
proof -
  assume "m < mag_inf"
  then have "mag_val m \<le> mag_val (mag_inf - 1)" by (intro mag_val_mono) auto
  also have "\<dots> \<le> mag_val mag_inf"
  proof -
    have "(2 :: real) powi 972 = 2 * 2 powi 971" by (simp add: power_int_def)
    then show ?thesis by (simp add: mag_val_def mag_inf_def mant_def expo_def)
  qed
  finally show ?thesis .
qed

lemma half_lower:
  assumes a: "f64_is_finite a" and s: "f64_is_finite s" and y: "2 * f64_val a \<le> y"
    and key: "f64_key s = rnd_key y"
  shows "f64_key a \<le> rnd_key (f64_val s / 2)"
proof -
  let ?M = "mag_dbl (f64_mag a)"
  have two: "2 * f64_val a = (if f64_neg a then - mag_val ?M else mag_val ?M)"
    by (simp add: f64_val_def mag_val_dbl)
  have fin_s: "\<bar>f64_key s\<bar> < int mag_inf"
    using s by (simp only: abs_f64_key f64_is_finite_def of_nat_less_iff)
  have low: "rnd_key (2 * f64_val a) \<le> f64_key s" unfolding key by (rule rnd_key_mono [OF y])
  have "2 * f64_val a \<le> f64_val s"
  proof (cases "?M < mag_inf")
    case True
    let ?a2 = "f64_pack (f64_neg a) ?M"
    have "?M < 2 ^ 63" using True mag_inf_lt by simp
    then have "f64_is_finite ?a2" "f64_val ?a2 = 2 * f64_val a"
      using True by (simp_all add: f64_is_finite_def f64_val_def mag_val_dbl)
    then show ?thesis using low rn.rnd_val [of ?a2] rn.key_le_iff [OF _ s, of ?a2] by simp
  next
    case False
    then have "rnd_mag (mag_val ?M) = mag_inf" by (simp add: rnd_mag_val_min)
    then have neg: "f64_neg a"
      using low fin_s two mag_val_nonneg [of ?M] by (cases "f64_neg a") (auto simp: rnd_key_nonneg)
    have "mag_inf - 2 ^ 52 \<le> f64_mag a" using False by (auto simp: mag_dbl_def mag_inf_def split: if_splits)
    then have "mag_val (mag_inf - 2 ^ 52) \<le> mag_val (f64_mag a)"
      using a by (intro mag_val_mono) (auto simp: f64_is_finite_def)
    moreover have "mag_val mag_inf = 2 * mag_val (mag_inf - 2 ^ 52)"
      using mag_val_dbl [of "mag_inf - 2 ^ 52"] by (simp add: mag_dbl_def mag_inf_def)
    moreover have "mag_val (f64_mag s) \<le> mag_val mag_inf"
      using s by (intro mag_val_max) (simp add: f64_is_finite_def)
    ultimately have "mag_val (f64_mag s) \<le> 2 * mag_val (f64_mag a)" by simp
    then show ?thesis
      using neg mag_val_nonneg [of "f64_mag s"] mag_val_nonneg [of "f64_mag a"]
      by (cases "f64_neg s") (simp_all add: f64_val_def)
  qed
  then show ?thesis by (intro rn.rnd_lower [OF a]) simp
qed

text \<open>The midpoint of two numbers lies between them unless their sum overflows.\<close>

lemma half_sum_between:
  assumes a: "f64_is_finite a" and b: "f64_is_finite b" and le: "f64_key a \<le> f64_key b"
    and sum: "f64_is_finite (f64_add a b)"
  shows "f64_key a \<le> f64_key (f64_half (f64_add a b)) \<and> f64_key (f64_half (f64_add a b)) \<le> f64_key b"
proof -
  let ?s = "f64_add a b"
  have vals: "f64_val a \<le> f64_val b" using rn.key_le_iff [OF a b] le by simp
  have "f64_key a \<le> rnd_key (f64_val ?s / 2)"
    by (rule half_lower [OF a sum _ key_add(1) [OF a b]]) (use vals in simp)
  moreover have "f64_key (f64_minus b) \<le> rnd_key (f64_val (f64_minus ?s) / 2)"
  proof (rule half_lower [where y = "- (f64_val a + f64_val b)"])
    show "f64_key (f64_minus ?s) = rnd_key (- (f64_val a + f64_val b))"
      by (simp only: rnd_key_uminus f64_minus_simps key_add(1) [OF a b])
  qed (use vals b sum in simp_all)
  ultimately show ?thesis
    using rnd_key_uminus [of "f64_val ?s / 2"] by (simp add: key_half(1) [OF sum])
qed

lemma half_finite_iff:
  assumes "f64_is_finite a" and "f64_is_finite b"
  shows "f64_is_finite (f64_half (f64_add a b)) \<Longrightarrow> f64_is_finite (f64_add a b)"
  using key_add(2) [OF assms] by (auto simp: f64_half_def nan_cases finite_not_nan split: if_splits)

end
