(* ===== verification/Sort_By.thy ===== *)
theory Sort_By
  imports F64
begin

section \<open>Sorting by a comparison\<close>

text \<open>
  \<open>slice::sort_by\<close>, a stable sort by a comparison function, with which the median node sorts its
  numbers and the matchmaker its candidates. The locale states when a comparison is a total order
  on the elements that occur: it compares integer keys. Its consequences are what the clients need:
  the result is sorted by the keys, and its keys do not depend on the order of the input.
\<close>

fun insert_by :: "('a \<Rightarrow> 'a \<Rightarrow> ordering) \<Rightarrow> 'a \<Rightarrow> 'a list \<Rightarrow> 'a list" where
  "insert_by cmp a [] = [a]"
| "insert_by cmp a (b # bs) = (if cmp a b = Greater then b # insert_by cmp a bs else a # b # bs)"

fun sort_by :: "('a \<Rightarrow> 'a \<Rightarrow> ordering) \<Rightarrow> 'a list \<Rightarrow> 'a list" where
  "sort_by cmp [] = []"
| "sort_by cmp (a # as) = insert_by cmp a (sort_by cmp as)"

lemma mset_insert_by [simp]: "mset (insert_by cmp a bs) = add_mset a (mset bs)"
  by (induction bs) auto

lemma mset_sort_by [simp]: "mset (sort_by cmp xs) = mset xs"
  by (induction xs) auto

lemma length_sort_by [simp]: "length (sort_by cmp xs) = length xs"
  by (metis mset_sort_by size_mset)

lemma set_sort_by [simp]: "set (sort_by cmp xs) = set xs"
  by (metis mset_sort_by set_mset_mset)

lemma set_insert_by [simp]: "set (insert_by cmp a bs) = insert a (set bs)"
  by (induction bs) auto

lemma sort_by_Nil [simp]: "sort_by cmp xs = [] \<longleftrightarrow> xs = []"
  by (metis length_0_conv length_sort_by)

locale key_comparison =
  fixes cmp :: "'a \<Rightarrow> 'a \<Rightarrow> ordering"
    and key :: "'a \<Rightarrow> int"
    and ok :: "'a \<Rightarrow> bool"
  assumes cmp_greater: "ok a \<Longrightarrow> ok b \<Longrightarrow> cmp a b = Greater \<longleftrightarrow> key b < key a"
begin

lemma insert_sorted:
  "ok a \<Longrightarrow> \<forall>b \<in> set bs. ok b \<Longrightarrow> sorted (map key bs) \<Longrightarrow> sorted (map key (insert_by cmp a bs))"
  by (induction bs) (auto simp: cmp_greater)

lemma sort_sorted: "\<forall>a \<in> set xs. ok a \<Longrightarrow> sorted (map key (sort_by cmp xs))"
  by (induction xs) (auto simp: insert_sorted)

lemma sort_keys:
  assumes "mset xs = mset ys" and "\<forall>a \<in> set xs. ok a"
  shows "map key (sort_by cmp xs) = map key (sort_by cmp ys)"
proof -
  have "\<forall>a \<in> set ys. ok a" using assms by (metis set_mset_mset)
  then have "sorted (map key (sort_by cmp xs))" "sorted (map key (sort_by cmp ys))"
    using assms(2) sort_sorted by simp_all
  moreover have "mset (map key (sort_by cmp xs)) = mset (map key (sort_by cmp ys))"
    using assms(1) by simp
  ultimately show ?thesis using properties_for_sort sorted_sort_id by metis
qed

text \<open>The first element of the result has the least key.\<close>

lemma sort_first:
  assumes "\<forall>a \<in> set xs. ok a" and "a \<in> set xs"
  shows "sort_by cmp xs ! 0 \<in> set xs \<and> key (sort_by cmp xs ! 0) \<le> key a"
proof -
  have ne: "sort_by cmp xs \<noteq> []" using assms(2) by auto
  then have "sort_by cmp xs ! 0 \<in> set (sort_by cmp xs)" by (metis length_greater_0_conv nth_mem)
  moreover have "key (sort_by cmp xs ! 0) \<le> key a"
  proof -
    obtain b bs where s: "sort_by cmp xs = b # bs" using ne by (cases "sort_by cmp xs") auto
    have "a \<in> set (b # bs)" using assms(2) s by (metis set_sort_by)
    moreover have "sorted (map key (b # bs))" using sort_sorted [OF assms(1)] s by simp
    ultimately show ?thesis using s by auto
  qed
  ultimately show ?thesis by simp
qed

end

end
