(* ===== verification/Nodes.thy ===== *)
theory Nodes
  imports Hashing Hash_Map Capability F64_Rounding Resilience Sort_By "HOL-Library.Sublist"
begin

section \<open>The node library\<close>

text \<open>
  The executable nodes of \<open>kernelflow-nodes\<close> (constant, sha256, http\_fetch, median, threshold), the
  registry with its composition-time type check, and the contract that the scheduler relies on:
  an execution depends on the input alone, does not panic, and reports a fixed amount of gas. The
  network client, the JSON parser and the derived deserializers of the node arguments are
  parameters, the fields of \<open>node_env\<close>.
\<close>

datatype op = Gt | Gte | Lt | Lte | Eq

record 'n node_env =
  ne_client :: "duration \<Rightarrow> (string, nat) outcome"
  ne_send :: "nat \<Rightarrow> string \<Rightarrow> (string, nat) outcome"
  ne_text :: "nat \<Rightarrow> (string, string) outcome"
  ne_from_str :: "string \<Rightarrow> 'n json option"
  ne_http_args :: "'n json \<Rightarrow> (string, string \<times> string list option) outcome"
  ne_threshold_args :: "'n json \<Rightarrow> (string, f64 \<times> op) outcome"

subsection \<open>constant.rs and hash\_node.rs\<close>

definition constant_execute :: "'n json \<Rightarrow> node_context \<Rightarrow> 'n node_input \<Rightarrow> 'n node_output kernel_result" where
  "constant_execute value ctx input = Ok \<lparr>out_value = value, out_gas_used = 1\<rparr>"

definition sha256_execute :: "'n ext \<Rightarrow> node_context \<Rightarrow> 'n node_input \<Rightarrow> 'n node_output kernel_result" where
  "sha256_execute x ctx input =
     (let h = hash_json x (in_payload input) in Ok \<lparr>out_value = JString h, out_gas_used = 5\<rparr>)"

subsection \<open>http.rs\<close>

record http_fetch =
  hf_url :: string
  hf_allowlist :: "string list"
  hf_timeout :: duration

definition http_fetch_new :: "string \<Rightarrow> string list \<Rightarrow> http_fetch" where
  "http_fetch_new url allowlist = \<lparr>hf_url = url, hf_allowlist = allowlist, hf_timeout = from_secs 10\<rparr>"

definition allowed :: "http_fetch \<Rightarrow> string \<Rightarrow> bool" where
  "allowed h url =
     (if hf_allowlist h = [] then True else list_ex (\<lambda>host. sublist host url) (hf_allowlist h))"

definition http_execute :: "'n node_env \<Rightarrow> http_fetch \<Rightarrow> node_context \<Rightarrow> 'n node_input \<Rightarrow>
    'n node_output kernel_result" where
  "http_execute env h ctx input =
     (if \<not> allowed h (hf_url h)
      then Err (InvalidInput (''host not in allowlist: '' @ hf_url h))
      else
        and_then (map_err Network (ne_client env (hf_timeout h))) (\<lambda>client.
        and_then (map_err Network (ne_send env client (hf_url h))) (\<lambda>response.
        and_then (map_err Network (ne_text env response)) (\<lambda>body.
          let value = (case ne_from_str env body of Some v \<Rightarrow> v | None \<Rightarrow> JString body) in
          Ok \<lparr>out_value = value, out_gas_used = 50\<rparr>))))"

subsection \<open>median.rs\<close>

definition numeric :: "'n ext \<Rightarrow> 'n json \<Rightarrow> f64 option" where
  "numeric x v =
     (case as_f64 x v of
        Some n \<Rightarrow> Some n
      | None \<Rightarrow> (case json_get x v ''value'' of None \<Rightarrow> None | Some u \<Rightarrow> as_f64 x u))"

definition f64_cmp :: "f64 \<Rightarrow> f64 \<Rightarrow> ordering" where
  "f64_cmp a b = (case f64_partial_cmp a b of Some r \<Rightarrow> r | None \<Rightarrow> Equal)"

definition median_of :: "f64 list \<Rightarrow> f64 kernel_result" where
  "median_of nums =
     (let n = length nums in
      if n mod 2 = 1 then nth_checked nums (n div 2)
      else
        and_then (checked_dec (n div 2)) (\<lambda>i.
        and_then (nth_checked nums i) (\<lambda>a.
        and_then (nth_checked nums (n div 2)) (\<lambda>b. Ok (f64_half (f64_add a b))))))"

definition median_execute :: "'n ext \<Rightarrow> node_context \<Rightarrow> 'n node_input \<Rightarrow> 'n node_output kernel_result" where
  "median_execute x ctx input =
     (let nums = List.map_filter (numeric x) (bt_values (in_parents input)) in
      if nums = [] then Err (InvalidInput ''no numeric parents for median'')
      else and_then (median_of (sort_by f64_cmp nums)) (\<lambda>m.
        Ok \<lparr>out_value = json_of_f64 x m, out_gas_used = 3\<rparr>))"

subsection \<open>threshold.rs\<close>

record threshold_node =
  th_threshold :: f64
  th_op :: op

definition threshold_gt :: "f64 \<Rightarrow> threshold_node" where
  "threshold_gt t = \<lparr>th_threshold = t, th_op = Gt\<rparr>"

text \<open>\<open>f64::EPSILON\<close>, which is \<open>2 ^ -52\<close>.\<close>

definition f64_epsilon :: f64 where
  "f64_epsilon = F64 0x3CB0000000000000"

fun op_holds :: "op \<Rightarrow> f64 \<Rightarrow> f64 \<Rightarrow> bool" where
  "op_holds Gt n t = f64_lt t n"
| "op_holds Gte n t = f64_le t n"
| "op_holds Lt n t = f64_lt n t"
| "op_holds Lte n t = f64_le n t"
| "op_holds Eq n t = f64_lt (f64_abs (f64_sub n t)) f64_epsilon"

definition threshold_input :: "'n ext \<Rightarrow> 'n node_input \<Rightarrow> f64 option" where
  "threshold_input x input =
     (let first = (case bt_values (in_parents input) of [] \<Rightarrow> None | v # _ \<Rightarrow> as_f64 x v)
      in case first of Some n \<Rightarrow> Some n | None \<Rightarrow> as_f64 x (in_payload input))"

definition threshold_execute :: "'n ext \<Rightarrow> threshold_node \<Rightarrow> node_context \<Rightarrow> 'n node_input \<Rightarrow>
    'n node_output kernel_result" where
  "threshold_execute x t ctx input =
     and_then (ok_or (threshold_input x input) (InvalidInput ''threshold needs numeric input'')) (\<lambda>n.
       let ok = op_holds (th_op t) n (th_threshold t) in
       Ok \<lparr>out_value = JObject (bt_collect [(''ok'', JBool ok), (''value'', json_of_f64 x n)]),
           out_gas_used = 1\<rparr>)"

subsection \<open>Nodes as trait objects\<close>

datatype 'n node =
    ConstantNode "'n json"
  | Sha256Node
  | HttpFetchNode http_fetch
  | MedianNode
  | ThresholdNode threshold_node

definition constant_new :: "'n json \<Rightarrow> 'n node" where
  [simp]: "constant_new value = ConstantNode value"

fun node_kind :: "'n node \<Rightarrow> string" where
  "node_kind (ConstantNode v) = ''constant''"
| "node_kind Sha256Node = ''sha256''"
| "node_kind (HttpFetchNode h) = ''http_fetch''"
| "node_kind MedianNode = ''median''"
| "node_kind (ThresholdNode t) = ''threshold''"

fun execute :: "'n ext \<Rightarrow> 'n node_env \<Rightarrow> 'n node \<Rightarrow> node_context \<Rightarrow> 'n node_input \<Rightarrow>
    'n node_output kernel_result" where
  "execute x env (ConstantNode v) = constant_execute v"
| "execute x env Sha256Node = sha256_execute x"
| "execute x env (HttpFetchNode h) = http_execute env h"
| "execute x env MedianNode = median_execute x"
| "execute x env (ThresholdNode t) = threshold_execute x t"

subsection \<open>The registry (lib.rs)\<close>

datatype type_sig = Number | String | Bytes | Boolean | Json | Array type_sig | Object

text \<open>The derived \<open>Debug\<close> text.\<close>

fun debug_sig :: "type_sig \<Rightarrow> string" where
  "debug_sig Number = ''Number''"
| "debug_sig String = ''String''"
| "debug_sig Bytes = ''Bytes''"
| "debug_sig Boolean = ''Boolean''"
| "debug_sig Json = ''Json''"
| "debug_sig (Array t) = ''Array('' @ debug_sig t @ '')''"
| "debug_sig Object = ''Object''"

record node_descriptor =
  nd_kind :: string
  nd_doc :: string
  nd_input :: type_sig
  nd_output :: type_sig
  nd_requirements :: resource_requirements

type_synonym 'n node_factory = "'n json \<Rightarrow> 'n node kernel_result"

record 'n node_registry =
  nr_descriptors :: "(string, node_descriptor) hash_map"
  nr_factories :: "(string, 'n node_factory) hash_map"

definition registry_new :: "'n node_registry" where
  "registry_new = \<lparr>nr_descriptors = hm_new, nr_factories = hm_new\<rparr>"

definition register :: "node_descriptor \<Rightarrow> 'n node_factory \<Rightarrow> 'n node_registry \<Rightarrow> 'n node_registry" where
  "register desc factory r =
     r\<lparr>nr_descriptors := hm_insert (nd_kind desc) desc (nr_descriptors r),
       nr_factories := hm_insert (nd_kind desc) factory (nr_factories r)\<rparr>"

definition describe :: "'n node_registry \<Rightarrow> string \<Rightarrow> node_descriptor option" where
  "describe r kind = hm_get (nr_descriptors r) kind"

definition kinds :: "'n node_registry \<Rightarrow> string list" where
  "kinds r = hm_keys (nr_descriptors r)"

definition instantiate :: "'n node_registry \<Rightarrow> string \<Rightarrow> 'n json \<Rightarrow> 'n node kernel_result" where
  "instantiate r kind args =
     and_then (ok_or (hm_get (nr_factories r) kind) (NodeNotFound kind)) (\<lambda>f. f args)"

definition assignable :: "type_sig \<Rightarrow> type_sig \<Rightarrow> bool" where
  "assignable src dst \<longleftrightarrow> src = Json \<or> dst = Json \<or> src = dst"

definition arrow_utf8 :: string where
  "arrow_utf8 = [char_of (0xE2 :: nat), char_of (0x86 :: nat), char_of (0x92 :: nat)]"

definition mismatch_text :: "string \<Rightarrow> type_sig \<Rightarrow> string \<Rightarrow> type_sig \<Rightarrow> string" where
  "mismatch_text producer output consumer input =
     ''type mismatch: '' @ producer @ '': '' @ debug_sig output @ '' '' @ arrow_utf8 @ '' '' @
     consumer @ '': '' @ debug_sig input"

definition validate_edge :: "'n node_registry \<Rightarrow> string \<Rightarrow> string \<Rightarrow> unit kernel_result" where
  "validate_edge r producer_kind consumer_kind =
     and_then (ok_or (describe r producer_kind) (NodeNotFound producer_kind)) (\<lambda>p.
     and_then (ok_or (describe r consumer_kind) (NodeNotFound consumer_kind)) (\<lambda>c.
       if \<not> assignable (nd_output p) (nd_input c)
       then Err (InvalidInput (mismatch_text producer_kind (nd_output p) consumer_kind (nd_input c)))
       else Ok ()))"

subsection \<open>The standard library of nodes\<close>

definition constant_register :: "'n node_registry \<Rightarrow> 'n node_registry" where
  "constant_register = register
     \<lparr>nd_kind = ''constant'', nd_doc = ''Emits a fixed JSON value.'', nd_input = Json,
      nd_output = Json, nd_requirements = default_requirements\<rparr>
     (\<lambda>args. Ok (constant_new args))"

definition hash_register :: "'n node_registry \<Rightarrow> 'n node_registry" where
  "hash_register = register
     \<lparr>nd_kind = ''sha256'', nd_doc = ''SHA-256 of canonical-JSON input. Output: hex string.'',
      nd_input = Json, nd_output = String, nd_requirements = default_requirements\<rparr>
     (\<lambda>args. Ok Sha256Node)"

definition http_register :: "'n node_env \<Rightarrow> 'n node_registry \<Rightarrow> 'n node_registry" where
  "http_register env = register
     \<lparr>nd_kind = ''http_fetch'',
      nd_doc = ''Fetch a URL via the controlled egress path. Args: { url, allowlist? }'',
      nd_input = Json, nd_output = Json,
      nd_requirements = default_requirements\<lparr>req_capabilities := [HttpEgress]\<rparr>\<rparr>
     (\<lambda>args. and_then (map_err InvalidInput (ne_http_args env args)) (\<lambda>(url, allowlist).
        Ok (HttpFetchNode (http_fetch_new url (case allowlist of Some l \<Rightarrow> l | None \<Rightarrow> [])))))"

definition median_register :: "'n node_registry \<Rightarrow> 'n node_registry" where
  "median_register = register
     \<lparr>nd_kind = ''median'', nd_doc = ''Median of all numeric parent outputs.'', nd_input = Number,
      nd_output = Number, nd_requirements = default_requirements\<rparr>
     (\<lambda>args. Ok MedianNode)"

definition threshold_register :: "'n node_env \<Rightarrow> 'n node_registry \<Rightarrow> 'n node_registry" where
  "threshold_register env = register
     \<lparr>nd_kind = ''threshold'',
      nd_doc = ''Compares numeric input vs threshold. Args: { threshold, op: gt|gte|lt|lte|eq }'',
      nd_input = Number, nd_output = Object, nd_requirements = default_requirements\<rparr>
     (\<lambda>args. and_then (map_err InvalidInput (ne_threshold_args env args)) (\<lambda>(t, op).
        Ok (ThresholdNode \<lparr>th_threshold = t, th_op = op\<rparr>)))"

definition with_stdlib :: "'n node_env \<Rightarrow> 'n node_registry" where
  "with_stdlib env =
     threshold_register env (median_register (http_register env
       (hash_register (constant_register registry_new))))"

subsection \<open>Sorting\<close>

definition cmp_sorted :: "f64 list \<Rightarrow> bool" where
  "cmp_sorted xs \<longleftrightarrow> sorted (map f64_key xs)"

lemma f64_cmp_Greater:
  "f64_is_finite a \<Longrightarrow> f64_is_finite b \<Longrightarrow> f64_cmp a b = Greater \<longleftrightarrow> f64_key b < f64_key a"
  by (auto simp: f64_cmp_def f64_partial_cmp_def finite_not_nan)

interpretation f64_order: key_comparison f64_cmp f64_key f64_is_finite
  by unfold_locales (rule f64_cmp_Greater)

lemma sort_by_sorted: "\<forall>a \<in> set xs. f64_is_finite a \<Longrightarrow> cmp_sorted (sort_by f64_cmp xs)"
  unfolding cmp_sorted_def by (rule f64_order.sort_sorted)

subsection \<open>The median\<close>

definition at_most :: "f64 list \<Rightarrow> f64 \<Rightarrow> nat" where
  "at_most xs m = length (filter (\<lambda>a. f64_le a m) xs)"

definition at_least :: "f64 list \<Rightarrow> f64 \<Rightarrow> nat" where
  "at_least xs m = length (filter (\<lambda>a. f64_le m a) xs)"

lemma length_filter_mset: "mset xs = mset ys \<Longrightarrow> length (filter P xs) = length (filter P ys)"
  by (metis mset_filter size_mset)

lemma rank_lower:
  assumes "cmp_sorted xs" and "\<forall>a \<in> set xs. f64_is_finite a" and "\<not> f64_is_nan m"
    and "i < length xs" and "f64_key (xs ! i) \<le> f64_key m"
  shows "Suc i \<le> at_most xs m"
proof -
  have "f64_le a m" if a: "a \<in> set (take (Suc i) xs)" for a
  proof -
    obtain j where j: "j < length (take (Suc i) xs)" "take (Suc i) xs ! j = a"
      using a unfolding in_set_conv_nth by blast
    then have "j \<le> i" "xs ! j = a" by auto
    then have "f64_key a \<le> f64_key (xs ! i)"
      using sorted_nth_mono [of "map f64_key xs" j i] assms(1,4) by (simp add: cmp_sorted_def)
    moreover have "f64_is_finite a" using assms(2) a in_set_takeD by fastforce
    ultimately show ?thesis using assms(3,5) by (simp add: f64_le_def finite_not_nan)
  qed
  then have "filter (\<lambda>a. f64_le a m) (take (Suc i) xs) = take (Suc i) xs"
    by (intro filter_True) blast
  then have "Suc i = length (filter (\<lambda>a. f64_le a m) (take (Suc i) xs))" using assms(4) by simp
  also have "\<dots> \<le> at_most xs m"
    unfolding at_most_def by (metis append_take_drop_id filter_append le_add1 length_append)
  finally show ?thesis .
qed

lemma rank_upper:
  assumes "cmp_sorted xs" and "\<forall>a \<in> set xs. f64_is_finite a" and "\<not> f64_is_nan m"
    and "i < length xs" and "f64_key m \<le> f64_key (xs ! i)"
  shows "length xs - i \<le> at_least xs m"
proof -
  have "f64_le m a" if a: "a \<in> set (drop i xs)" for a
  proof -
    obtain j where j: "j < length (drop i xs)" "drop i xs ! j = a"
      using a unfolding in_set_conv_nth by blast
    then have "xs ! (i + j) = a" "i + j < length xs" by auto
    then have "f64_key (xs ! i) \<le> f64_key a"
      using sorted_nth_mono [of "map f64_key xs" i "i + j"] assms(1,4) by (simp add: cmp_sorted_def)
    moreover have "f64_is_finite a" using assms(2) a in_set_dropD by fastforce
    ultimately show ?thesis using assms(3,5) by (simp add: f64_le_def finite_not_nan)
  qed
  then have "filter (\<lambda>a. f64_le m a) (drop i xs) = drop i xs"
    by (intro filter_True) blast
  then have "length xs - i = length (filter (\<lambda>a. f64_le m a) (drop i xs))" by simp
  also have "\<dots> \<le> at_least xs m"
    unfolding at_least_def by (metis append_take_drop_id filter_append le_add2 length_append)
  finally show ?thesis .
qed

lemma median_of_cases:
  assumes "xs \<noteq> []"
  shows "median_of xs =
    Ok (if odd (length xs) then xs ! (length xs div 2)
        else f64_half (f64_add (xs ! (length xs div 2 - 1)) (xs ! (length xs div 2))))"
  using assms
  by (auto simp: median_of_def Let_def nth_checked_def checked_dec_def odd_iff_mod_2_eq_one)

text \<open>At least half of the numbers are at most, and at least half are at least, the median.\<close>

lemma median_of_rank:
  assumes xs: "xs \<noteq> []" and sorted: "cmp_sorted xs" and fin: "\<forall>a \<in> set xs. f64_is_finite a"
    and m: "median_of xs = Ok m" "f64_is_finite m"
  shows "length xs \<le> 2 * at_most xs m \<and> length xs \<le> 2 * at_least xs m"
proof -
  let ?h = "length xs div 2"
  have h: "?h < length xs" using xs by simp
  have nan: "\<not> f64_is_nan m" using m(2) by (simp add: finite_not_nan)
  show ?thesis
  proof (cases "odd (length xs)")
    case True
    then have "m = xs ! ?h" using m(1) by (simp add: median_of_cases [OF xs])
    with rank_lower [OF sorted fin nan h] rank_upper [OF sorted fin nan h] show ?thesis
      using True by (auto elim!: oddE)
  next
    case False
    let ?a = "xs ! (?h - 1)" and ?b = "xs ! ?h"
    have m': "m = f64_half (f64_add ?a ?b)" using m(1) False by (simp add: median_of_cases [OF xs])
    have h1: "?h - 1 < length xs" using h by simp
    have fab: "f64_is_finite ?a" "f64_is_finite ?b" using fin h h1 nth_mem by blast+
    have "f64_key ?a \<le> f64_key ?b"
      using sorted sorted_nth_mono [of "map f64_key xs" "?h - 1" ?h] h h1 by (simp add: cmp_sorted_def)
    from half_sum_between [OF fab this half_finite_iff [OF fab m(2) [unfolded m']]]
    have "f64_key ?a \<le> f64_key m" "f64_key m \<le> f64_key ?b" unfolding m' by blast+
    with rank_lower [OF sorted fin nan h1] rank_upper [OF sorted fin nan h]
    have "Suc (?h - 1) \<le> at_most xs m" "length xs - ?h \<le> at_least xs m" by blast+
    moreover have "0 < ?h"
    proof -
      from False obtain k where "length xs = 2 * k" by (metis evenE)
      with xs show ?thesis by (cases k) auto
    qed
    ultimately show ?thesis using False by (auto elim!: evenE)
  qed
qed

end
