(* ===== verification/Nodes_Spec.thy ===== *)
theory Nodes_Spec
  imports Nodes
begin

section \<open>What the nodes promise\<close>

text \<open>
  The contract of a workflow node as a locale, its consequences for the executor, the
  interpretations for the four nodes that do not touch the network, and the properties of the node
  library: the median is a median, the threshold compares real numbers, the registry hands out
  nodes of the kind and output type it describes.
\<close>

subsection \<open>The contract\<close>

locale workflow_node =
  fixes exec :: "node_context \<Rightarrow> 'n node_input \<Rightarrow> 'n node_output kernel_result"
    and gas :: u64
    and typed :: "'n json \<Rightarrow> bool"
  assumes context_free: "exec c i = exec c' i"
    and calm_exec: "no_panic (exec c i)"
    and gas_fixed: "exec c i = Ok out \<Longrightarrow> out_gas_used out = gas"
    and output_typed: "exec c i = Ok out \<Longrightarrow> typed (out_value out)"
begin

text \<open>Retrying such a node cannot change its answer.\<close>

lemma attempts_same:
  assumes "backoff_safe cfg" and "\<And>k. f k = Completed (exec (c k) i)"
  shows "fst (retry_loop cfg f 0 (rc_initial_backoff cfg)) = exec c0 i"
proof -
  obtain k where k: "stops_at cfg f k" using stops_at_exists by blast
  have "attempt_outcome cfg (f k) = exec c0 i"
    using context_free [of "c k" i c0] by (simp add: assms(2) attempt_outcome_def)
  then show ?thesis by (simp add: retry_loop_stops [OF assms(1) k])
qed

lemma gas_typed: "exec c i = Ok out \<Longrightarrow> out_gas_used out = gas \<and> typed (out_value out)"
  by (simp add: gas_fixed output_typed)

end

fun is_string :: "'n json \<Rightarrow> bool" where
  "is_string (JString s) = True"
| "is_string _ = False"

definition from_f64 :: "'n ext \<Rightarrow> 'n json \<Rightarrow> bool" where
  "from_f64 x v \<longleftrightarrow> (\<exists>f. v = json_of_f64 x f)"

definition threshold_object :: "'n ext \<Rightarrow> 'n json \<Rightarrow> bool" where
  "threshold_object x v \<longleftrightarrow> (\<exists>b n. v = JObject [(''ok'', JBool b), (''value'', json_of_f64 x n)])"

lemma threshold_pairs:
  "bt_collect [(''ok'', a), (''value'', b)] = [(''ok'', a), (''value'', b)]"
  by (intro bt_collect_wf_id) (simp add: bt_wf_def less_char_def)

interpretation constant_node: workflow_node "constant_execute v" 1 "\<lambda>w. w = v" for v
  by unfold_locales (auto simp: constant_execute_def)

interpretation sha256_node: workflow_node "sha256_execute x" 5 is_string for x
  by unfold_locales (auto simp: sha256_execute_def Let_def)

interpretation median_node: workflow_node "median_execute x" 3 "from_f64 x" for x
proof unfold_locales
  have nonempty: "sort_by f64_cmp nums \<noteq> []" if "nums \<noteq> []" for nums
    using that by (metis length_0_conv length_sort_by)
  show "no_panic (median_execute x c i)" for c i
    by (simp add: median_execute_def Let_def median_of_cases [OF nonempty])
  show "out_gas_used out = 3" "from_f64 x (out_value out)" if "median_execute x c i = Ok out" for c i out
    using that by (auto simp: median_execute_def Let_def outcome_simps from_f64_def split: if_splits)
qed (simp add: median_execute_def)

interpretation threshold_node: workflow_node "threshold_execute x t" 1 "threshold_object x" for x t
proof unfold_locales
  show "no_panic (threshold_execute x t c i)" for c i
    by (cases "threshold_input x i") (simp_all add: threshold_execute_def Let_def)
  show "out_gas_used out = 1" "threshold_object x (out_value out)"
    if "threshold_execute x t c i = Ok out" for c i out
    using that by (auto simp: threshold_execute_def Let_def outcome_simps threshold_object_def threshold_pairs)
qed (simp add: threshold_execute_def)

subsection \<open>The median\<close>

definition parent_numbers :: "'n ext \<Rightarrow> 'n node_input \<Rightarrow> f64 list" where
  "parent_numbers x input = List.map_filter (numeric x) (bt_values (in_parents input))"

lemma numeric_finite: "as_f64_laws x \<Longrightarrow> numeric x v = Some n \<Longrightarrow> f64_is_finite n"
  by (auto simp: numeric_def as_f64_laws_def split: option.splits)

lemma set_map_filter_numeric: "set (List.map_filter g vs) = {n. \<exists>v \<in> set vs. g v = Some n}"
  by (induction vs) (auto simp: List.map_filter_simps split: option.split)

lemma parent_numbers_finite:
  "as_f64_laws x \<Longrightarrow> \<forall>n \<in> set (parent_numbers x input). f64_is_finite n"
  by (auto simp: parent_numbers_def set_map_filter_numeric dest: numeric_finite)

definition three :: f64 where "three = F64 0x4008000000000000"
definition five :: f64 where "five = F64 0x4014000000000000"
definition one :: f64 where "one = F64 0x3FF0000000000000"

definition three_parents :: "f64 node_input" where
  "three_parents = \<lparr>in_workflow_id = 0, in_node_id = ''m'', in_payload = JNull,
     in_parents = [(''a'', JNumber one), (''b'', JNumber five), (''c'', JNumber three)]\<rparr>"

lemma three_parents_numbers: "parent_numbers demo_ext three_parents = [one, five, three]"
  by (simp add: parent_numbers_def three_parents_def bt_values_def numeric_def List.map_filter_simps
      f64_eval one_def five_def three_def)

lemma three_parents_median:
  "median_execute demo_ext c three_parents = Ok \<lparr>out_value = JNumber three, out_gas_used = 3\<rparr>"
  by (simp add: median_execute_def three_parents_numbers [unfolded parent_numbers_def] median_of_def
      nth_checked_def Let_def f64_cmp_def demo_of_f64_def)
    (simp add: f64_eval one_def five_def three_def)

subsection \<open>Properties of the nodes\<close>

text \<open>
  C22: The median node returns a median of the numeric outputs of its parents: at least half of them
  are at most, and at least half are at least, the result, also with duplicates and an even count,
  and for an odd count it is one of them. The only exception is a sum of the two middle numbers
  that overflows to infinity.
\<close>

theorem median_correct:
  assumes "as_f64_laws x" and "median_execute x ctx input = Ok out"
  shows "\<exists>m. out_value out = json_of_f64 x m \<and>
    (odd (length (parent_numbers x input)) \<longrightarrow> m \<in> set (parent_numbers x input)) \<and>
    (f64_is_finite m \<longrightarrow>
       length (parent_numbers x input) \<le> 2 * at_most (parent_numbers x input) m \<and>
       length (parent_numbers x input) \<le> 2 * at_least (parent_numbers x input) m)"
proof -
  let ?nums = "parent_numbers x input"
  let ?xs = "sort_by f64_cmp ?nums"
  have fin: "\<forall>n \<in> set ?nums. f64_is_finite n" by (rule parent_numbers_finite [OF assms(1)])
  from assms(2) obtain m where ne: "?nums \<noteq> []" and m: "median_of ?xs = Ok m"
    and out: "out_value out = json_of_f64 x m"
    by (auto simp: median_execute_def Let_def outcome_simps parent_numbers_def split: if_splits)
  then have xs: "?xs \<noteq> []" by (metis length_0_conv length_sort_by)
  have "m \<in> set ?nums" if "odd (length ?nums)"
  proof -
    have "m = ?xs ! (length ?xs div 2)" "length ?xs div 2 < length ?xs"
      using m that ne by (simp_all add: median_of_cases [OF xs])
    then show ?thesis by (metis nth_mem set_sort_by)
  qed
  moreover have "length ?nums \<le> 2 * at_most ?nums m \<and> length ?nums \<le> 2 * at_least ?nums m"
    if "f64_is_finite m"
    using median_of_rank [OF xs sort_by_sorted [OF fin] _ m that] fin
      length_filter_mset [OF mset_sort_by [of f64_cmp ?nums]]
    by (simp add: at_most_def at_least_def)
  ultimately show ?thesis using out by blast
qed

theorem median_correct_witness:
  "3 \<le> 2 * at_most [one, five, three] three \<and> 3 \<le> 2 * at_least [one, five, three] three"
proof -
  have fin: "f64_is_finite three" by (simp add: f64_eval three_def)
  obtain m where m: "JNumber three = demo_of_f64 m" and rank: "f64_is_finite m \<longrightarrow>
      length [one, five, three] \<le> 2 * at_most [one, five, three] m \<and>
      length [one, five, three] \<le> 2 * at_least [one, five, three] m"
    using median_correct [OF demo_as_f64_laws three_parents_median [of "default_context ''t''"]]
    unfolding three_parents_numbers by auto
  have "m = three" using m by (simp add: demo_of_f64_def split: if_splits)
  with rank fin show ?thesis by simp
qed

definition huge :: f64 where "huge = F64 0x7FEFFFFFFFFFFFFF"

definition huge_parents :: "f64 node_input" where
  "huge_parents = \<lparr>in_workflow_id = 0, in_node_id = ''m'', in_payload = JNull,
     in_parents = [(''a'', JNumber huge), (''b'', JNumber huge)]\<rparr>"

text \<open>
  The sum of two finite prices can overflow, and the median node then reports success with the
  value that \<open>json!\<close> gives infinity, which is null, although its registered output type is a
  number.
\<close>

theorem median_overflow:
  "f64_is_finite huge \<and>
   median_execute demo_ext ctx huge_parents = Ok \<lparr>out_value = JNull, out_gas_used = 3\<rparr>"
proof
  show fin: "f64_is_finite huge" by (simp add: f64_eval huge_def)
  have "parent_numbers demo_ext huge_parents = [huge, huge]"
    by (simp add: parent_numbers_def huge_parents_def bt_values_def numeric_def List.map_filter_simps fin)
  moreover have "f64_half (f64_add huge huge) = F64 0x7FF0000000000000"
    by (simp add: f64_eval huge_def)
  moreover have "\<not> f64_is_finite (F64 0x7FF0000000000000)" by (simp add: f64_eval)
  ultimately show "median_execute demo_ext ctx huge_parents = Ok \<lparr>out_value = JNull, out_gas_used = 3\<rparr>"
    by (simp add: median_execute_def parent_numbers_def [symmetric] median_of_def nth_checked_def
        Let_def f64_cmp_def f64_partial_cmp_def demo_of_f64_def)
qed

lemma epsilon_val: "f64_val f64_epsilon = 2 powi - 52" "f64_is_finite f64_epsilon"
  by (simp_all add: f64_val_def f64_epsilon_def f64_eval mag_val_def)

fun op_meaning :: "op \<Rightarrow> real \<Rightarrow> real \<Rightarrow> bool \<Rightarrow> bool" where
  "op_meaning Gt n t b = (b = (n > t))"
| "op_meaning Gte n t b = (b = (n \<ge> t))"
| "op_meaning Lt n t b = (b = (n < t))"
| "op_meaning Lte n t b = (b = (n \<le> t))"
| "op_meaning Eq n t b = ((n = t \<longrightarrow> b) \<and> (b \<longrightarrow> \<bar>n - t\<bar> < 2 powi - 52))"

lemma op_holds_meaning:
  assumes n: "f64_is_finite n" and t: "f64_is_finite t"
  shows "op_meaning opr (f64_val n) (f64_val t) (op_holds opr n t)"
proof (cases opr)
  case Eq
  let ?d = "f64_val n - f64_val t"
  have nan: "\<not> f64_is_nan (f64_abs (f64_sub n t))" using key_sub(2) [OF n t] by simp
  have "f64_key (f64_abs (f64_sub n t)) = rnd_key \<bar>?d\<bar>"
    using rnd_key_uminus [of ?d] rnd_key_nonneg [of ?d] rnd_key_nonneg [of "- ?d"]
    by (simp add: key_sub(1) [OF n t] abs_if) linarith
  moreover have "0 < f64_key f64_epsilon" by (simp add: f64_eval f64_epsilon_def)
  moreover have "f64_key f64_epsilon \<le> rnd_key \<bar>?d\<bar>" if "2 powi - 52 \<le> \<bar>?d\<bar>"
    by (rule rn.rnd_lower [OF epsilon_val(2)]) (simp only: epsilon_val(1) that)
  moreover have "rnd_key 0 = 0" by (simp add: rnd_key_def)
  ultimately show ?thesis
    using nan finite_not_nan [OF epsilon_val(2)] Eq
    by (force simp: f64_lt_def not_less [symmetric])
qed (use rn.key_le_iff [OF n t] rn.key_le_iff [OF t n] rn.key_less_iff [OF n t] rn.key_less_iff [OF t n] in
    \<open>simp_all add: f64_lt_def f64_le_def finite_not_nan n t\<close>)

text \<open>
  C35: The threshold node compares real numbers: on finite numbers its flag is the comparison of
  their values, for \<open>eq\<close> it holds for equal numbers and only for numbers less than \<open>2 ^ -52\<close>
  apart. The output is the object the registry announces, with the number compared.
\<close>

theorem threshold_exact:
  assumes "as_f64_laws x" and "f64_is_finite (th_threshold t)" and "threshold_input x input = Some n"
  shows "\<exists>b. threshold_execute x t ctx input =
      Ok \<lparr>out_value = JObject [(''ok'', JBool b), (''value'', json_of_f64 x n)], out_gas_used = 1\<rparr> \<and>
    op_meaning (th_op t) (f64_val n) (f64_val (th_threshold t)) b"
proof -
  have "f64_is_finite n"
    using assms(1,3) by (auto simp: threshold_input_def Let_def as_f64_laws_def split: option.splits list.splits)
  from op_holds_meaning [OF this assms(2), of "th_op t"] assms(3) show ?thesis
    by (simp add: threshold_execute_def Let_def threshold_pairs)
qed

theorem threshold_exact_witness:
  "\<exists>b. threshold_execute demo_ext (threshold_gt three) (default_context ''t'')
     (three_parents\<lparr>in_parents := [(''p'', JNumber five)]\<rparr>) =
     Ok \<lparr>out_value = JObject [(''ok'', JBool b), (''value'', JNumber five)], out_gas_used = 1\<rparr> \<and>
     (b = (f64_val five > f64_val three))"
proof -
  have "f64_is_finite five" "f64_is_finite (th_threshold (threshold_gt three))"
    by (simp_all add: threshold_gt_def f64_eval five_def three_def)
  then show ?thesis
    using threshold_exact [of demo_ext "threshold_gt three"
      "three_parents\<lparr>in_parents := [(''p'', JNumber five)]\<rparr>" five "default_context ''t''"]
    by (simp add: threshold_input_def bt_values_def threshold_gt_def demo_of_f64_def)
qed

text \<open>
  The executor's retries never change what a node without network access returns: with any
  configuration whose sleeps do not overflow, retrying it under any contexts ends with the answer
  of a single execution.
\<close>

theorem retry_keeps_answer:
  assumes "backoff_safe cfg" and "\<forall>h. node \<noteq> HttpFetchNode h"
    and "\<And>k. f k = Completed (execute x env node (c k) input)"
  shows "fst (retry_loop cfg f 0 (rc_initial_backoff cfg)) = execute x env node ctx input"
proof (cases node)
  case (ConstantNode v)
  then have "f k = Completed (constant_execute v (c k) input)" for k using assms(3) by simp
  from constant_node.attempts_same [OF assms(1) this, where ?c0.0 = ctx] show ?thesis
    by (simp only: ConstantNode execute.simps)
next
  case Sha256Node
  then have "f k = Completed (sha256_execute x (c k) input)" for k using assms(3) by simp
  from sha256_node.attempts_same [OF assms(1) this, where ?c0.0 = ctx] show ?thesis
    by (simp only: Sha256Node execute.simps)
next
  case (HttpFetchNode h)
  with assms(2) show ?thesis by blast
next
  case MedianNode
  then have "f k = Completed (median_execute x (c k) input)" for k using assms(3) by simp
  from median_node.attempts_same [OF assms(1) this, where ?c0.0 = ctx] show ?thesis
    by (simp only: MedianNode execute.simps)
next
  case (ThresholdNode t)
  then have "f k = Completed (threshold_execute x t (c k) input)" for k using assms(3) by simp
  from threshold_node.attempts_same [OF assms(1) this, where ?c0.0 = ctx] show ?thesis
    by (simp only: ThresholdNode execute.simps)
qed

definition demo_env :: "f64 node_env" where
  "demo_env = \<lparr>ne_client = (\<lambda>t. Err ''offline''), ne_send = (\<lambda>c url. Err ''offline''),
     ne_text = (\<lambda>r. Err ''offline''), ne_from_str = (\<lambda>s. None),
     ne_http_args = (\<lambda>v. case v of JString s \<Rightarrow> Ok (s, None) | _ \<Rightarrow> Err ''bad args''),
     ne_threshold_args = (\<lambda>v. case v of JNumber n \<Rightarrow> Ok (n, Gt) | _ \<Rightarrow> Err ''bad args'')\<rparr>"

theorem retry_keeps_answer_witness:
  "fst (retry_loop default_resilience
     (\<lambda>k. Completed (execute demo_ext demo_env MedianNode (default_context ''a'') three_parents)) 0
     (rc_initial_backoff default_resilience)) =
   execute demo_ext demo_env MedianNode (default_context ''b'') three_parents"
  by (rule retry_keeps_answer [OF default_backoff_safe]) simp_all

subsection \<open>The registry\<close>

lemma describe_stdlib:
  "describe (with_stdlib env) kind =
     (if kind = ''threshold'' then Some
        \<lparr>nd_kind = ''threshold'',
         nd_doc = ''Compares numeric input vs threshold. Args: { threshold, op: gt|gte|lt|lte|eq }'',
         nd_input = Number, nd_output = Object, nd_requirements = default_requirements\<rparr>
      else if kind = ''median'' then Some
        \<lparr>nd_kind = ''median'', nd_doc = ''Median of all numeric parent outputs.'', nd_input = Number,
         nd_output = Number, nd_requirements = default_requirements\<rparr>
      else if kind = ''http_fetch'' then Some
        \<lparr>nd_kind = ''http_fetch'',
         nd_doc = ''Fetch a URL via the controlled egress path. Args: { url, allowlist? }'',
         nd_input = Json, nd_output = Json,
         nd_requirements = default_requirements\<lparr>req_capabilities := [HttpEgress]\<rparr>\<rparr>
      else if kind = ''sha256'' then Some
        \<lparr>nd_kind = ''sha256'', nd_doc = ''SHA-256 of canonical-JSON input. Output: hex string.'',
         nd_input = Json, nd_output = String, nd_requirements = default_requirements\<rparr>
      else if kind = ''constant'' then Some
        \<lparr>nd_kind = ''constant'', nd_doc = ''Emits a fixed JSON value.'', nd_input = Json,
         nd_output = Json, nd_requirements = default_requirements\<rparr>
      else None)"
  by (simp add: describe_def with_stdlib_def threshold_register_def median_register_def
      http_register_def hash_register_def constant_register_def register_def registry_new_def
      hm.get_insert hm.get_empty)

lemma factory_stdlib:
  "hm_get (nr_factories (with_stdlib env)) kind =
     (if kind = ''threshold'' then Some (\<lambda>args.
        and_then (map_err InvalidInput (ne_threshold_args env args)) (\<lambda>(t, op).
          Ok (ThresholdNode \<lparr>th_threshold = t, th_op = op\<rparr>)))
      else if kind = ''median'' then Some (\<lambda>args. Ok MedianNode)
      else if kind = ''http_fetch'' then Some (\<lambda>args.
        and_then (map_err InvalidInput (ne_http_args env args)) (\<lambda>(url, allowlist).
          Ok (HttpFetchNode (http_fetch_new url (case allowlist of Some l \<Rightarrow> l | None \<Rightarrow> [])))))
      else if kind = ''sha256'' then Some (\<lambda>args. Ok Sha256Node)
      else if kind = ''constant'' then Some (\<lambda>args. Ok (ConstantNode args))
      else None)"
  by (simp add: with_stdlib_def threshold_register_def median_register_def
      http_register_def hash_register_def constant_register_def register_def registry_new_def
      hm.get_insert hm.get_empty)

text \<open>The JSON values a type signature describes; no JSON value is a byte string.\<close>

fun conforms :: "type_sig \<Rightarrow> 'n json \<Rightarrow> bool" where
  "conforms Json v = True"
| "conforms Number (JNumber n) = True"
| "conforms String (JString s) = True"
| "conforms Boolean (JBool b) = True"
| "conforms Object (JObject m) = True"
| "conforms (Array t) (JArray vs) = (\<forall>v \<in> set vs. conforms t v)"
| "conforms _ _ = False"

text \<open>Documented behaviour of \<open>json!\<close> on an \<open>f64\<close>: a number if it is finite, else null.\<close>

definition json_of_f64_laws :: "'n ext \<Rightarrow> bool" where
  "json_of_f64_laws x \<longleftrightarrow> (\<forall>f. if f64_is_finite f then \<exists>n. json_of_f64 x f = JNumber n
     else json_of_f64 x f = JNull)"

lemma instantiate_kind:
  assumes "instantiate (with_stdlib env) kind args = Ok node"
  shows "node_kind node = kind"
  using assms
  by (auto simp: instantiate_def factory_stdlib outcome_simps split: if_splits)

text \<open>
  C36: The registry of the standard library hands out, for a kind, only nodes of that kind, and the
  outputs of such a node have the type the descriptor of the kind announces; the one exception is
  the null of an overflowing median.
\<close>

theorem stdlib_sound:
  assumes "json_of_f64_laws x" and "instantiate (with_stdlib env) kind args = Ok node"
    and "execute x env node ctx input = Ok out"
  shows "node_kind node = kind \<and> (\<exists>desc. describe (with_stdlib env) kind = Some desc \<and> nd_kind desc = kind \<and>
    (conforms (nd_output desc) (out_value out) \<or> (kind = ''median'' \<and> out_value out = JNull)))"
proof -
  have kind: "node_kind node = kind" by (rule instantiate_kind [OF assms(2)])
  show ?thesis
  proof (cases node)
    case Sha256Node
    with assms(3) have "is_string (out_value out)" using sha256_node.gas_typed [of x ctx input out] by simp
    then have "conforms String (out_value out)" by (cases "out_value out") simp_all
    with kind Sha256Node show ?thesis by (auto simp: describe_stdlib)
  next
    case MedianNode
    with assms(3) obtain f where "out_value out = json_of_f64 x f"
      using median_node.gas_typed [of x ctx input out] by (auto simp: from_f64_def)
    then have "conforms Number (out_value out) \<or> out_value out = JNull"
      using assms(1) by (auto simp: json_of_f64_laws_def) (metis conforms.simps(2))
    with kind MedianNode show ?thesis by (auto simp: describe_stdlib)
  next
    case (ThresholdNode t)
    with assms(3) have "threshold_object x (out_value out)" using threshold_node.gas_typed [of x t ctx input out] by simp
    then have "conforms Object (out_value out)" by (auto simp: threshold_object_def)
    with kind ThresholdNode show ?thesis by (auto simp: describe_stdlib)
  qed (use kind in \<open>auto simp: describe_stdlib\<close>)
qed

theorem stdlib_sound_witness:
  "conforms Number (JNumber three :: f64 json) \<or> (JNumber three :: f64 json) = JNull"
proof -
  have laws: "json_of_f64_laws demo_ext" by (simp add: json_of_f64_laws_def demo_of_f64_def)
  have "instantiate (with_stdlib demo_env) ''median'' JNull = Ok MedianNode"
    by (simp add: instantiate_def factory_stdlib)
  from stdlib_sound [OF laws this, of "default_context ''t''" three_parents] three_parents_median
  show ?thesis by (auto simp: describe_stdlib)
qed

text \<open>
  Composition-time validation with the standard library: exactly these connections are
  accepted. Both kinds must exist, and only the outputs of \<open>sha256\<close> and \<open>threshold\<close> are refused as
  the numeric inputs of \<open>median\<close> and \<open>threshold\<close>; an unknown kind is reported by name, the
  producer first.
\<close>

theorem validate_edge_stdlib:
  "validate_edge (with_stdlib env) producer consumer =
     (let known = {''constant'', ''sha256'', ''http_fetch'', ''median'', ''threshold''} in
      if producer \<notin> known then Err (NodeNotFound producer)
      else if consumer \<notin> known then Err (NodeNotFound consumer)
      else if consumer \<in> {''median'', ''threshold''} \<and> producer \<in> {''sha256'', ''threshold''}
      then Err (InvalidInput (mismatch_text producer (if producer = ''sha256'' then String else Object)
             consumer Number))
      else Ok ())"
  by (auto simp: validate_edge_def describe_stdlib assignable_def Let_def)

subsection \<open>The host allowlist\<close>

text \<open>
  The allowlist of the fetch node is matched anywhere in the URL, not against its host: a URL
  of another host that carries an allowed name in its path or query passes the check, for every
  list that has a name in it.
\<close>

theorem allowlist_bypass:
  assumes "host \<in> set (hf_allowlist h)"
  shows "allowed h (''http://evil.example/?q='' @ host)"
proof -
  have "sublist host (''http://evil.example/?q='' @ host)"
    by (rule suffix_imp_sublist, rule suffixI, rule refl)
  then show ?thesis using assms unfolding allowed_def list_ex_iff by auto
qed

theorem allowlist_bypass_witness:
  "allowed (http_fetch_new ''https://api.example.com'' [''api.example.com''])
     ''http://evil.example/?q=api.example.com''"
  using allowlist_bypass [of "''api.example.com''" "http_fetch_new ''https://api.example.com'' [''api.example.com'']"]
  by (simp add: http_fetch_new_def)

text \<open>
  With a non-empty allowlist, a URL that contains none of its names is refused before any
  network operation: the answer does not depend on the network.
\<close>

theorem http_refused:
  assumes "hf_allowlist h \<noteq> []" and "\<forall>host \<in> set (hf_allowlist h). \<not> sublist host (hf_url h)"
  shows "http_execute env h ctx input = Err (InvalidInput (''host not in allowlist: '' @ hf_url h))"
  using assms by (simp add: http_execute_def allowed_def list_ex_iff)

theorem http_refused_witness:
  "http_execute demo_env (http_fetch_new ''ftp'' [''x'']) (default_context ''t'') three_parents =
     Err (InvalidInput ''host not in allowlist: ftp'')"
  using http_refused [of "http_fetch_new ''ftp'' [''x'']" demo_env "default_context ''t''" three_parents]
  by (simp add: http_fetch_new_def sublist_Cons_right)

end
