(* ===== verification/Workflow.thy ===== *)
theory Workflow
  imports Scheduler_Spec Actor Nodes_Spec
begin

section \<open>Library nodes behind the executor\<close>

text \<open>
  How the parts of one workflow run fit together: the scheduler calls actors, an actor runs its
  node under the executor, and the node is one of the library. The relation \<open>workflow_calls\<close> is
  what such a call may answer; it instantiates the parameter of the scheduler's steps.
\<close>

definition node_attempts :: "'n ext \<Rightarrow> 'n node_env \<Rightarrow> 'n node \<Rightarrow> node_context \<Rightarrow> 'n node_input \<Rightarrow>
    'n node_output attempt \<Rightarrow> bool" where
  "node_attempts x env node ctx input a \<longleftrightarrow> a = Elapsed \<or> a = Completed (execute x env node ctx input)"

definition workflow_calls :: "resilience_config \<Rightarrow> 'n ext \<Rightarrow> 'n node_env \<Rightarrow> ('n node, 'n) call_rel" where
  "workflow_calls cfg x env = actor_call cfg (node_attempts x env)"

fun offline_node :: "'n node \<Rightarrow> bool" where
  "offline_node (HttpFetchNode h) = False"
| "offline_node _ = True"

lemma execute_context_free:
  "offline_node node \<Longrightarrow> execute x env node c input = execute x env node c' input"
  by (cases node)
    (simp_all add: constant_execute_def sha256_execute_def median_execute_def threshold_execute_def)

lemma workflow_calls_Ok:
  "workflow_calls cfg x env node ctx input (Ok out) \<Longrightarrow> execute x env node ctx input = Ok out"
  unfolding workflow_calls_def by (drule actor_call_Ok) (simp add: node_attempts_def)

lemma workflow_calls_Err:
  "workflow_calls cfg x env node ctx input (Err e) \<Longrightarrow>
   e \<in> executor_errors cfg \<or> execute x env node ctx input = Err e"
  unfolding workflow_calls_def by (drule actor_call_Err) (auto simp: node_attempts_def)

text \<open>A call may answer what the node does, when every attempt ends in time.\<close>

lemma workflow_calls_execute:
  assumes "execute x env node ctx input = res" and "no_panic res"
  shows "workflow_calls default_resilience x env node ctx input res"
proof -
  let ?k = "if is_err res then 2 else 0 :: nat"
  let ?run = "run default_resilience True (Instant 0) (\<lambda>i. Completed res) id (Instant 1) (cb_new 5 (from_secs 10))"
  have "stops_at default_resilience (\<lambda>i. Completed res) ?k"
    by (simp add: stops_at_def attempt_outcome_def)
  from retry_loop_stops [OF default_backoff_safe this] have "fst ?run = res"
    using assms(2)
    by (cases res) (simp_all add: run_def run_admit_def run_settle_def allow_def cb_new_def
        attempt_outcome_def on_failure_def saturating_add_def word_le_nat_alt Let_def)
  then have "executor_returns default_resilience (node_attempts x env node ctx input) res"
    unfolding executor_returns_def node_attempts_def using assms(1)
    by (intro exI [where x = True] exI [where x = "Instant 0"] exI [where x = "\<lambda>i. Completed res"]
        exI [where x = id] exI [where x = "Instant 1"] exI [where x = "cb_new 5 (from_secs 10)"]) simp
  then show ?thesis by (simp add: workflow_calls_def actor_call_def)
qed

definition offline_workflow :: "('p, 'n) dag \<Rightarrow> (node_id \<Rightarrow> 'p \<Rightarrow> 'n node) \<Rightarrow> bool" where
  "offline_workflow d factory \<longleftrightarrow> (\<forall>v \<in> node_ids d. offline_node (actor_of d factory v))"

lemma workflow_calls_value:
  assumes "offline_workflow d factory"
  shows "value_of_input d factory (workflow_calls cfg x env)"
  unfolding value_of_input_def
  using assms execute_context_free workflow_calls_Ok unfolding offline_workflow_def
  by (metis outcome.inject(1))

subsection \<open>Runs that answer at once\<close>

text \<open>
  A relation that allows more replies allows more runs; so the runs of \<open>drive\<close> in which every node
  answers at once are runs behind the executor.
\<close>

lemma sched_step_mono:
  assumes "sched_step x d factory R st st'" and "\<And>a c i res. R a c i res \<Longrightarrow> R' a c i res"
  shows "sched_step x d factory R' st st'"
  using assms by (cases rule: sched_step.cases) (blast intro: sched_step.intros)+

lemma sched_steps_mono:
  assumes "(sched_step x d factory R)\<^sup>*\<^sup>* st st'" and "\<And>a c i res. R a c i res \<Longrightarrow> R' a c i res"
  shows "(sched_step x d factory R')\<^sup>*\<^sup>* st st'"
  using assms(1)
proof (induction rule: rtranclp_induct)
  case (step y z)
  with sched_step_mono [OF step.hyps(2), of R'] assms(2) show ?case
    by (meson rtranclp.rtrancl_into_rtrancl)
qed simp

definition at_once :: "'n ext \<Rightarrow> 'n node_env \<Rightarrow> ('n node, 'n) node_fun" where
  "at_once x env node input = execute x env node (default_context []) input"

lemma execute_ctx: "execute x env node c input = execute x env node c' input"
  by (cases node) (simp_all add: constant_execute_def sha256_execute_def median_execute_def
      threshold_execute_def http_execute_def)

lemma drive_behind_executor:
  assumes "calm (at_once x env)"
  shows "(sched_step x d factory (workflow_calls default_resilience x env))\<^sup>*\<^sup>* (sched_init d)
    (drive x d factory (at_once x env) pick n (sched_init d))"
proof (rule sched_steps_mono [OF drive_steps [OF assms]])
  fix node c input res
  assume "replies_of (at_once x env) node c input res"
  then have "execute x env node c input = res" "no_panic res"
    using assms execute_ctx [of x env node c input "default_context []"]
    by (simp_all add: replies_of_def at_once_def calm_def)
  then show "workflow_calls default_resilience x env node c input res" by (rule workflow_calls_execute)
qed

lemma http_calm:
  assumes "\<And>t. no_panic (ne_client env t)" "\<And>c u. no_panic (ne_send env c u)" "\<And>r. no_panic (ne_text env r)"
  shows "no_panic (http_execute env h c i)"
  using assms by (simp add: http_execute_def and_then_no_panic Let_def)

lemma at_once_calm:
  assumes "\<And>t. no_panic (ne_client env t)" "\<And>c u. no_panic (ne_send env c u)" "\<And>r. no_panic (ne_text env r)"
  shows "calm (at_once x env)"
proof -
  have "no_panic (execute x env node c i)" for node c i
    using constant_node.calm_exec sha256_node.calm_exec median_node.calm_exec threshold_node.calm_exec
      http_calm [of env, OF assms] by (cases node) simp_all
  then show ?thesis by (simp add: calm_def at_once_def)
qed

end
