(* ===== verification/Eth_Threshold.thy ===== *)
theory Eth_Threshold
  imports Workflow
begin

section \<open>The price workflow (examples/eth\_threshold.rs)\<close>

text \<open>
  The example program of the node binary: it checks the wiring against the registry, builds the
  graph of three price sources, their median and a threshold, and runs it. The number that the
  program attests to is computed here by the nodes, under every execution of the scheduler.
\<close>

definition price_2980 :: f64 where "price_2980 = F64 0x40A7480000000000"
definition price_3050 :: f64 where "price_3050 = F64 0x40A7D50000000000"
definition price_3100 :: f64 where "price_3100 = F64 0x40A8380000000000"
definition limit_3000 :: f64 where "limit_3000 = F64 0x40A7700000000000"
definition zero_f64 :: f64 where "zero_f64 = F64 0"

definition eth_wiring :: "'n node_env \<Rightarrow> unit kernel_result" where
  "eth_wiring env =
     (let registry = with_stdlib env in
      and_then (validate_edge registry ''constant'' ''median'') (\<lambda>_.
        validate_edge registry ''median'' ''threshold''))"

definition eth_builder :: "(string, 'n) dag_builder" where
  "eth_builder =
     builder_edge ''median'' ''threshold'' Always
    (builder_edge ''p3'' ''median'' Always
    (builder_edge ''p2'' ''median'' Always
    (builder_edge ''p1'' ''median'' Always
    (builder_node ''threshold'' ''threshold''
    (builder_node ''median'' ''median''
    (builder_node ''p3'' ''constant''
    (builder_node ''p2'' ''constant''
    (builder_node ''p1'' ''constant'' (builder_new ''eth-threshold-3000'')))))))))"

definition eth_prices :: "'n ext \<Rightarrow> (string, 'n json) hash_map" where
  "eth_prices x =
     hm_insert ''p3'' (json_of_f64 x price_3100)
    (hm_insert ''p2'' (json_of_f64 x price_3050)
    (hm_insert ''p1'' (json_of_f64 x price_2980) hm_new))"

text \<open>The closure that makes the nodes; for a kind it does not know it panics.\<close>

definition eth_factory :: "'n ext \<Rightarrow> (string, 'n node) node_closure" where
  "eth_factory x i kind =
     (if kind = ''constant'' then
        Inr (ConstantNode (case hm_get (eth_prices x) i of Some v \<Rightarrow> v | None \<Rightarrow> json_of_f64 x zero_f64))
      else if kind = ''median'' then Inr MedianNode
      else if kind = ''threshold'' then Inr (ThresholdNode (threshold_gt limit_3000))
      else Inl Explicit_Panic)"

abbreviation eth_nodes :: "'n ext \<Rightarrow> node_id \<Rightarrow> string \<Rightarrow> 'n node" where
  "eth_nodes x \<equiv> made (eth_factory x)"

text \<open>The graph that \<open>build\<close> returns.\<close>

definition eth_dag :: "uuid \<Rightarrow> (string, 'n) dag" where
  "eth_dag uid =
     \<lparr>dag_id = uid, dag_name = ''eth-threshold-3000'',
      dag_nodes = [(''median'', ''median''), (''p1'', ''constant''), (''p2'', ''constant''),
        (''p3'', ''constant''), (''threshold'', ''threshold'')],
      dag_edges =
        [\<lparr>e_from = ''p1'', e_to = ''median'', e_condition = Always\<rparr>,
         \<lparr>e_from = ''p2'', e_to = ''median'', e_condition = Always\<rparr>,
         \<lparr>e_from = ''p3'', e_to = ''median'', e_condition = Always\<rparr>,
         \<lparr>e_from = ''median'', e_to = ''threshold'', e_condition = Always\<rparr>]\<rparr>"

lemma eth_builder_dag:
  "b_name (eth_builder :: (string, 'n) dag_builder) = ''eth-threshold-3000''"
  "b_nodes (eth_builder :: (string, 'n) dag_builder) = dag_nodes (eth_dag 0 :: (string, 'n) dag)"
  "b_edges (eth_builder :: (string, 'n) dag_builder) = dag_edges (eth_dag 0 :: (string, 'n) dag)"
  by (simp_all add: eth_builder_def eth_dag_def builder_edge_def builder_node_def builder_new_def
      bt_new_def less_char_def)

lemma eth_wf: "bt_wf (dag_nodes (eth_dag uid))"
  by (simp add: eth_dag_def bt_wf_def less_char_def)

lemma eth_closed: "closed_dag (eth_dag uid)"
  by (simp add: eth_dag_def closed_dag_def)

lemma eth_unconditional: "unconditional (eth_dag uid)"
  by (simp add: eth_dag_def unconditional_def)

lemma eth_ids: "node_ids (eth_dag uid) = {''median'', ''p1'', ''p2'', ''p3'', ''threshold''}"
  by (auto simp: node_ids_def eth_dag_def dom_def split: if_splits)

lemma eth_topo: "topo_sort (eth_dag uid :: (string, 'n) dag) = Ok [''p1'', ''p2'', ''p3'', ''median'', ''threshold'']"
  unfolding eth_dag_def by code_simp

lemma eth_build: "build uid (eth_builder :: (string, 'n) dag_builder) = Ok (eth_dag uid)"
proof -
  let ?b = "eth_builder :: (string, 'n) dag_builder" and ?d = "eth_dag uid :: (string, 'n) dag"
  have d: "\<lparr>dag_id = uid, dag_name = b_name ?b, dag_nodes = b_nodes ?b, dag_edges = b_edges ?b\<rparr> = ?d"
    by (simp only: eth_builder_dag) (simp add: eth_dag_def)
  have "validate_refs (dag_nodes ?d) (dag_edges ?d) = Ok ()"
    by (simp add: eth_dag_def)
  then show ?thesis unfolding build_def d Let_def by (simp add: eth_topo)
qed

subsection \<open>The nodes of the graph\<close>

lemma eth_factory_calm:
  "List.find (\<lambda>(i, payload). isl (eth_factory x i payload)) (dag_nodes (eth_dag uid)) = None"
  by (simp add: eth_dag_def eth_factory_def)

lemma eth_actors:
  "actor_of (eth_dag uid) (eth_nodes x) ''p1'' = ConstantNode (json_of_f64 x price_2980)"
  "actor_of (eth_dag uid) (eth_nodes x) ''p2'' = ConstantNode (json_of_f64 x price_3050)"
  "actor_of (eth_dag uid) (eth_nodes x) ''p3'' = ConstantNode (json_of_f64 x price_3100)"
  "actor_of (eth_dag uid) (eth_nodes x) ''median'' = MedianNode"
  "actor_of (eth_dag uid) (eth_nodes x) ''threshold'' = ThresholdNode (threshold_gt limit_3000)"
  by (simp_all add: actor_of_def made_def eth_factory_def eth_dag_def eth_prices_def hm_get_def
      hm_insert_def hm_new_def)

lemma eth_offline: "offline_workflow (eth_dag uid) (eth_nodes x)"
  unfolding offline_workflow_def eth_ids by (simp add: eth_actors)

text \<open>
  Documented behaviour of \<open>serde_json\<close>: a finite number that is made a JSON value is read back as
  it is.
\<close>

definition f64_json_laws :: "'n ext \<Rightarrow> bool" where
  "f64_json_laws x \<longleftrightarrow> (\<forall>f. f64_is_finite f \<longrightarrow> as_f64 x (json_of_f64 x f) = Some f)"

lemma prices_finite:
  "f64_is_finite price_2980" "f64_is_finite price_3050" "f64_is_finite price_3100"
  by (simp_all add: f64_eval price_2980_def price_3050_def price_3100_def)

lemma price_median:
  "median_of (sort_by f64_cmp [price_2980, price_3050, price_3100]) = Ok price_3050"
  by (simp add: median_of_def nth_checked_def f64_cmp_def)
    (simp add: f64_eval price_2980_def price_3050_def price_3100_def)

lemma price_above: "op_holds Gt price_3050 limit_3000"
  by (simp add: f64_lt_def) (simp add: f64_eval price_3050_def limit_3000_def)

lemma numeric_price:
  "f64_json_laws x \<Longrightarrow> f64_is_finite f \<Longrightarrow> numeric x (json_of_f64 x f) = Some f"
  by (simp add: numeric_def f64_json_laws_def)

definition eth_outputs :: "'n ext \<Rightarrow> (string, 'n json) btree_map" where
  "eth_outputs x =
     [(''median'', json_of_f64 x price_3050), (''p1'', json_of_f64 x price_2980),
      (''p2'', json_of_f64 x price_3050), (''p3'', json_of_f64 x price_3100),
      (''threshold'', JObject [(''ok'', JBool True), (''value'', json_of_f64 x price_3050)])]"

lemma eth_executes:
  fixes x :: "'n ext" and uid :: uuid
  defines "d \<equiv> eth_dag uid :: (string, 'n) dag"
  assumes laws: "f64_json_laws x" and v: "v \<in> node_ids d"
  shows "\<exists>gas. execute x env (actor_of d (eth_nodes x) v) c (make_input d (eth_outputs x) v) =
    Ok \<lparr>out_value = the (bt_get (eth_outputs x) v), out_gas_used = gas\<rparr>"
proof -
  let ?input = "make_input (eth_dag uid) (eth_outputs x)"
  have "in_parents (?input ''median'') =
      bt_collect [(''p1'', json_of_f64 x price_2980), (''p2'', json_of_f64 x price_3050), (''p3'', json_of_f64 x price_3100)]"
    by (simp add: make_input_def parent_values_def parents_def eth_dag_def eth_outputs_def List.map_filter_simps)
  also have "\<dots> = [(''p1'', json_of_f64 x price_2980), (''p2'', json_of_f64 x price_3050), (''p3'', json_of_f64 x price_3100)]"
    by (intro bt_collect_wf_id) (simp add: bt_wf_def less_char_def)
  finally have "median_execute x c (?input ''median'') = Ok \<lparr>out_value = json_of_f64 x price_3050, out_gas_used = 3\<rparr>"
    by (simp add: median_execute_def bt_values_def List.map_filter_simps numeric_price [OF laws]
        prices_finite price_median Let_def del: sort_by.simps)
  moreover have "in_parents (?input ''threshold'') = [(''median'', json_of_f64 x price_3050)]"
    by (simp add: make_input_def parent_values_def parents_def eth_dag_def eth_outputs_def
        List.map_filter_simps bt_collect_wf_id bt_wf_def)
  then have "threshold_execute x (threshold_gt limit_3000) c (?input ''threshold'') =
      Ok \<lparr>out_value = JObject [(''ok'', JBool True), (''value'', json_of_f64 x price_3050)], out_gas_used = 1\<rparr>"
    using laws prices_finite(2) price_above
    by (simp add: threshold_execute_def threshold_input_def bt_values_def f64_json_laws_def
        threshold_gt_def threshold_pairs del: op_holds.simps)
  ultimately show ?thesis
    using v unfolding d_def eth_ids by (auto simp: eth_actors eth_outputs_def constant_execute_def)
qed

text \<open>
  Any way of calling the nodes that adds nothing to what they answer but errors of \<open>E\<close>: in every
  run, what has been computed so far is part of \<open>eth_outputs\<close>.
\<close>

definition executes :: "'n ext \<Rightarrow> 'n node_env \<Rightarrow> kernel_error set \<Rightarrow> ('n node, 'n) call_rel \<Rightarrow> bool" where
  "executes x env E R \<longleftrightarrow> (\<forall>node c i.
     (\<forall>out. R node c i (Ok out) \<longrightarrow> execute x env node c i = Ok out) \<and>
     (\<forall>e. R node c i (Err e) \<longrightarrow> e \<in> E \<or> execute x env node c i = Err e))"

lemma executes_calls: "executes x env (executor_errors cfg) (workflow_calls cfg x env)"
  using workflow_calls_Ok workflow_calls_Err unfolding executes_def by metis

lemma eth_partial:
  fixes d :: "(string, 'n) dag"
  assumes laws: "f64_json_laws x" and d: "d = eth_dag uid" and R: "executes x env E R"
    and prov: "provenance d (eth_nodes x) R outs"
    and dom: "dom (bt_get outs) \<subseteq> reached x d outs"
  shows "bt_get outs v = Some w \<Longrightarrow> bt_get (eth_outputs x) v = Some w"
    and "v \<in> reached x d outs \<Longrightarrow> make_input d outs v = make_input d (eth_outputs x) v"
proof -
  have input: "make_input d outs v = make_input d (eth_outputs x) v"
    if IH: "\<And>e w. e \<in> set (parents d v) \<Longrightarrow> bt_get outs (e_from e) = Some w \<Longrightarrow>
        bt_get (eth_outputs x) (e_from e) = Some w" and v: "v \<in> reached x d outs" for v
  proof (intro make_input_cong ballI)
    fix e assume e: "e \<in> set (parents d v)"
    with v obtain u where "bt_get outs (e_from e) = Some u"
      using fired_source [of x outs e] by (auto simp: reached_def)
    with IH [OF e this] show "bt_get outs (e_from e) = bt_get (eth_outputs x) (e_from e)" by simp
  qed
  have "acyclic (edge_rel d)"
    unfolding d by (rule topo_order_acyclic [OF topo_sort_Ok_order [OF eth_closed eth_wf eth_topo]])
  then have part: "\<forall>w. bt_get outs v = Some w \<longrightarrow> bt_get (eth_outputs x) v = Some w" for v
  proof (induction v rule: edge_induct)
    case (node v)
    have "bt_get (eth_outputs x) v = Some w" if w: "bt_get outs v = Some w" for w
    proof -
      have v: "v \<in> reached x d outs" using dom w by blast
      then have ids: "v \<in> node_ids (eth_dag uid :: (string, 'n) dag)" unfolding d by (simp add: reached_def)
      obtain trace gas where "R (actor_of d (eth_nodes x) v)
          (default_context trace) (make_input d outs v) (Ok \<lparr>out_value = w, out_gas_used = gas\<rparr>)"
        using prov w unfolding provenance_def answered_def actor_of_def by blast
      with R have "execute x env (actor_of d (eth_nodes x) v) (default_context trace)
          (make_input d (eth_outputs x) v) = Ok \<lparr>out_value = w, out_gas_used = gas\<rparr>"
        using input [of v] node.IH v unfolding executes_def by metis
      with eth_executes [OF laws ids, of env "default_context trace"]
      have "w = the (bt_get (eth_outputs x) v)" unfolding d by auto
      moreover have "bt_get (eth_outputs x) v \<noteq> None"
        using ids unfolding eth_ids by (auto simp: eth_outputs_def)
      ultimately show ?thesis by auto
    qed
    then show ?case by blast
  qed
  then show "bt_get outs v = Some w \<Longrightarrow> bt_get (eth_outputs x) v = Some w" by blast
  show "v \<in> reached x d outs \<Longrightarrow> make_input d outs v = make_input d (eth_outputs x) v"
    using part input by blast
qed

lemma eth_outputs_wf: "bt_wf (eth_outputs x)"
  by (simp add: eth_outputs_def bt_wf_def less_char_def)

lemma eth_result:
  fixes st :: "('n node, 'n) sched"
  assumes laws: "f64_json_laws x" and R: "executes x env E R"
    and steps: "(sched_step x (eth_dag uid) (eth_nodes x) R)\<^sup>*\<^sup>* (sched_init (eth_dag uid)) st"
    and final: "s_status st = Some r"
  shows "r = Ok (hash_json_map x (eth_outputs x)) \<or> (\<exists>e \<in> E. r = Err e)"
proof -
  let ?d = "eth_dag uid :: (string, 'n) dag" and ?outs = "s_outputs st"
  have inv: "sched_inv x ?d (eth_nodes x) R st"
    by (rule reachable_sched_inv [OF closed_targets [OF eth_closed] eth_wf steps])
  then have prov: "provenance ?d (eth_nodes x) R ?outs" and dom: "dom (bt_get ?outs) \<subseteq> reached x ?d ?outs"
    and wf: "bt_wf ?outs" and res: "result_ok x ?d (eth_nodes x) R ?outs (s_log st) r"
    using final by (simp_all add: sched_inv_def)
  note part = eth_partial [OF laws refl R prov dom]
  show ?thesis
  proof (cases r)
    case (Ok h)
    have "bt_get ?outs v = bt_get (eth_outputs x) v" for v
    proof (cases "bt_get ?outs v")
      case None
      then have "v \<notin> node_ids ?d" using res unfolding Ok result_ok.simps by blast
      then have "bt_get (eth_outputs x) v = None" unfolding eth_ids by (simp add: eth_outputs_def)
      with None show ?thesis by simp
    next
      case (Some w)
      with part(1) [OF this] show ?thesis by simp
    qed
    then have "?outs = eth_outputs x" by (intro bt.get_inject wf eth_outputs_wf) (rule ext)
    then show ?thesis using res by (simp add: Ok)
  next
    case (Err e)
    obtain v trace where v: "v \<in> reached x ?d ?outs" and ans: "R (actor_of ?d (eth_nodes x) v)
        (default_context trace) (make_input ?d ?outs v) (Err e)"
      using unconditional_Err [OF eth_closed eth_wf eth_topo eth_unconditional steps final [unfolded Err]]
      unfolding answered_def actor_of_def by blast
    have ids: "v \<in> node_ids ?d" using v by (simp add: reached_def)
    from ans have "R (actor_of ?d (eth_nodes x) v) (default_context trace)
        (make_input ?d (eth_outputs x) v) (Err e)"
      using part(2) [OF v] by simp
    then have "e \<in> E \<or> execute x env (actor_of ?d (eth_nodes x) v) (default_context trace)
        (make_input ?d (eth_outputs x) v) = Err e"
      using R unfolding executes_def by blast
    with eth_executes [OF laws ids, of env "default_context trace"] show ?thesis by (auto simp: Err)
  next
    case (Panic p)
    with res show ?thesis by simp
  qed
qed

subsection \<open>Properties of the example\<close>

lemma demo_f64_json [simp]: "f64_json_laws demo_ext"
  by (simp add: f64_json_laws_def demo_of_f64_def)

lemma demo_calm: "calm (at_once demo_ext demo_env)"
  by (rule at_once_calm) (simp_all add: demo_env_def)

abbreviation eth_drive :: "(nat \<Rightarrow> nat) \<Rightarrow> (f64 node, f64) sched" where
  "eth_drive pick \<equiv> drive demo_ext (eth_dag 7) (eth_nodes demo_ext) (at_once demo_ext demo_env) pick
     (max_steps (eth_dag 7 :: (string, f64) dag)) (sched_init (eth_dag 7))"

lemma executes_at_once: "executes x env {} (replies_of (at_once x env))"
  unfolding executes_def replies_of_def at_once_def by (metis execute_ctx)

lemma eth_drive_Ok:
  assumes "f64_json_laws x" and calm: "calm (at_once x env)"
  shows "s_status (drive x (eth_dag uid) (eth_nodes x) (at_once x env) pick
      (max_steps (eth_dag uid :: (string, 'n) dag)) (sched_init (eth_dag uid)) :: ('n node, 'n) sched) =
    Some (Ok (hash_json_map x (eth_outputs x)))"
proof -
  let ?st = "drive x (eth_dag uid) (eth_nodes x) (at_once x env) pick
      (max_steps (eth_dag uid :: (string, 'n) dag)) (sched_init (eth_dag uid)) :: ('n node, 'n) sched"
  have start: "sched_start (eth_dag uid) (sched_init (eth_dag uid) :: ('n node, 'n) sched)"
    by (simp add: sched_start_def eth_wf closed_targets [OF eth_closed])
  have "s_status ?st \<noteq> None"
    by (rule drive_ends [OF calm sched_inv_init [OF start] sched_rank_init [OF start]])
  then obtain r where "s_status ?st = Some r" by blast
  with eth_result [OF assms(1) executes_at_once drive_steps [OF calm] this] show ?thesis by simp
qed

text \<open>
  Every execution of the example that ends returns the hash of one and the same map of outputs,
  in which the median is 3050.5 and the threshold reports that it exceeds 3000, or an error
  that the executor or the mailbox raised; no node of the example fails and no run panics.
\<close>

theorem eth_attestation:
  assumes "f64_json_laws x" and "build uid eth_builder = Ok d"
    and "(sched_step x d (eth_nodes x) (workflow_calls cfg x env))\<^sup>*\<^sup>* (sched_init d) st"
    and "s_status st = Some r"
  shows "r = Ok (hash_json_map x (eth_outputs x)) \<or> (\<exists>e \<in> executor_errors cfg. r = Err e)"
proof -
  have d: "d = eth_dag uid" using assms(2) by (simp add: eth_build)
  show ?thesis
    by (rule eth_result [OF assms(1) executes_calls assms(3) [unfolded d] assms(4)])
qed

theorem eth_attestation_witness:
  "s_status (eth_drive (\<lambda>n. n)) \<noteq> Some (Err not_reached)"
proof
  assume "s_status (eth_drive (\<lambda>n. n)) = Some (Err not_reached)"
  from eth_attestation [OF demo_f64_json eth_build drive_behind_executor [OF demo_calm] this]
  show False by (simp add: executor_errors_def not_reached_def)
qed

text \<open>
  The wiring check of the example passes, its graph builds, and when the nodes answer the run
  returns the hash, for every order of completions.
\<close>

theorem eth_returns:
  assumes "f64_json_laws x" and "calm (at_once x env)"
  shows "eth_wiring env = Ok () \<and> build uid (eth_builder :: (string, 'n) dag_builder) = Ok (eth_dag uid) \<and>
    s_status (drive x (eth_dag uid) (eth_nodes x) (at_once x env) pick
      (max_steps (eth_dag uid :: (string, 'n) dag)) (sched_init (eth_dag uid)) :: ('n node, 'n) sched) =
    Some (Ok (hash_json_map x (eth_outputs x)))"
  using eth_drive_Ok [OF assms] eth_build
  by (simp add: eth_wiring_def validate_edge_def describe_stdlib assignable_def)

theorem eth_returns_witness:
  "s_status (eth_drive (\<lambda>n. 3)) = Some (Ok (hash_json_map demo_ext (eth_outputs demo_ext)))"
  using eth_returns [OF demo_f64_json demo_calm] by blast

end
