(* ===== verification/Operator.thy ===== *)
theory Operator
  imports Capability Hash_Map Kernel_Core F64_Rounding
begin

section \<open>Operators and their registry (operator.rs)\<close>

text \<open>
  An operator, the resources in flight on it, its reputation, and the registry whose operations run
  under a write lock, so each is one step. Additions to the resources in flight are checked; the
  proofs show that a reservation never overflows them. The pool of the second half adds, beside
  the registry, the multiset of reservations that clients hold.
\<close>

record operator =
  op_id :: string
  op_total :: resource_capacity
  op_in_flight :: resource_capacity
  op_reputation :: f64

definition f64_0 :: f64 where "f64_0 = F64 0"
definition f64_1 :: f64 where "f64_1 = F64 0x3FF0000000000000"
definition f64_half_one :: f64 where "f64_half_one = F64 0x3FE0000000000000"
definition alpha :: f64 where "alpha = F64 0x3FC999999999999A"

definition operator_new :: "string \<Rightarrow> resource_capacity \<Rightarrow> operator" where
  "operator_new i capacity =
     \<lparr>op_id = i, op_total = capacity,
      op_in_flight = \<lparr>cpu_cores = 0, ram_mb = 0, gpu_vram_mb = 0, capabilities = capabilities capacity\<rparr>,
      op_reputation = f64_half_one\<rparr>"

definition free :: "operator \<Rightarrow> resource_capacity" where
  "free o1 =
     \<lparr>cpu_cores = saturating_sub (cpu_cores (op_total o1)) (cpu_cores (op_in_flight o1)),
      ram_mb = saturating_sub (ram_mb (op_total o1)) (ram_mb (op_in_flight o1)),
      gpu_vram_mb = saturating_sub (gpu_vram_mb (op_total o1)) (gpu_vram_mb (op_in_flight o1)),
      capabilities = capabilities (op_total o1)\<rparr>"

definition can_take :: "operator \<Rightarrow> resource_requirements \<Rightarrow> bool" where
  "can_take o1 req = satisfies (free o1) req"

datatype delegation_outcome = Delegation_Success | Delegation_Failure string | Delegation_Timeout
  | OperatorDisconnect

record 'n delegation =
  dl_id :: uuid
  dl_kind :: string
  dl_args :: "'n json"
  dl_requirements :: resource_requirements

subsection \<open>The registry\<close>

type_synonym operator_registry = "(string, operator) hash_map"

definition operator_registry_new :: operator_registry where
  [simp]: "operator_registry_new = hm_new"

definition register_op :: "operator \<Rightarrow> operator_registry \<Rightarrow> operator_registry" where
  "register_op o1 g = hm_insert (op_id o1) o1 g"

definition deregister :: "string \<Rightarrow> operator_registry \<Rightarrow> operator option \<times> operator_registry" where
  "deregister i g = (hm_get g i, hm_remove i g)"

definition snapshot :: "operator_registry \<Rightarrow> operator list" where
  "snapshot g = hm_values g"

definition commit :: "resource_requirements \<Rightarrow> resource_capacity \<Rightarrow> resource_capacity kernel_result" where
  "commit req c =
     and_then (add_w (cpu_cores c) (req_cpu_cores req)) (\<lambda>cpu.
     and_then (add_w (ram_mb c) (req_ram_mb req)) (\<lambda>ram.
     and_then (add_w (gpu_vram_mb c) (req_gpu_vram_mb req)) (\<lambda>vram.
       Ok (c\<lparr>cpu_cores := cpu, ram_mb := ram, gpu_vram_mb := vram\<rparr>))))"

definition reserve :: "string \<Rightarrow> resource_requirements \<Rightarrow> operator_registry \<Rightarrow>
    unit kernel_result \<times> operator_registry" where
  "reserve i req g =
     (case hm_get g i of
        None \<Rightarrow> (Err (NodeNotFound i), g)
      | Some o1 \<Rightarrow>
          if \<not> can_take o1 req then (Err RateLimited, g)
          else (case commit req (op_in_flight o1) of
                  Ok c \<Rightarrow> (Ok (), hm_insert i (o1\<lparr>op_in_flight := c\<rparr>) g)
                | Err e \<Rightarrow> (Err e, g)
                | Panic p \<Rightarrow> (Panic p, g)))"

definition uncommit :: "resource_requirements \<Rightarrow> resource_capacity \<Rightarrow> resource_capacity" where
  "uncommit req c =
     c\<lparr>cpu_cores := saturating_sub (cpu_cores c) (req_cpu_cores req),
       ram_mb := saturating_sub (ram_mb c) (req_ram_mb req),
       gpu_vram_mb := saturating_sub (gpu_vram_mb c) (req_gpu_vram_mb req)\<rparr>"

definition release :: "string \<Rightarrow> resource_requirements \<Rightarrow> operator_registry \<Rightarrow> operator_registry" where
  "release i req g =
     (case hm_get g i of
        Some o1 \<Rightarrow> hm_insert i (o1\<lparr>op_in_flight := uncommit req (op_in_flight o1)\<rparr>) g
      | None \<Rightarrow> g)"

fun sample :: "delegation_outcome \<Rightarrow> f64" where
  "sample Delegation_Success = f64_1"
| "sample (Delegation_Failure s) = f64_0"
| "sample Delegation_Timeout = f64_0"
| "sample OperatorDisconnect = f64_0"

definition ewma :: "f64 \<Rightarrow> f64 \<Rightarrow> f64" where
  "ewma s reputation = f64_add (f64_mul alpha s) (f64_mul (f64_sub f64_1 alpha) reputation)"

definition record_outcome :: "string \<Rightarrow> delegation_outcome \<Rightarrow> operator_registry \<Rightarrow> operator_registry" where
  "record_outcome i outcome g =
     (case hm_get g i of
        Some o1 \<Rightarrow> hm_insert i (o1\<lparr>op_reputation := ewma (sample outcome) (op_reputation o1)\<rparr>) g
      | None \<Rightarrow> g)"

subsection \<open>Reservations fit\<close>

lemma can_take_iff:
  "can_take o1 req \<longleftrightarrow>
     unat (req_cpu_cores req) \<le> unat (cpu_cores (op_total o1)) - unat (cpu_cores (op_in_flight o1)) \<and>
     unat (req_ram_mb req) \<le> unat (ram_mb (op_total o1)) - unat (ram_mb (op_in_flight o1)) \<and>
     unat (req_gpu_vram_mb req) \<le> unat (gpu_vram_mb (op_total o1)) - unat (gpu_vram_mb (op_in_flight o1)) \<and>
     set (req_capabilities req) \<subseteq> set (capabilities (op_total o1))"
  by (simp add: can_take_def satisfies_iff free_def)

lemma add_fits:
  fixes a b t :: u32
  assumes "unat b \<le> unat t - unat a"
  shows "add_w a b = Ok (a + b)" and "unat (a + b) = unat a + unat b"
proof -
  have "unat a + unat b < 2 ^ LENGTH(32)"
    using assms unsigned_less [of t, where ?'a = nat] unsigned_less [of a, where ?'a = nat] by simp
  then show "add_w a b = Ok (a + b)" and "unat (a + b) = unat a + unat b"
    by (simp_all add: add_w_def unat_add_lem [THEN iffD1])
qed

lemma commit_Ok:
  assumes "can_take o1 req"
  obtains c where "commit req (op_in_flight o1) = Ok c"
    and "unat (cpu_cores c) = unat (cpu_cores (op_in_flight o1)) + unat (req_cpu_cores req)"
    and "unat (ram_mb c) = unat (ram_mb (op_in_flight o1)) + unat (req_ram_mb req)"
    and "unat (gpu_vram_mb c) = unat (gpu_vram_mb (op_in_flight o1)) + unat (req_gpu_vram_mb req)"
    and "capabilities c = capabilities (op_in_flight o1)"
proof -
  note fits = assms [unfolded can_take_iff]
  note cpu = add_fits [OF fits [THEN conjunct1]]
    and ram = add_fits [OF fits [THEN conjunct2, THEN conjunct1]]
    and vram = add_fits [OF fits [THEN conjunct2, THEN conjunct2, THEN conjunct1]]
  show thesis
    by (rule that [of "(op_in_flight o1)\<lparr>cpu_cores := cpu_cores (op_in_flight o1) + req_cpu_cores req,
        ram_mb := ram_mb (op_in_flight o1) + req_ram_mb req,
        gpu_vram_mb := gpu_vram_mb (op_in_flight o1) + req_gpu_vram_mb req\<rparr>"])
      (simp_all add: commit_def cpu ram vram)
qed

subsection \<open>The reputation\<close>

definition unit_interval :: "f64 \<Rightarrow> bool" where
  "unit_interval r \<longleftrightarrow> f64_is_finite r \<and> 0 \<le> f64_val r \<and> f64_val r \<le> 1"

lemma f64_consts:
  "f64_is_finite f64_0" "f64_is_finite f64_1" "f64_is_finite alpha" "f64_is_finite f64_half_one"
  "f64_val f64_0 = 0" "f64_val f64_1 = 1" "f64_val f64_half_one = 1 / 2"
  by (simp_all add: f64_0_def f64_1_def alpha_def f64_half_one_def f64_eval f64_val_def mag_val_def)

lemma one_minus_alpha: "f64_sub f64_1 alpha = F64 0x3FE999999999999A"
  by (simp add: f64_eval f64_1_def alpha_def)

lemma one_minus_alpha_val:
  "f64_is_finite (f64_sub f64_1 alpha)" "0 \<le> f64_val (f64_sub f64_1 alpha)"
  "f64_val (f64_sub f64_1 alpha) \<le> 1"
  unfolding one_minus_alpha by (simp_all add: f64_val_def f64_eval mag_val_def power_int_def power_divide)

lemma alpha_products:
  "f64_mul alpha f64_1 = alpha" "f64_mul alpha f64_0 = f64_0"
  "f64_add alpha (f64_sub f64_1 alpha) = f64_1" "0 \<le> f64_val alpha"
  unfolding one_minus_alpha
  by (simp_all add: alpha_def f64_1_def f64_0_def f64_eval f64_val_def mag_val_def)

lemma unit_interval_key: "unit_interval r \<longleftrightarrow> f64_is_finite r \<and> 0 \<le> f64_key r \<and> f64_key r \<le> f64_key f64_1"
proof (cases "f64_is_finite r")
  case True
  have "f64_key f64_0 = 0" by (simp add: f64_0_def f64_eval)
  then show ?thesis
    using rn.key_le_iff [OF f64_consts(1) True] rn.key_le_iff [OF True f64_consts(2)]
    by (simp add: unit_interval_def f64_consts)
qed (simp add: unit_interval_def)

lemma unit_interval_rnd:
  assumes "f64_key r = rnd_key y" and "\<not> f64_is_nan r" and "0 \<le> y" and "y \<le> f64_val b" and "unit_interval b"
  shows "unit_interval r" and "f64_val r \<le> f64_val b"
proof -
  have b: "f64_is_finite b" "f64_key b \<le> f64_key f64_1" using assms(5) by (simp_all add: unit_interval_key)
  have zero: "f64_key f64_0 = 0" by (simp add: f64_0_def f64_eval)
  have low: "0 \<le> f64_key r" using rn.rnd_lower [OF f64_consts(1), of y] assms(1,3) zero by (simp add: f64_consts)
  have up: "f64_key r \<le> f64_key b" using rn.rnd_upper [OF b(1) assms(4)] assms(1) by simp
  have fin: "f64_is_finite r"
    by (rule finite_between [OF f64_consts(1) b(1) assms(2)]) (use low up zero in simp_all)
  show "unit_interval r" using fin low up b(2) by (simp add: unit_interval_key)
  show "f64_val r \<le> f64_val b" using rn.key_le_iff [OF fin b(1)] up by simp
qed

lemma ewma_unit:
  assumes r: "unit_interval r"
  shows "unit_interval (ewma (sample outcome) r)"
    and "sample outcome = f64_0 \<Longrightarrow> f64_val (ewma (sample outcome) r) \<le> f64_val r"
proof -
  let ?k = "f64_sub f64_1 alpha"
  let ?p = "f64_mul ?k r"
  note k = one_minus_alpha_val
  have fin: "f64_is_finite r" "0 \<le> f64_val r" "f64_val r \<le> 1" using r by (simp_all add: unit_interval_def)
  have ku: "unit_interval ?k" using k by (simp add: unit_interval_def)
  have nn: "0 \<le> f64_val ?k * f64_val r" using k fin by simp
  have "f64_val ?k * f64_val r \<le> f64_val ?k" using k fin by (simp add: mult_left_le)
  note pk = unit_interval_rnd [OF key_mul [OF k(1) fin(1)] nn this ku]
  have "f64_val ?k * f64_val r \<le> f64_val r" using k fin by (simp add: mult_left_le_one_le)
  note pr = unit_interval_rnd [OF key_mul [OF k(1) fin(1)] nn this r]
  have p: "f64_is_finite ?p" "0 \<le> f64_val ?p" using pk(1) by (simp_all add: unit_interval_def)
  have succ: "unit_interval (f64_add alpha ?p)"
  proof -
    have "f64_key (f64_add alpha ?p) \<le> f64_key (f64_add alpha ?k)"
      using key_add(1) [OF f64_consts(3) p(1)] key_add(1) [OF f64_consts(3) k(1)] pk(2)
      by (simp add: rnd_key_mono)
    then have up: "f64_key (f64_add alpha ?p) \<le> f64_key f64_1" by (simp add: alpha_products)
    have zero: "f64_key f64_0 = 0" by (simp add: f64_0_def f64_eval)
    have low: "f64_key f64_0 \<le> f64_key (f64_add alpha ?p)"
      using key_add(1) [OF f64_consts(3) p(1)] alpha_products(4) p(2)
      by (simp add: rn.rnd_lower [OF f64_consts(1)] f64_consts)
    have "f64_is_finite (f64_add alpha ?p)"
      by (rule finite_between [OF f64_consts(1,2) key_add(2) [OF f64_consts(3) p(1)] low up])
    then show ?thesis using low up zero by (simp add: unit_interval_key)
  qed
  have fail: "unit_interval (f64_add f64_0 ?p)" "f64_val (f64_add f64_0 ?p) \<le> f64_val r"
  proof -
    have *: "0 \<le> f64_val f64_0 + f64_val ?p" "f64_val f64_0 + f64_val ?p \<le> f64_val r"
      using p pr(2) by (simp_all add: f64_consts)
    show "unit_interval (f64_add f64_0 ?p)" "f64_val (f64_add f64_0 ?p) \<le> f64_val r"
      by (rule unit_interval_rnd [OF key_add [OF f64_consts(1) p(1)] * r])+
  qed
  have "sample outcome = f64_1 \<or> sample outcome = f64_0" by (cases outcome) simp_all
  then show "unit_interval (ewma (sample outcome) r)"
    using succ fail(1) by (auto simp: ewma_def alpha_products)
  show "sample outcome = f64_0 \<Longrightarrow> f64_val (ewma (sample outcome) r) \<le> f64_val r"
    using fail(2) by (simp add: ewma_def alpha_products)
qed

end
