(* ===== verification/Matchmaker.thy ===== *)
theory Matchmaker
  imports Operator Sort_By
begin

section \<open>The reservation ledger and the matchmaker (operator.rs, strategy.rs)\<close>

text \<open>
  The pool couples the registry with what its clients hold: the multiset of reservations granted
  and not yet released. Its steps are the registry operations as the protocol uses them; the
  invariant says that the counters of an operator are exactly the sums of its ledger and never
  exceed its total. The second half models \<open>ReputationMatchmaker::select\<close>, states the contract of
  a \<open>Matchmaker\<close> as a locale and proves that the strategy meets it.
\<close>

subsection \<open>The pool\<close>

record pool =
  p_registry :: operator_registry
  p_ledger :: "string \<Rightarrow> resource_requirements multiset"

definition sum_of :: "(resource_requirements \<Rightarrow> u32) \<Rightarrow> resource_requirements multiset \<Rightarrow> nat" where
  "sum_of field L = sum_mset (image_mset (\<lambda>req. unat (field req)) L)"

lemma sum_of_simps [simp]:
  "sum_of field {#} = 0"
  "sum_of field (add_mset req L) = unat (field req) + sum_of field L"
  by (simp_all add: sum_of_def)

lemma sum_of_remove: "req \<in># L \<Longrightarrow> sum_of field L = unat (field req) + sum_of field (L - {#req#})"
  by (metis insert_DiffM sum_of_simps(2))

definition accounts :: "operator \<Rightarrow> resource_requirements multiset \<Rightarrow> bool" where
  "accounts o1 L \<longleftrightarrow>
     unat (cpu_cores (op_in_flight o1)) = sum_of req_cpu_cores L \<and>
     unat (ram_mb (op_in_flight o1)) = sum_of req_ram_mb L \<and>
     unat (gpu_vram_mb (op_in_flight o1)) = sum_of req_gpu_vram_mb L \<and>
     sum_of req_cpu_cores L \<le> unat (cpu_cores (op_total o1)) \<and>
     sum_of req_ram_mb L \<le> unat (ram_mb (op_total o1)) \<and>
     sum_of req_gpu_vram_mb L \<le> unat (gpu_vram_mb (op_total o1)) \<and>
     (\<forall>req \<in># L. set (req_capabilities req) \<subseteq> set (capabilities (op_total o1)))"

text \<open>
  A registry is keyed when every operator is stored under its own id. A client registers an
  operator under an unused id, releases only what it holds, and deregisters an idle operator.
\<close>

definition keyed :: "operator_registry \<Rightarrow> bool" where
  "keyed g \<longleftrightarrow> hm_wf g \<and> (\<forall>i o1. hm_get g i = Some o1 \<longrightarrow> op_id o1 = i)"

inductive pool_step :: "pool \<Rightarrow> pool \<Rightarrow> bool" where
  pool_register:
    "hm_get (p_registry s) i = None \<Longrightarrow>
     pool_step s (s\<lparr>p_registry := register_op (operator_new i capacity) (p_registry s)\<rparr>)"
| pool_reserve:
    "reserve i req (p_registry s) = (Ok (), g) \<Longrightarrow>
     pool_step s (s\<lparr>p_registry := g, p_ledger := (p_ledger s)(i := add_mset req (p_ledger s i))\<rparr>)"
| pool_refuse:
    "reserve i req (p_registry s) = (Err e, g) \<Longrightarrow> pool_step s (s\<lparr>p_registry := g\<rparr>)"
| pool_release:
    "req \<in># p_ledger s i \<Longrightarrow>
     pool_step s (s\<lparr>p_registry := release i req (p_registry s),
                   p_ledger := (p_ledger s)(i := p_ledger s i - {#req#})\<rparr>)"
| pool_outcome:
    "pool_step s (s\<lparr>p_registry := record_outcome i oc (p_registry s)\<rparr>)"
| pool_deregister:
    "p_ledger s i = {#} \<Longrightarrow>
     pool_step s (s\<lparr>p_registry := snd (deregister i (p_registry s))\<rparr>)"

definition pool_new :: pool where
  "pool_new = \<lparr>p_registry = operator_registry_new, p_ledger = (\<lambda>i. {#})\<rparr>"

definition pool_inv :: "pool \<Rightarrow> bool" where
  "pool_inv s \<longleftrightarrow> hm_wf (p_registry s) \<and>
     (\<forall>i. hm_get (p_registry s) i = None \<longrightarrow> p_ledger s i = {#}) \<and>
     (\<forall>i o1. hm_get (p_registry s) i = Some o1 \<longrightarrow>
        op_id o1 = i \<and> accounts o1 (p_ledger s i) \<and> unit_interval (op_reputation o1))"

lemma pool_invI:
  assumes "hm_wf (p_registry s)"
    and "\<And>i. hm_get (p_registry s) i = None \<Longrightarrow> p_ledger s i = {#}"
    and "\<And>i o1. hm_get (p_registry s) i = Some o1 \<Longrightarrow>
      op_id o1 = i \<and> accounts o1 (p_ledger s i) \<and> unit_interval (op_reputation o1)"
  shows "pool_inv s"
  using assms by (simp add: pool_inv_def)

lemma pool_invD:
  assumes "pool_inv s" and "hm_get (p_registry s) i = Some o1"
  shows "op_id o1 = i" and "accounts o1 (p_ledger s i)" and "unit_interval (op_reputation o1)"
  using assms by (simp_all add: pool_inv_def)

text \<open>Replacing the operator stored under \<open>i\<close>, together with the ledger of \<open>i\<close>.\<close>

lemma pool_inv_update:
  assumes inv: "pool_inv s" and "hm_get (p_registry s) i = Some o1"
    and "op_id o2 = i" and "accounts o2 L" and "unit_interval (op_reputation o2)"
  shows "pool_inv (s\<lparr>p_registry := hm_insert i o2 (p_registry s), p_ledger := (p_ledger s)(i := L)\<rparr>)"
  using assms by (intro pool_invI) (auto simp: pool_inv_def hm.get_insert hm.wf_insert split: if_splits)

lemma accounts_commit:
  assumes acc: "accounts o1 L" and take: "can_take o1 req" and ok: "commit req (op_in_flight o1) = Ok c"
  shows "accounts (o1\<lparr>op_in_flight := c\<rparr>) (add_mset req L)"
proof -
  obtain c' where "commit req (op_in_flight o1) = Ok c'"
    and c': "unat (cpu_cores c') = unat (cpu_cores (op_in_flight o1)) + unat (req_cpu_cores req)"
      "unat (ram_mb c') = unat (ram_mb (op_in_flight o1)) + unat (req_ram_mb req)"
      "unat (gpu_vram_mb c') = unat (gpu_vram_mb (op_in_flight o1)) + unat (req_gpu_vram_mb req)"
    by (rule commit_Ok [OF take])
  then have "c = c'" using ok by simp
  with acc take c' show ?thesis by (auto simp: accounts_def can_take_iff)
qed

lemma accounts_uncommit:
  assumes acc: "accounts o1 L" and req: "req \<in># L"
  shows "accounts (o1\<lparr>op_in_flight := uncommit req (op_in_flight o1)\<rparr>) (L - {#req#})"
  using acc sum_of_remove [OF req] by (auto simp: accounts_def uncommit_def dest: in_diffD)

lemma pool_inv_step:
  assumes inv: "pool_inv s" and step: "pool_step s t"
  shows "pool_inv t"
  using step
proof cases
  case (pool_register i capacity)
  have "accounts (operator_new i capacity) {#}" "unit_interval (op_reputation (operator_new i capacity))"
    by (simp_all add: accounts_def operator_new_def unit_interval_def f64_consts)
  moreover have "op_id (operator_new i capacity) = i" by (simp add: operator_new_def)
  ultimately show ?thesis
    using inv pool_register unfolding pool_register(1)
    by (intro pool_invI) (auto simp: pool_inv_def register_op_def hm.get_insert hm.wf_insert split: if_splits)
next
  case (pool_reserve i req g)
  then obtain o1 c where o1: "hm_get (p_registry s) i = Some o1" "can_take o1 req"
    and c: "commit req (op_in_flight o1) = Ok c" and g: "g = hm_insert i (o1\<lparr>op_in_flight := c\<rparr>) (p_registry s)"
    by (auto simp: reserve_def split: option.splits if_splits outcome.splits)
  note d = pool_invD [OF inv o1(1)]
  show ?thesis
    unfolding pool_reserve(1) g
    by (rule pool_inv_update [OF inv o1(1)]) (use d accounts_commit [OF d(2) o1(2) c] in simp_all)
next
  case (pool_refuse i req e g)
  then have "g = p_registry s" by (auto simp: reserve_def split: option.splits if_splits outcome.splits)
  with inv pool_refuse show ?thesis by simp
next
  case (pool_release req i)
  then obtain o1 where o1: "hm_get (p_registry s) i = Some o1"
    using inv by (cases "hm_get (p_registry s) i") (auto simp: pool_inv_def)
  note d = pool_invD [OF inv o1]
  have rel: "release i req (p_registry s) =
      hm_insert i (o1\<lparr>op_in_flight := uncommit req (op_in_flight o1)\<rparr>) (p_registry s)"
    by (simp add: release_def o1)
  show ?thesis
    unfolding pool_release(1) rel
    by (rule pool_inv_update [OF inv o1]) (use d accounts_uncommit [OF d(2) pool_release(2)] in simp_all)
next
  case (pool_outcome i oc)
  show ?thesis
  proof (cases "hm_get (p_registry s) i")
    case None
    with inv pool_outcome show ?thesis by (simp add: record_outcome_def)
  next
    case (Some o1)
    let ?o2 = "o1\<lparr>op_reputation := ewma (sample oc) (op_reputation o1)\<rparr>"
    note d = pool_invD [OF inv Some]
    have "accounts ?o2 (p_ledger s i)" using d(2) by (simp add: accounts_def)
    then have "pool_inv (s\<lparr>p_registry := hm_insert i ?o2 (p_registry s),
        p_ledger := (p_ledger s)(i := p_ledger s i)\<rparr>)"
      using d ewma_unit(1) [OF d(3)] by (intro pool_inv_update [OF inv Some]) simp_all
    then show ?thesis by (simp add: pool_outcome record_outcome_def Some)
  qed
next
  case (pool_deregister i)
  with inv show ?thesis
    by (intro pool_invI) (auto simp: pool_inv_def deregister_def hm.get_remove hm.wf_remove split: if_splits)
qed

interpretation pool: step_invariant "\<lambda>s. s = pool_new" pool_step pool_inv
proof unfold_locales
  show "s = pool_new \<Longrightarrow> pool_inv s" for s
    by (intro pool_invI) (simp_all add: pool_new_def hm.get_empty hm.wf_empty)
qed (rule pool_inv_step)

subsection \<open>The strategy\<close>

text \<open>\<open>1e-9\<close>, and \<open>SliceRandom::choose\<close> for a random number \<open>r\<close>.\<close>

definition tie_margin :: f64 where
  "tie_margin = F64 0x3E112E0BE826D695"

definition slice_choose :: "'a list \<Rightarrow> nat \<Rightarrow> 'a option" where
  "slice_choose xs r = (if xs = [] then None else Some (xs ! (r mod length xs)))"

definition reputation_cmp :: "operator \<Rightarrow> operator \<Rightarrow> ordering" where
  "reputation_cmp a b =
     (case f64_partial_cmp (op_reputation b) (op_reputation a) of Some c \<Rightarrow> c | None \<Rightarrow> Equal)"

definition close_to :: "f64 \<Rightarrow> operator \<Rightarrow> bool" where
  "close_to top_score o1 = f64_lt (f64_abs (f64_sub (op_reputation o1) top_score)) tie_margin"

definition no_operator :: kernel_error where
  "no_operator = Network ''no operator can satisfy requirements''"

definition select :: "operator_registry \<Rightarrow> resource_requirements \<Rightarrow> nat \<Rightarrow> string kernel_result" where
  "select g req r =
     (let candidates = filter (\<lambda>o1. can_take o1 req) (snapshot g) in
      if candidates = [] then Err no_operator
      else
        let candidates = sort_by reputation_cmp candidates;
            top_score = op_reputation (candidates ! 0);
            top_group = filter (close_to top_score) candidates
        in and_then (ok_or (slice_choose top_group r) (Network ''empty top set'')) (\<lambda>chosen. Ok (op_id chosen)))"

interpretation by_reputation: key_comparison reputation_cmp "\<lambda>o1. - f64_key (op_reputation o1)"
  "\<lambda>o1. \<not> f64_is_nan (op_reputation o1)"
  by unfold_locales (auto simp: reputation_cmp_def f64_partial_cmp_def)

definition candidates_of :: "operator_registry \<Rightarrow> resource_requirements \<Rightarrow> operator list" where
  "candidates_of g req = filter (\<lambda>o1. can_take o1 req) (snapshot g)"

lemma candidates_keyed:
  assumes "keyed g" and "o1 \<in> set (candidates_of g req)"
  shows "hm_get g (op_id o1) = Some o1 \<and> can_take o1 req"
proof -
  have "o1 \<in> set (hm_values g)" and can: "can_take o1 req"
    using assms(2) by (auto simp: candidates_of_def snapshot_def)
  then obtain i where "hm_get g i = Some o1" using assms(1) hm.vals_keyed [of g o1] by (auto simp: keyed_def)
  with assms(1) can show ?thesis by (auto simp: keyed_def)
qed

definition top_score_of :: "operator list \<Rightarrow> f64" where
  "top_score_of cs = op_reputation (sort_by reputation_cmp cs ! 0)"

definition top_group_of :: "operator list \<Rightarrow> operator list" where
  "top_group_of cs = filter (close_to (top_score_of cs)) (sort_by reputation_cmp cs)"

lemma select_unfold:
  "select g req r =
     (if candidates_of g req = [] then Err no_operator
      else case slice_choose (top_group_of (candidates_of g req)) r of
             None \<Rightarrow> Err (Network ''empty top set'') | Some chosen \<Rightarrow> Ok (op_id chosen))"
  by (auto simp: select_def candidates_of_def top_group_of_def top_score_of_def Let_def split: option.split)

lemma slice_choose_in: "slice_choose xs r = Some x \<Longrightarrow> x \<in> set xs"
  by (auto simp: slice_choose_def split: if_splits)

lemma slice_choose_any: "x \<in> set xs \<Longrightarrow> \<exists>r. slice_choose xs r = Some x"
  by (auto simp: slice_choose_def in_set_conv_nth) (metis mod_less)

subsection \<open>The contract of a matchmaker\<close>

text \<open>
  Whatever the strategy: what it selects is registered under that id and can take the task, and it
  selects something whenever it may. What follows for the caller is proved once.
\<close>

locale matchmaker =
  fixes pick :: "operator_registry \<Rightarrow> resource_requirements \<Rightarrow> nat \<Rightarrow> string kernel_result"
    and usable :: "operator_registry \<Rightarrow> bool"
  assumes pick_sound: "usable g \<Longrightarrow> pick g req r = Ok i \<Longrightarrow>
      \<exists>o1. hm_get g i = Some o1 \<and> can_take o1 req"
    and pick_complete: "usable g \<Longrightarrow> hm_get g i = Some o1 \<Longrightarrow> can_take o1 req \<Longrightarrow>
      \<exists>j. pick g req r = Ok j"
begin

lemma pick_then_reserve:
  assumes "usable g" and "pick g req r = Ok i"
  obtains o1 c where "hm_get g i = Some o1"
    and "reserve i req g = (Ok (), hm_insert i (o1\<lparr>op_in_flight := c\<rparr>) g)"
    and "unat (cpu_cores c) = unat (cpu_cores (op_in_flight o1)) + unat (req_cpu_cores req)"
    and "unat (ram_mb c) = unat (ram_mb (op_in_flight o1)) + unat (req_ram_mb req)"
    and "unat (gpu_vram_mb c) = unat (gpu_vram_mb (op_in_flight o1)) + unat (req_gpu_vram_mb req)"
    and "capabilities c = capabilities (op_in_flight o1)"
proof -
  obtain o1 where o1: "hm_get g i = Some o1" "can_take o1 req" using pick_sound [OF assms] by blast
  obtain c where c: "commit req (op_in_flight o1) = Ok c"
    "unat (cpu_cores c) = unat (cpu_cores (op_in_flight o1)) + unat (req_cpu_cores req)"
    "unat (ram_mb c) = unat (ram_mb (op_in_flight o1)) + unat (req_ram_mb req)"
    "unat (gpu_vram_mb c) = unat (gpu_vram_mb (op_in_flight o1)) + unat (req_gpu_vram_mb req)"
    "capabilities c = capabilities (op_in_flight o1)"
    by (rule commit_Ok [OF o1(2)])
  with o1 show thesis by (intro that [of o1 c]) (simp_all add: reserve_def)
qed

lemma no_pick: "usable g \<Longrightarrow> \<forall>j. pick g req r \<noteq> Ok j \<Longrightarrow> hm_get g i = Some o1 \<Longrightarrow> \<not> can_take o1 req"
  using pick_complete by blast

end

text \<open>The registries on which the strategy keeps the contract: keyed, with finite reputations.\<close>

definition rated :: "operator_registry \<Rightarrow> bool" where
  "rated g \<longleftrightarrow> keyed g \<and> (\<forall>i o1. hm_get g i = Some o1 \<longrightarrow> f64_is_finite (op_reputation o1))"

lemma rated_candidates:
  assumes "rated g" and "o1 \<in> set (candidates_of g req)"
  shows "f64_is_finite (op_reputation o1)"
  using candidates_keyed [OF _ assms(2)] assms(1) by (auto simp: rated_def)

lemma margin_consts: "f64_is_finite tie_margin" "0 < f64_key tie_margin"
  by (simp_all add: tie_margin_def f64_eval)

lemma close_to_self:
  assumes "f64_is_finite (op_reputation o1)"
  shows "close_to (op_reputation o1) o1"
proof -
  have "f64_key (f64_abs (f64_sub (op_reputation o1) (op_reputation o1))) = 0"
    using key_sub(1) [OF assms assms] by (simp add: rnd_key_def)
  then show ?thesis
    using key_sub(2) [OF assms assms] margin_consts finite_not_nan [OF margin_consts(1)]
    by (simp add: close_to_def f64_lt_def)
qed

lemma close_to_val:
  assumes "f64_is_finite (op_reputation o1)" and "f64_is_finite top_score" and "close_to top_score o1"
  shows "\<bar>f64_val (op_reputation o1) - f64_val top_score\<bar> < f64_val tie_margin"
proof (rule ccontr)
  let ?d = "f64_val (op_reputation o1) - f64_val top_score"
  assume "\<not> ?thesis"
  then have "f64_key tie_margin \<le> rnd_key \<bar>?d\<bar>" by (intro rn.rnd_lower [OF margin_consts(1)]) simp
  moreover have "rnd_key \<bar>?d\<bar> = \<bar>rnd_key ?d\<bar>"
    using rnd_key_uminus [of ?d] rnd_key_nonneg [of ?d] rnd_key_nonneg [of "- ?d"] by (simp add: abs_if) linarith
  moreover have "\<bar>rnd_key ?d\<bar> < f64_key tie_margin"
    using assms(3) by (simp add: close_to_def f64_lt_def key_sub(1) [OF assms(1,2)])
  ultimately show False by simp
qed

definition best_of :: "operator list \<Rightarrow> operator" where
  "best_of cs = sort_by reputation_cmp cs ! 0"

lemma best_of_props:
  assumes g: "rated g" and cs: "candidates_of g req \<noteq> []"
  defines "best \<equiv> best_of (candidates_of g req)"
  shows "best \<in> set (top_group_of (candidates_of g req))"
    and "top_score_of (candidates_of g req) = op_reputation best"
    and "f64_is_finite (op_reputation best)"
    and "o1 \<in> set (candidates_of g req) \<Longrightarrow> f64_val (op_reputation o1) \<le> f64_val (op_reputation best)"
proof -
  let ?cs = "candidates_of g req"
  have best: "best = sort_by reputation_cmp ?cs ! 0" by (simp add: best_def best_of_def)
  have nan: "\<forall>o1 \<in> set ?cs. \<not> f64_is_nan (op_reputation o1)"
    using rated_candidates [OF g] finite_not_nan by blast
  have mem: "best \<in> set ?cs"
    using by_reputation.sort_first [OF nan] cs unfolding best by (metis list.set_intros(1) neq_Nil_conv)
  show fin: "f64_is_finite (op_reputation best)" by (rule rated_candidates [OF g mem])
  show top: "top_score_of ?cs = op_reputation best" by (simp add: top_score_of_def best)
  show "best \<in> set (top_group_of ?cs)"
    using mem close_to_self [OF fin] by (simp add: top_group_of_def top)
  show "f64_val (op_reputation o1) \<le> f64_val (op_reputation best)" if "o1 \<in> set ?cs"
    using by_reputation.sort_first [OF nan that] rn.key_le_iff [OF rated_candidates [OF g that] fin]
    by (simp add: best)
qed

lemma select_Ok:
  assumes g: "rated g" and ok: "select g req r = Ok i"
  obtains o1 where "hm_get g i = Some o1" and "o1 \<in> set (top_group_of (candidates_of g req))"
    and "o1 \<in> set (candidates_of g req)" and "candidates_of g req \<noteq> []"
proof -
  from ok obtain o1 where ne: "candidates_of g req \<noteq> []" and i: "i = op_id o1"
    and "slice_choose (top_group_of (candidates_of g req)) r = Some o1"
    by (auto simp: select_unfold split: if_splits option.splits)
  then have top_mem: "o1 \<in> set (top_group_of (candidates_of g req))" by (blast dest: slice_choose_in)
  then have mem: "o1 \<in> set (candidates_of g req)" by (simp add: top_group_of_def)
  with candidates_keyed [OF _ mem] g i show thesis
    by (intro that [OF _ top_mem mem ne]) (simp add: rated_def)
qed

interpretation reputation: matchmaker select rated
proof
  show "\<exists>o1. hm_get g i = Some o1 \<and> can_take o1 req" if g: "rated g" and ok: "select g req r = Ok i" for g req r i
  proof -
    obtain o1 where "hm_get g i = Some o1" "o1 \<in> set (candidates_of g req)" by (rule select_Ok [OF g ok])
    then show ?thesis using candidates_keyed g by (metis option.inject rated_def)
  qed
  show "\<exists>j. select g req r = Ok j" if g: "rated g" and o1: "hm_get g i = Some o1" "can_take o1 req" for g i o1 req r
  proof -
    have "o1 \<in> set (snapshot g)" using g o1(1) by (auto simp: snapshot_def rated_def keyed_def hm.set_vals ran_def)
    then have "o1 \<in> set (candidates_of g req)" using o1(2) by (simp add: candidates_of_def)
    then have ne: "candidates_of g req \<noteq> []" by auto
    have "top_group_of (candidates_of g req) \<noteq> []" using best_of_props(1) [OF g ne] by auto
    then show ?thesis using ne by (simp add: select_unfold slice_choose_def)
  qed
qed

subsection \<open>A sample pool\<close>

definition cpus :: "u32 \<Rightarrow> resource_requirements" where
  "cpus n = \<lparr>req_cpu_cores = n, req_ram_mb = 0, req_gpu_vram_mb = 0, req_capabilities = [GenericCpu]\<rparr>"

definition solo :: operator where
  "solo = operator_new ''solo'' \<lparr>cpu_cores = 8, ram_mb = 32000, gpu_vram_mb = 0, capabilities = [GenericCpu]\<rparr>"

definition solo_registry :: operator_registry where
  "solo_registry = register_op solo operator_registry_new"

lemma solo_get: "hm_get solo_registry i = (if i = ''solo'' then Some solo else None)"
  by (simp add: solo_registry_def register_op_def hm.get_insert hm.get_empty solo_def operator_new_def)

lemma solo_rated: "rated solo_registry"
proof -
  have "hm_wf solo_registry" by (simp add: solo_registry_def register_op_def hm.wf_insert hm.wf_empty)
  then show ?thesis
    by (auto simp: rated_def keyed_def solo_get solo_def operator_new_def f64_consts split: if_splits)
qed

lemma solo_takes: "can_take solo (cpus 8)"
  by (simp add: can_take_iff solo_def operator_new_def cpus_def)

lemma solo_select: "select solo_registry (cpus 8) r = Ok ''solo''"
proof -
  obtain j where "select solo_registry (cpus 8) r = Ok j"
    using reputation.pick_complete [OF solo_rated] solo_takes by (metis solo_get)
  moreover from this obtain o1 where "hm_get solo_registry j = Some o1"
    using reputation.pick_sound [OF solo_rated] by blast
  ultimately show ?thesis by (auto simp: solo_get split: if_splits)
qed

definition solo_pool :: pool where
  "solo_pool = pool_new\<lparr>p_registry := solo_registry\<rparr>"

lemma solo_pool_reachable: "pool_step\<^sup>*\<^sup>* pool_new solo_pool"
proof -
  have "pool_step pool_new (pool_new\<lparr>p_registry := register_op (operator_new ''solo'' (op_total solo)) (p_registry pool_new)\<rparr>)"
    by (rule pool_register) (simp add: pool_new_def hm.get_empty)
  then show ?thesis by (simp add: solo_pool_def pool_new_def solo_registry_def solo_def operator_new_def)
qed

subsection \<open>Properties of the matchmaker\<close>

text \<open>
  What \<open>reserve\<close> does, on every branch: an unknown operator and a request that does not fit are
  refused without a change; otherwise the request is added to the resources in flight. The
  additions never overflow, whatever the registry holds, and an operator within its total stays
  within it.
\<close>

theorem reserve_result:
  "case hm_get g i of
     None \<Rightarrow> reserve i req g = (Err (NodeNotFound i), g)
   | Some o1 \<Rightarrow>
       if \<not> can_take o1 req then reserve i req g = (Err RateLimited, g)
       else \<exists>c. reserve i req g = (Ok (), hm_insert i (o1\<lparr>op_in_flight := c\<rparr>) g) \<and>
         unat (cpu_cores c) = unat (cpu_cores (op_in_flight o1)) + unat (req_cpu_cores req) \<and>
         unat (ram_mb c) = unat (ram_mb (op_in_flight o1)) + unat (req_ram_mb req) \<and>
         unat (gpu_vram_mb c) = unat (gpu_vram_mb (op_in_flight o1)) + unat (req_gpu_vram_mb req) \<and>
         cpu_cores c \<le> max (cpu_cores (op_total o1)) (cpu_cores (op_in_flight o1)) \<and>
         ram_mb c \<le> max (ram_mb (op_total o1)) (ram_mb (op_in_flight o1)) \<and>
         gpu_vram_mb c \<le> max (gpu_vram_mb (op_total o1)) (gpu_vram_mb (op_in_flight o1))"
proof (cases "hm_get g i")
  case (Some o1)
  show ?thesis
  proof (cases "can_take o1 req")
    case True
    obtain c where c: "commit req (op_in_flight o1) = Ok c"
      "unat (cpu_cores c) = unat (cpu_cores (op_in_flight o1)) + unat (req_cpu_cores req)"
      "unat (ram_mb c) = unat (ram_mb (op_in_flight o1)) + unat (req_ram_mb req)"
      "unat (gpu_vram_mb c) = unat (gpu_vram_mb (op_in_flight o1)) + unat (req_gpu_vram_mb req)"
      by (rule commit_Ok [OF True])
    have within: "u \<le> max t a" if "unat u = unat a + unat b" "unat b \<le> unat t - unat a" for u a b t :: u32
      using that by (auto simp: word_le_nat_alt max_def)
    have "reserve i req g = (Ok (), hm_insert i (o1\<lparr>op_in_flight := c\<rparr>) g)"
      by (simp add: reserve_def Some True c(1))
    with c True [unfolded can_take_iff] within show ?thesis
      by (simp only: Some option.case True not_True_eq_False if_False) blast
  qed (simp add: Some reserve_def)
qed (simp add: reserve_def)

text \<open>
  C14: No overbooking and no leak: in every state that clients keeping the protocol can reach, in
  any interleaving, the resources in flight on an operator are exactly the sum of the
  reservations held on it, that sum is within its total, and every held reservation asked only for
  capabilities it has.
\<close>

theorem pool_accounting:
  assumes "pool_step\<^sup>*\<^sup>* pool_new s" and "hm_get (p_registry s) i = Some o1"
  shows "op_id o1 = i \<and> accounts o1 (p_ledger s i)"
  using pool_invD(1,2) [OF pool.reachable_inv [OF refl assms(1)] assms(2)] by blast

theorem pool_accounting_witness: "accounts solo {#}"
  using pool_accounting [OF solo_pool_reachable, of "''solo''" solo]
  by (simp add: solo_pool_def solo_get pool_new_def)

text \<open>
  C34: The reputation of an operator stays a finite number between 0 and 1 whatever outcomes are
  recorded, in the binary64 arithmetic of the code with its rounding, and an outcome other than
  success never raises it.
\<close>

theorem reputation_bounded:
  assumes "unit_interval (op_reputation o1)" and "hm_get g i = Some o1"
  shows "\<exists>o2. hm_get (record_outcome i outcome g) i = Some o2 \<and> unit_interval (op_reputation o2) \<and>
    (outcome \<noteq> Delegation_Success \<longrightarrow> f64_val (op_reputation o2) \<le> f64_val (op_reputation o1))"
proof -
  have "sample outcome = f64_0" if "outcome \<noteq> Delegation_Success" using that by (cases outcome) simp_all
  with ewma_unit [OF assms(1), of outcome] assms(2) show ?thesis
    by (simp add: record_outcome_def hm.get_insert)
qed

theorem reputation_bounded_witness:
  "\<exists>o2. hm_get (record_outcome ''solo'' Delegation_Timeout solo_registry) ''solo'' = Some o2 \<and>
     f64_val (op_reputation o2) \<le> 1 / 2"
proof -
  have "unit_interval (op_reputation solo)" "f64_val (op_reputation solo) = 1 / 2"
    by (simp_all add: solo_def operator_new_def unit_interval_def f64_consts)
  with reputation_bounded [of solo solo_registry "''solo''" Delegation_Timeout] solo_get show ?thesis by auto
qed

text \<open>
  C32: What \<open>select\<close> returns is registered, can take the task, and no other operator that can take it
  has a reputation larger by \<open>1e-9\<close> or more.
\<close>

theorem select_best:
  assumes "rated g" and "select g req r = Ok i"
  shows "\<exists>o1. hm_get g i = Some o1 \<and> can_take o1 req \<and>
    (\<forall>j o2. hm_get g j = Some o2 \<longrightarrow> can_take o2 req \<longrightarrow>
       f64_val (op_reputation o2) - f64_val (op_reputation o1) < f64_val tie_margin)"
proof -
  obtain o1 where o1: "hm_get g i = Some o1" "o1 \<in> set (top_group_of (candidates_of g req))"
    "o1 \<in> set (candidates_of g req)" "candidates_of g req \<noteq> []"
    by (rule select_Ok [OF assms])
  note best = best_of_props [OF assms(1) o1(4)]
  have "close_to (op_reputation (best_of (candidates_of g req))) o1"
    using o1(2) by (simp add: top_group_of_def best(2))
  note close = close_to_val [OF rated_candidates [OF assms(1) o1(3)] best(3) this]
  have "f64_val (op_reputation o2) - f64_val (op_reputation o1) < f64_val tie_margin"
    if "hm_get g j = Some o2" "can_take o2 req" for j o2
  proof -
    have "o2 \<in> set (snapshot g)"
      using assms(1) that(1) by (auto simp: snapshot_def rated_def keyed_def hm.set_vals ran_def)
    then have "o2 \<in> set (candidates_of g req)" using that(2) by (simp add: candidates_of_def)
    from best(4) [OF this] close show ?thesis by linarith
  qed
  moreover have "can_take o1 req" using o1(3) by (simp add: candidates_of_def)
  ultimately show ?thesis using o1(1) by blast
qed

theorem select_best_witness:
  "\<exists>o1. hm_get solo_registry ''solo'' = Some o1 \<and> can_take o1 (cpus 8)"
  using select_best [OF solo_rated solo_select] by blast

text \<open>
  C33: \<open>select\<close> fails only when no operator can take the task, always with the same error (the error
  for an empty top group is unreachable), and an operator with the best reputation among those
  that can take the task is selected for some random choice.
\<close>

theorem select_complete:
  assumes "rated g"
  shows "((\<exists>e. select g req r = Err e) \<longleftrightarrow> (\<forall>i o1. hm_get g i = Some o1 \<longrightarrow> \<not> can_take o1 req)) \<and>
    (\<forall>e. select g req r = Err e \<longrightarrow> e = no_operator) \<and>
    (\<forall>i o1. hm_get g i = Some o1 \<longrightarrow> can_take o1 req \<longrightarrow>
       (\<forall>j o2. hm_get g j = Some o2 \<longrightarrow> can_take o2 req \<longrightarrow>
          f64_val (op_reputation o2) \<le> f64_val (op_reputation o1)) \<longrightarrow>
       (\<exists>r'. select g req r' = Ok i))"
proof -
  have cand: "o1 \<in> set (candidates_of g req) \<longleftrightarrow> (\<exists>i. hm_get g i = Some o1) \<and> can_take o1 req" for o1
    using assms by (auto simp: candidates_of_def snapshot_def rated_def keyed_def hm.set_vals ran_def)
  have none: "select g req r = Err e \<longleftrightarrow> candidates_of g req = [] \<and> e = no_operator" for e
  proof (cases "candidates_of g req = []")
    case False
    have "top_group_of (candidates_of g req) \<noteq> []" using best_of_props(1) [OF assms False] by auto
    then show ?thesis using False by (simp add: select_unfold slice_choose_def)
  qed (auto simp: select_unfold)
  have any: "\<exists>r'. select g req r' = Ok i"
    if o1: "hm_get g i = Some o1" "can_take o1 req"
      and best: "\<forall>j o2. hm_get g j = Some o2 \<longrightarrow> can_take o2 req \<longrightarrow>
        f64_val (op_reputation o2) \<le> f64_val (op_reputation o1)" for i o1
  proof -
    have mem: "o1 \<in> set (candidates_of g req)" using o1 cand by blast
    then have ne: "candidates_of g req \<noteq> []" by auto
    let ?b = "best_of (candidates_of g req)"
    note b = best_of_props [OF assms ne]
    have "?b \<in> set (candidates_of g req)" using b(1) by (simp add: top_group_of_def)
    then have "f64_val (op_reputation ?b) \<le> f64_val (op_reputation o1)" using best cand by blast
    with b(4) [OF mem] have same: "f64_val (op_reputation o1) - f64_val (op_reputation ?b) = 0" by simp
    note fin = rated_candidates [OF assms mem]
    have "close_to (op_reputation ?b) o1"
      using key_sub [OF fin b(3)] same margin_consts finite_not_nan [OF margin_consts(1)]
      by (simp add: close_to_def f64_lt_def rnd_key_def)
    then have "o1 \<in> set (top_group_of (candidates_of g req))" using mem by (simp add: top_group_of_def b(2))
    from slice_choose_any [OF this]
    obtain r' where "slice_choose (top_group_of (candidates_of g req)) r' = Some o1" ..
    moreover have "op_id o1 = i" using assms o1(1) by (simp add: rated_def keyed_def)
    ultimately have "select g req r' = Ok i" using ne by (simp add: select_unfold)
    then show ?thesis ..
  qed
  have "candidates_of g req = [] \<longleftrightarrow> (\<forall>o1. o1 \<notin> set (candidates_of g req))"
    by (cases "candidates_of g req") auto
  also have "\<dots> \<longleftrightarrow> (\<forall>i o1. hm_get g i = Some o1 \<longrightarrow> \<not> can_take o1 req)"
    unfolding cand by blast
  finally have empty: "candidates_of g req = [] \<longleftrightarrow>
      (\<forall>i o1. hm_get g i = Some o1 \<longrightarrow> \<not> can_take o1 req)" .
  show ?thesis
  proof (intro conjI allI impI)
    show "(\<exists>e. select g req r = Err e) \<longleftrightarrow> (\<forall>i o1. hm_get g i = Some o1 \<longrightarrow> \<not> can_take o1 req)"
      unfolding none empty [symmetric] by simp
    show "e = no_operator" if "select g req r = Err e" for e
      using that none by simp
  qed (rule any)
qed

theorem select_complete_witness: "\<exists>r'. select solo_registry (cpus 8) r' = Ok ''solo''"
proof -
  have "hm_get solo_registry ''solo'' = Some solo" by (simp add: solo_get)
  moreover have "\<forall>j o2. hm_get solo_registry j = Some o2 \<longrightarrow> can_take o2 (cpus 8) \<longrightarrow>
      f64_val (op_reputation o2) \<le> f64_val (op_reputation solo)"
    by (simp add: solo_get)
  ultimately show ?thesis using select_complete [OF solo_rated, of "cpus 8"] solo_takes by blast
qed

text \<open>
  C31: Selecting and then reserving works: if the registry has not changed in between, reserving the
  task on the operator that \<open>select\<close> returned succeeds. Afterwards the cores, the memory and the
  video memory that this operator has in flight are those from before and the ones of the task,
  without a wrap-around; nothing else of it and no other operator has changed.
\<close>

theorem select_then_reserve:
  assumes "rated g" and "select g req r = Ok i"
  shows "\<exists>o1 c g'. hm_get g i = Some o1 \<and> reserve i req g = (Ok (), g') \<and>
    hm_get g' = (hm_get g)(i \<mapsto> o1\<lparr>op_in_flight := c\<rparr>) \<and>
    unat (cpu_cores c) = unat (cpu_cores (op_in_flight o1)) + unat (req_cpu_cores req) \<and>
    unat (ram_mb c) = unat (ram_mb (op_in_flight o1)) + unat (req_ram_mb req) \<and>
    unat (gpu_vram_mb c) = unat (gpu_vram_mb (op_in_flight o1)) + unat (req_gpu_vram_mb req) \<and>
    capabilities c = capabilities (op_in_flight o1)"
  by (rule reputation.pick_then_reserve [OF assms]) (auto simp: hm.get_insert)

theorem select_then_reserve_witness:
  "\<exists>g' o2. reserve ''solo'' (cpus 8) solo_registry = (Ok (), g') \<and> hm_get g' ''solo'' = Some o2 \<and>
    unat (cpu_cores (op_in_flight o2)) = 8"
proof -
  have "cpu_cores (op_in_flight solo) = 0" "req_cpu_cores (cpus 8) = 8"
    by (simp_all add: solo_def operator_new_def cpus_def)
  with select_then_reserve [OF solo_rated solo_select] show ?thesis by (auto simp: solo_get)
qed

end
