(* ===== verification/Storage.thy ===== *)
theory Storage
  imports Kernel_Core
begin

section \<open>The embedded store (kernelflow-storage)\<close>

text \<open>
  \<open>Store\<close> puts values into the column families of one RocksDB database and reads them back;
  \<open>ShardedStore\<close> opens several of them and routes a key to one by its hash. The database, the
  \<open>bincode\<close> codec and the hasher are parameters with their documented behaviour as named laws; the
  functions here are the logic around them. The contract of both stores is one locale: they
  behave like a map from column family and key to value.
\<close>

subsection \<open>The packages\<close>

record db_options =
  create_if_missing :: bool
  create_missing_column_families :: bool

record ('db, 'h) rocks =
  rk_open :: "db_options \<Rightarrow> string \<Rightarrow> string list \<Rightarrow> (string, 'db) outcome"
  rk_handle :: "'db \<Rightarrow> string \<Rightarrow> 'h option"
  rk_put :: "'h \<Rightarrow> u8 list \<Rightarrow> u8 list \<Rightarrow> 'db \<Rightarrow> (string, unit) outcome \<times> 'db"
  rk_get :: "'h \<Rightarrow> u8 list \<Rightarrow> 'db \<Rightarrow> (string, u8 list option) outcome"

record 'v bincode =
  bc_serialize :: "'v \<Rightarrow> (string, u8 list) outcome"
  bc_deserialize :: "u8 list \<Rightarrow> (string, 'v) outcome"

text \<open>
  A successful write changes the value under its key and nothing else; the handles of two families
  differ; opening creates the families asked for. What is serialized is read back.
\<close>

definition rocks_laws :: "('db, 'h) rocks \<Rightarrow> bool" where
  "rocks_laws rk \<longleftrightarrow>
     (\<forall>h k b db db'. rk_put rk h k b db = (Ok (), db') \<longrightarrow>
        (\<forall>n. rk_handle rk db' n = rk_handle rk db n) \<and>
        (\<forall>h' k'. rk_get rk h' k' db' = (if h' = h \<and> k' = k then Ok (Some b) else rk_get rk h' k' db))) \<and>
     (\<forall>db n n' h. rk_handle rk db n = Some h \<longrightarrow> rk_handle rk db n' = Some h \<longrightarrow> n = n')"

definition bincode_laws :: "'v bincode \<Rightarrow> bool" where
  "bincode_laws bc \<longleftrightarrow> (\<forall>v b. bc_serialize bc v = Ok b \<longrightarrow> bc_deserialize bc b = Ok v)"

subsection \<open>One database\<close>

datatype cf = Events | State | Attestations

fun cf_name :: "cf \<Rightarrow> string" where
  "cf_name Events = ''events''"
| "cf_name State = ''state''"
| "cf_name Attestations = ''attestations''"

record 'db store =
  st_db :: 'db

definition store_open :: "('db, 'h) rocks \<Rightarrow> string \<Rightarrow> 'db store kernel_result" where
  "store_open rk path =
     (let opts = \<lparr>create_if_missing = True, create_missing_column_families = True\<rparr>;
          cfs = [cf_name Events, cf_name State, cf_name Attestations]
      in and_then (map_err Storage (rk_open rk opts path cfs)) (\<lambda>db. Ok \<lparr>st_db = db\<rparr>))"

text \<open>
  A blocking task whose closure panics is reported by its join handle, so the caller sees an
  error; \<open>join_text\<close> is the text of that error.
\<close>

fun joined :: "(panic \<Rightarrow> string) \<Rightarrow> 'a kernel_result \<Rightarrow> 'a kernel_result" where
  "joined join_text (Panic p) = Err (Storage (join_text p))"
| "joined join_text r = r"

definition cf_handle :: "('db, 'h) rocks \<Rightarrow> cf \<Rightarrow> 'db store \<Rightarrow> 'h kernel_result" where
  "cf_handle rk f s = ok_or (rk_handle rk (st_db s) (cf_name f)) (Storage ''cf missing'')"

definition store_put :: "(panic \<Rightarrow> string) \<Rightarrow> ('db, 'h) rocks \<Rightarrow> 'v bincode \<Rightarrow> cf \<Rightarrow> u8 list \<Rightarrow> 'v \<Rightarrow>
    'db store \<Rightarrow> unit kernel_result \<times> 'db store" where
  "store_put join_text rk bc f key val s =
     (case and_then (map_err Storage (bc_serialize bc val)) (\<lambda>bytes.
           and_then (cf_handle rk f s) (\<lambda>h. Ok (h, bytes))) of
        Ok (h, bytes) \<Rightarrow>
          (let (r, db) = rk_put rk h key bytes (st_db s)
           in (joined join_text (map_err Storage r), s\<lparr>st_db := db\<rparr>))
      | Err e \<Rightarrow> (Err e, s)
      | Panic p \<Rightarrow> (joined join_text (Panic p), s))"

definition store_get :: "(panic \<Rightarrow> string) \<Rightarrow> ('db, 'h) rocks \<Rightarrow> 'v bincode \<Rightarrow> cf \<Rightarrow> u8 list \<Rightarrow>
    'db store \<Rightarrow> 'v option kernel_result" where
  "store_get join_text rk bc f key s =
     joined join_text
       (and_then (cf_handle rk f s) (\<lambda>h.
        and_then (map_err Storage (rk_get rk h key (st_db s))) (\<lambda>v.
          case v of
            None \<Rightarrow> Ok None
          | Some b \<Rightarrow> and_then (map_err Storage (bc_deserialize bc b)) (\<lambda>d. Ok (Some d)))))"

subsection \<open>Several databases\<close>

record 'db sharded_store =
  ss_shards :: "'db store list"

text \<open>\<open>Path::join\<close> of a relative name.\<close>

definition path_join :: "string \<Rightarrow> string \<Rightarrow> string" where
  "path_join base name =
     (if base = [] then name else if last base = CHR ''/'' then base @ name else base @ ''/'' @ name)"

definition shard_path :: "string \<Rightarrow> usize \<Rightarrow> string" where
  "shard_path base i = path_join base (''shard-'' @ show_nat i)"

fun open_shards :: "('db, 'h) rocks \<Rightarrow> string \<Rightarrow> usize list \<Rightarrow> 'db store list kernel_result" where
  "open_shards rk base [] = Ok []"
| "open_shards rk base (i # rest) =
     and_then (store_open rk (shard_path base i)) (\<lambda>s.
     and_then (open_shards rk base rest) (\<lambda>v. Ok (s # v)))"

definition sharded_open :: "('db, 'h) rocks \<Rightarrow> string \<Rightarrow> usize \<Rightarrow> 'db sharded_store kernel_result" where
  "sharded_open rk base shards =
     and_then (open_shards rk base [0..<shards]) (\<lambda>v. Ok \<lparr>ss_shards = v\<rparr>)"

text \<open>\<open>finish() as usize % len\<close>: the remainder by zero panics.\<close>

definition shard_index :: "(u8 list \<Rightarrow> u64) \<Rightarrow> 'db sharded_store \<Rightarrow> u8 list \<Rightarrow> usize kernel_result" where
  "shard_index hasher ss key =
     (if length (ss_shards ss) = 0 then Panic Div_By_Zero
      else Ok (unat (hasher key) mod length (ss_shards ss)))"

definition shard_for :: "(u8 list \<Rightarrow> u64) \<Rightarrow> 'db sharded_store \<Rightarrow> u8 list \<Rightarrow> 'db store kernel_result" where
  "shard_for hasher ss key = and_then (shard_index hasher ss key) (nth_checked (ss_shards ss))"

subsection \<open>The contract of a store\<close>

text \<open>
  A store under its laws: a successful write is read back, and reads under other keys are as
  before. Clients may then think of it as a map.
\<close>

fun put_all :: "('k \<Rightarrow> 'v \<Rightarrow> 's \<Rightarrow> ('e, unit) outcome \<times> 's) \<Rightarrow> ('k \<times> 'v) list \<Rightarrow> 's \<Rightarrow>
    ('e, unit) outcome \<times> 's" where
  "put_all put [] s = (Ok (), s)"
| "put_all put ((k, v) # kvs) s =
     (case put k v s of
        (Ok _, s') \<Rightarrow> put_all put kvs s' | (Err e, s') \<Rightarrow> (Err e, s') | (Panic p, s') \<Rightarrow> (Panic p, s'))"

locale map_store =
  fixes lawful :: bool
    and put :: "'k \<Rightarrow> 'v \<Rightarrow> 's \<Rightarrow> ('e, unit) outcome \<times> 's"
    and get :: "'k \<Rightarrow> 's \<Rightarrow> ('e, 'v option) outcome"
  assumes get_put: "lawful \<Longrightarrow> put k v s = (Ok (), s') \<Longrightarrow>
    get l s' = (if l = k then Ok (Some v) else get l s)"
begin

lemma put_all_get:
  assumes lawful
  shows "put_all put kvs s = (Ok (), s') \<Longrightarrow>
    get k s' = (case map_of (rev kvs) k of Some v \<Rightarrow> Ok (Some v) | None \<Rightarrow> get k s)"
proof (induction kvs arbitrary: s)
  case (Cons kv kvs)
  obtain l v where kv: "kv = (l, v)" by (cases kv)
  with Cons.prems obtain s1 where s1: "put l v s = (Ok (), s1)" "put_all put kvs s1 = (Ok (), s')"
    by (auto split: prod.splits outcome.splits)
  from Cons.IH [OF s1(2)] get_put [OF assms s1(1), of k] show ?case
    by (auto simp: kv map_add_def split: option.split)
qed simp

end

lemma store_put_Ok:
  assumes "store_put jt rk bc f key val s = (Ok (), s')"
  obtains h b db where "rk_handle rk (st_db s) (cf_name f) = Some h" "bc_serialize bc val = Ok b"
    "rk_put rk h key b (st_db s) = (Ok (), db)" "s' = s\<lparr>st_db := db\<rparr>"
proof (cases "and_then (map_err Storage (bc_serialize bc val)) (\<lambda>bytes.
    and_then (cf_handle rk f s) (\<lambda>h. Ok (h, bytes)) :: ('b \<times> u8 list) kernel_result)")
  case (Ok p)
  obtain h b where p: "p = (h, b)" by (cases p)
  obtain r db where r: "rk_put rk h key b (st_db s) = (r, db)" by (cases "rk_put rk h key b (st_db s)")
  have "rk_handle rk (st_db s) (cf_name f) = Some h" "bc_serialize bc val = Ok b"
    using Ok by (auto simp: p outcome_simps cf_handle_def)
  moreover have "joined jt (map_err Storage r) = Ok ()" "s' = s\<lparr>st_db := db\<rparr>"
    using assms Ok r by (simp_all add: store_put_def p)
  then have "r = Ok ()" by (cases r) simp_all
  ultimately show thesis using that r \<open>s' = s\<lparr>st_db := db\<rparr>\<close> by blast
qed (use assms in \<open>simp_all add: store_put_def\<close>)

lemma cf_name_inject [simp]: "cf_name f = cf_name g \<longleftrightarrow> f = g"
  by (cases f; cases g) simp_all

lemma store_get_put:
  assumes "rocks_laws rk" and "bincode_laws bc" and "store_put jt rk bc f key val s = (Ok (), s')"
  shows "store_get jt rk bc f' key' s' =
    (if f' = f \<and> key' = key then Ok (Some val) else store_get jt rk bc f' key' s)"
proof -
  obtain h b db where h: "rk_handle rk (st_db s) (cf_name f) = Some h" and b: "bc_serialize bc val = Ok b"
    and put: "rk_put rk h key b (st_db s) = (Ok (), db)" and s': "s' = s\<lparr>st_db := db\<rparr>"
    by (rule store_put_Ok [OF assms(3)])
  have same: "cf_handle rk f' s' = cf_handle rk f' s"
    using assms(1) put by (simp add: rocks_laws_def s' cf_handle_def)
  have get: "rk_get rk h' key' db = (if h' = h \<and> key' = key then Ok (Some b) else rk_get rk h' key' (st_db s))" for h'
    using assms(1) put unfolding rocks_laws_def by blast
  have handle: "cf_handle rk f' s = Ok h \<longleftrightarrow> f' = f"
  proof
    assume "cf_handle rk f' s = Ok h"
    then have "rk_handle rk (st_db s) (cf_name f') = Some h" by (simp add: cf_handle_def outcome_simps)
    with h assms(1) have "cf_name f' = cf_name f" unfolding rocks_laws_def by blast
    then show "f' = f" by simp
  qed (simp add: cf_handle_def h)
  have "bc_deserialize bc b = Ok val" using assms(2) b by (simp add: bincode_laws_def)
  moreover have "st_db s' = db" by (simp add: s')
  ultimately show ?thesis
    using handle by (cases "cf_handle rk f' s") (auto simp: store_get_def same get)
qed

interpretation store: map_store "rocks_laws rk \<and> bincode_laws bc"
  "\<lambda>(f, key). store_put jt rk bc f key" "\<lambda>(f, key). store_get jt rk bc f key" for rk bc jt
  by unfold_locales (auto simp: store_get_put split: prod.splits)

text \<open>A client of the sharded store: it asks for the shard of the key and uses it.\<close>

definition sharded_put :: "(u8 list \<Rightarrow> u64) \<Rightarrow> (panic \<Rightarrow> string) \<Rightarrow> ('db, 'h) rocks \<Rightarrow> 'v bincode \<Rightarrow>
    cf \<times> u8 list \<Rightarrow> 'v \<Rightarrow> 'db sharded_store \<Rightarrow> unit kernel_result \<times> 'db sharded_store" where
  "sharded_put hasher jt rk bc k val ss =
     (case shard_index hasher ss (snd k) of
        Ok i \<Rightarrow> (let (r, s) = store_put jt rk bc (fst k) (snd k) val (ss_shards ss ! i)
                 in (r, ss\<lparr>ss_shards := (ss_shards ss)[i := s]\<rparr>))
      | Err e \<Rightarrow> (Err e, ss)
      | Panic p \<Rightarrow> (Panic p, ss))"

definition sharded_get :: "(u8 list \<Rightarrow> u64) \<Rightarrow> (panic \<Rightarrow> string) \<Rightarrow> ('db, 'h) rocks \<Rightarrow> 'v bincode \<Rightarrow>
    cf \<times> u8 list \<Rightarrow> 'db sharded_store \<Rightarrow> 'v option kernel_result" where
  "sharded_get hasher jt rk bc k ss =
     and_then (shard_for hasher ss (snd k)) (store_get jt rk bc (fst k) (snd k))"

lemma shard_for_nonempty:
  "ss_shards ss \<noteq> [] \<Longrightarrow> shard_index hasher ss key = Ok (unat (hasher key) mod length (ss_shards ss)) \<and>
   shard_for hasher ss key = Ok (ss_shards ss ! (unat (hasher key) mod length (ss_shards ss)))"
  by (simp add: shard_index_def shard_for_def nth_checked_def)

lemma sharded_get_put:
  assumes laws: "rocks_laws rk" "bincode_laws bc" and put: "sharded_put hasher jt rk bc k v ss = (Ok (), ss')"
  shows "sharded_get hasher jt rk bc l ss' = (if l = k then Ok (Some v) else sharded_get hasher jt rk bc l ss)"
proof -
  have ne: "ss_shards ss \<noteq> []"
    using put by (auto simp: sharded_put_def shard_index_def)
  let ?ix = "\<lambda>key. unat (hasher key) mod length (ss_shards ss)"
  obtain s where s: "store_put jt rk bc (fst k) (snd k) v (ss_shards ss ! ?ix (snd k)) = (Ok (), s)"
    and ss': "ss' = ss\<lparr>ss_shards := (ss_shards ss)[?ix (snd k) := s]\<rparr>"
    using put by (auto simp: sharded_put_def shard_for_nonempty [OF ne] split: prod.splits)
  have ne': "ss_shards ss' \<noteq> []" using ne by (simp add: ss')
  have "?ix key < length (ss_shards ss)" for key using ne by simp
  then have shard: "ss_shards ss' ! ?ix (snd l) =
      (if ?ix (snd l) = ?ix (snd k) then s else ss_shards ss ! ?ix (snd l))"
    and len: "length (ss_shards ss') = length (ss_shards ss)"
    by (auto simp: ss' nth_list_update)
  have "sharded_get hasher jt rk bc l ss' =
      store_get jt rk bc (fst l) (snd l) (if ?ix (snd l) = ?ix (snd k) then s else ss_shards ss ! ?ix (snd l))"
    by (simp only: sharded_get_def shard_for_nonempty [OF ne'] and_then.simps len shard)
  moreover have "sharded_get hasher jt rk bc l ss = store_get jt rk bc (fst l) (snd l) (ss_shards ss ! ?ix (snd l))"
    by (simp add: sharded_get_def shard_for_nonempty [OF ne])
  ultimately show ?thesis
    using store_get_put [OF laws s, of "fst l" "snd l"] by (auto simp: prod_eq_iff)
qed

interpretation sharded: map_store "rocks_laws rk \<and> bincode_laws bc"
  "sharded_put hasher jt rk bc" "sharded_get hasher jt rk bc" for rk bc hasher jt
  by unfold_locales (simp add: sharded_get_put)

subsection \<open>Names of shards\<close>

definition dec_value :: "string \<Rightarrow> nat" where
  "dec_value s = foldl (\<lambda>a c. 10 * a + (of_char c - 48)) 0 s"

lemma dec_value_show_nat: "dec_value (show_nat n) = n"
proof (induction n rule: show_nat.induct)
  case (1 n)
  have digit: "of_char (dec_digit d) - 48 = d" if "d < 10" for d :: nat
    using that by (simp add: dec_digit_def)
  show ?case
  proof (cases "n < 10")
    case True
    then show ?thesis by (simp add: show_nat.simps [of n] dec_value_def digit)
  next
    case False
    have "n mod 10 < 10" by simp
    with False "1.IH" show ?thesis
      by (subst show_nat.simps) (simp add: dec_value_def digit)
  qed
qed

lemma show_nat_inject [simp]: "show_nat m = show_nat n \<longleftrightarrow> m = n"
  by (metis dec_value_show_nat)

lemma inj_shard_path: "inj (shard_path base)"
  by (rule injI) (simp add: shard_path_def path_join_def split: if_splits)

lemma open_shards_Ok:
  "open_shards rk base is = Ok v \<longleftrightarrow> map (\<lambda>i. store_open rk (shard_path base i)) is = map Ok v"
  by (induction "is" arbitrary: v) (auto simp: outcome_simps Cons_eq_map_conv)

subsection \<open>Errors of a store\<close>

fun storage_only :: "'a kernel_result \<Rightarrow> bool" where
  "storage_only (Ok v) = True"
| "storage_only (Err e) = (\<exists>m. e = Storage m)"
| "storage_only (Panic p) = False"

definition storage_lax :: "'a kernel_result \<Rightarrow> bool" where
  "storage_lax r \<longleftrightarrow> (\<forall>e. r = Err e \<longrightarrow> (\<exists>m. e = Storage m))"

lemma storage_lax_map_err: "storage_lax (map_err Storage r)"
  by (cases r) (auto simp: storage_lax_def)

lemma storage_lax_and_then: "storage_lax r \<Longrightarrow> (\<And>v. storage_lax (g v)) \<Longrightarrow> storage_lax (and_then r g)"
  by (cases r) (auto simp: storage_lax_def)

lemma storage_lax_handle: "storage_lax (cf_handle rk f s)"
  by (auto simp: storage_lax_def cf_handle_def ok_or_def split: option.splits)

lemma storage_lax_Ok: "storage_lax (Ok v)"
  by (simp add: storage_lax_def)

lemmas storage_lax_intros = storage_lax_map_err storage_lax_and_then storage_lax_handle storage_lax_Ok

lemma storage_only_joined: "storage_lax r \<Longrightarrow> storage_only (joined jt r)"
  by (cases r) (auto simp: storage_lax_def)

subsection \<open>A sample database\<close>

text \<open>The association list of the writes, newest first; handles are names.\<close>

definition demo_rocks :: "(((string \<times> u8 list) \<times> u8 list) list, string) rocks" where
  "demo_rocks =
     \<lparr>rk_open = (\<lambda>opts path cfs. Ok []),
      rk_handle = (\<lambda>db n. if n \<in> {''events'', ''state'', ''attestations''} then Some n else None),
      rk_put = (\<lambda>h k b db. (Ok (), ((h, k), b) # db)),
      rk_get = (\<lambda>h k db. Ok (map_of db (h, k)))\<rparr>"

definition demo_bincode :: "u8 bincode" where
  "demo_bincode =
     \<lparr>bc_serialize = (\<lambda>v. Ok [v]),
      bc_deserialize = (\<lambda>b. case b of [v] \<Rightarrow> Ok v | _ \<Rightarrow> Err ''length'')\<rparr>"

lemma demo_rocks_laws: "rocks_laws demo_rocks"
  by (auto simp: rocks_laws_def demo_rocks_def split: if_splits)

lemma demo_bincode_laws: "bincode_laws demo_bincode"
  by (auto simp: bincode_laws_def demo_bincode_def)

definition demo_shards :: "((string \<times> u8 list) \<times> u8 list) list sharded_store" where
  "demo_shards = \<lparr>ss_shards = [\<lparr>st_db = []\<rparr>, \<lparr>st_db = []\<rparr>, \<lparr>st_db = []\<rparr>]\<rparr>"

abbreviation demo_join :: "panic \<Rightarrow> string" where
  "demo_join \<equiv> \<lambda>p. ''task panicked''"

abbreviation sample_ops :: "((cf \<times> u8 list) \<times> u8) list" where
  "sample_ops \<equiv> [((State, [107]), 1), ((Events, [107]), 2), ((State, [107]), 42)]"

lemmas demo_store_simps = demo_rocks_def demo_bincode_def store_put_def store_get_def cf_handle_def

subsection \<open>Properties of the stores\<close>

text \<open>
  C5: A store refines a map. After any sequence of successful writes, a read under a column family
  and a key returns the value written last under them, and where none was written it answers as
  before: families and keys do not interfere.
\<close>

theorem store_refines_map:
  assumes "rocks_laws rk" and "bincode_laws bc"
    and "put_all (\<lambda>(f, key). store_put jt rk bc f key) ops s = (Ok (), s')"
  shows "store_get jt rk bc f key s' =
    (case map_of (rev ops) (f, key) of Some v \<Rightarrow> Ok (Some v) | None \<Rightarrow> store_get jt rk bc f key s)"
  using store.put_all_get [OF conjI [OF assms(1,2)] assms(3), of "(f, key)"]
  by (simp split: option.split)

theorem store_refines_map_witness:
  "store_get demo_join demo_rocks demo_bincode State [107]
     (snd (put_all (\<lambda>(f, key). store_put demo_join demo_rocks demo_bincode f key) sample_ops \<lparr>st_db = []\<rparr>)) =
   Ok (Some 42)"
proof -
  let ?run = "put_all (\<lambda>(f, key). store_put demo_join demo_rocks demo_bincode f key) sample_ops \<lparr>st_db = []\<rparr>"
  have "fst ?run = Ok ()" by (simp add: demo_store_simps)
  then have "?run = (Ok (), snd ?run)" by (simp add: prod_eq_iff)
  from store_refines_map [OF demo_rocks_laws demo_bincode_laws this, of State "[107]"] show ?thesis by simp
qed

text \<open>
  C18: The sharded store refines the same map: a client that asks for the shard of each key before it
  reads or writes sees one store, whatever the hash function is.
\<close>

theorem sharded_refines_map:
  assumes "rocks_laws rk" and "bincode_laws bc"
    and "put_all (sharded_put hasher jt rk bc) ops ss = (Ok (), ss')"
  shows "and_then (shard_for hasher ss' key) (store_get jt rk bc f key) =
    (case map_of (rev ops) (f, key) of
       Some v \<Rightarrow> Ok (Some v) | None \<Rightarrow> and_then (shard_for hasher ss key) (store_get jt rk bc f key))"
  using sharded.put_all_get [OF conjI [OF assms(1,2)] assms(3), of "(f, key)"]
  by (simp add: sharded_get_def split: option.split)

theorem sharded_refines_map_witness:
  "and_then (shard_for (\<lambda>key. of_nat (length key))
       (snd (put_all (sharded_put (\<lambda>key. of_nat (length key)) demo_join demo_rocks demo_bincode) sample_ops
          \<lparr>ss_shards = [\<lparr>st_db = []\<rparr>, \<lparr>st_db = []\<rparr>]\<rparr>)) [107])
     (store_get demo_join demo_rocks demo_bincode Events [107]) = Ok (Some 2)"
proof -
  let ?run = "put_all (sharded_put (\<lambda>key. of_nat (length key)) demo_join demo_rocks demo_bincode) sample_ops
          \<lparr>ss_shards = [\<lparr>st_db = []\<rparr>, \<lparr>st_db = []\<rparr>]\<rparr>"
  have "fst ?run = Ok ()" by (simp add: demo_store_simps sharded_put_def shard_index_def)
  then have "?run = (Ok (), snd ?run)" by (simp add: prod_eq_iff)
  from sharded_refines_map [OF demo_rocks_laws demo_bincode_laws this, of "[107]" Events] show ?thesis by simp
qed

text \<open>
  Opening \<open>n\<close> shards opens exactly \<open>n\<close> databases, at pairwise different paths; routing then picks
  the shard numbered by the hash modulo \<open>n\<close>, so it depends on the key alone. Zero shards are opened
  without an error, and every routing of a key in them panics on the remainder by zero.
\<close>

theorem sharded_routing:
  assumes "sharded_open rk base n = Ok ss"
  shows "map (\<lambda>i. store_open rk (shard_path base i)) [0..<n] = map Ok (ss_shards ss) \<and>
    inj (shard_path base) \<and>
    shard_for hasher ss key =
      (if n = 0 then Panic Div_By_Zero else Ok (ss_shards ss ! (unat (hasher key) mod n)))"
proof -
  have opened: "map (\<lambda>i. store_open rk (shard_path base i)) [0..<n] = map Ok (ss_shards ss)"
    using assms by (auto simp: sharded_open_def outcome_simps open_shards_Ok)
  then have "length (ss_shards ss) = n" by (metis length_map diff_zero length_upt)
  then show ?thesis
    using opened inj_shard_path by (auto simp: shard_for_def shard_index_def nth_checked_def)
qed

theorem sharded_routing_witness:
  "shard_for (\<lambda>key. 7) demo_shards [107] = Ok \<lparr>st_db = []\<rparr>"
proof -
  have "sharded_open demo_rocks ''data'' 3 = Ok demo_shards"
    by (simp add: sharded_open_def demo_rocks_def store_open_def Let_def numeral_3_eq_3 demo_shards_def)
  from sharded_routing [OF this, of "\<lambda>key. 7" "[107]"] show ?thesis by (simp add: demo_shards_def)
qed

text \<open>
  Whatever fails in a store (the codec, a missing family, the database, a panic of the blocking
  task), the caller gets a storage error and never a panic.
\<close>

theorem storage_errors:
  "storage_only (fst (store_put jt rk bc f key v s)) \<and> storage_only (store_get jt rk bc f key s)"
proof
  let ?prepare = "and_then (map_err Storage (bc_serialize bc v)) (\<lambda>bytes. and_then (cf_handle rk f s) (\<lambda>h. Ok (h, bytes)))"
  have "storage_lax ?prepare" by (intro storage_lax_intros)
  then show "storage_only (fst (store_put jt rk bc f key v s))"
    by (cases ?prepare)
      (auto simp: store_put_def storage_lax_def split: prod.split
        intro!: storage_only_joined [OF storage_lax_map_err])
  have "storage_lax (case w of None \<Rightarrow> Ok None
      | Some b \<Rightarrow> and_then (map_err Storage (bc_deserialize bc b)) (\<lambda>d. Ok (Some d)))" for w
    by (cases w) (auto intro!: storage_lax_intros)
  then show "storage_only (store_get jt rk bc f key s)"
    unfolding store_get_def by (intro storage_only_joined storage_lax_intros)
qed

end
