(* ===== verification/Attest.thy ===== *)
theory Attest
  imports Kernel_Core
begin

section \<open>Signed attestations (kernelflow-attest)\<close>

text \<open>
  An \<open>Attestor\<close> signs the identifier of a workflow together with its attestation hash; the check is
  the one of the crate's test. The signature scheme, the hexadecimal codec, the text of a
  \<open>uuid\<close> and the RPC client are parameters with their documented behaviour as named laws. A string
  is the list of its UTF-8 bytes.
\<close>

record ('k, 'vk) ed25519 =
  ed_verifying_key :: "'k \<Rightarrow> 'vk"
  ed_to_bytes :: "'vk \<Rightarrow> u8 list"
  ed_from_bytes :: "u8 list \<Rightarrow> 'vk option"
  ed_sign :: "'k \<Rightarrow> u8 list \<Rightarrow> u8 list"
  ed_verify_strict :: "'vk \<Rightarrow> u8 list \<Rightarrow> u8 list \<Rightarrow> bool"

record codecs =
  cd_hex_encode :: "u8 list \<Rightarrow> string"
  cd_hex_decode :: "string \<Rightarrow> u8 list option"
  cd_uuid_text :: "uuid \<Rightarrow> string"

text \<open>
  Keys have 32 and signatures 64 bytes, an encoded key is read back, and a signature verifies under
  the key of its signer. Hexadecimal text is decoded to what was encoded; the hyphenated text of a
  \<open>uuid\<close> has 36 characters and determines it.
\<close>

definition ed25519_laws :: "('k, 'vk) ed25519 \<Rightarrow> bool" where
  "ed25519_laws ed \<longleftrightarrow>
     (\<forall>vk. length (ed_to_bytes ed vk) = 32 \<and> ed_from_bytes ed (ed_to_bytes ed vk) = Some vk) \<and>
     (\<forall>k m. length (ed_sign ed k m) = 64 \<and> ed_verify_strict ed (ed_verifying_key ed k) m (ed_sign ed k m))"

definition codec_laws :: "codecs \<Rightarrow> bool" where
  "codec_laws cd \<longleftrightarrow> (\<forall>bs. cd_hex_decode cd (cd_hex_encode cd bs) = Some bs) \<and>
     (\<forall>u. length (cd_uuid_text cd u) = 36) \<and> inj (cd_uuid_text cd)"

subsection \<open>Signing\<close>

record 't attestation =
  at_workflow_id :: uuid
  at_output_hash :: string
  at_signer_pubkey_hex :: string
  at_signature_hex :: string
  at_timestamp :: 't

record 'k attestor =
  at_key :: 'k

text \<open>The key generator draws the key; it is the argument.\<close>

definition attestor_random :: "'k \<Rightarrow> 'k attestor" where
  "attestor_random key = \<lparr>at_key = key\<rparr>"

definition pubkey :: "('k, 'vk) ed25519 \<Rightarrow> 'k attestor \<Rightarrow> 'vk" where
  "pubkey ed a = ed_verifying_key ed (at_key a)"

definition as_bytes :: "string \<Rightarrow> u8 list" where
  "as_bytes s = map of_char s"

definition attest_sign :: "('k, 'vk) ed25519 \<Rightarrow> codecs \<Rightarrow> 'k attestor \<Rightarrow> uuid \<Rightarrow> string \<Rightarrow> 't \<Rightarrow> 't attestation" where
  "attest_sign ed cd a workflow_id hash now =
     (let msg = cd_uuid_text cd workflow_id @ ''|'' @ hash;
          sig = ed_sign ed (at_key a) (as_bytes msg)
      in \<lparr>at_workflow_id = workflow_id, at_output_hash = hash,
          at_signer_pubkey_hex = cd_hex_encode cd (ed_to_bytes ed (pubkey ed a)),
          at_signature_hex = cd_hex_encode cd sig, at_timestamp = now\<rparr>)"

text \<open>\<open><[u8; n]>::try_from\<close> of a slice.\<close>

definition sized :: "nat \<Rightarrow> u8 list \<Rightarrow> u8 list option" where
  "sized n bs = (if length bs = n then Some bs else None)"

definition check_attestation :: "('k, 'vk) ed25519 \<Rightarrow> codecs \<Rightarrow> 't attestation \<Rightarrow> bool kernel_result" where
  "check_attestation ed cd att =
     and_then (unwrap (cd_hex_decode cd (at_signer_pubkey_hex att))) (\<lambda>pk_bytes.
     and_then (unwrap (sized 32 pk_bytes)) (\<lambda>pk_array.
     and_then (unwrap (ed_from_bytes ed pk_array)) (\<lambda>pk.
     and_then (unwrap (cd_hex_decode cd (at_signature_hex att))) (\<lambda>sig_bytes.
     and_then (unwrap (sized 64 sig_bytes)) (\<lambda>sig.
       let msg = cd_uuid_text cd (at_workflow_id att) @ ''|'' @ at_output_hash att
       in Ok (ed_verify_strict ed pk (as_bytes msg) sig))))))"

subsection \<open>Submission\<close>

record 'n rpc =
  rpc_int :: "int \<Rightarrow> 'n json"
  rpc_post :: "string \<Rightarrow> 'n json \<Rightarrow> (string, nat) outcome"
  rpc_is_success :: "nat \<Rightarrow> bool"
  rpc_status_text :: "nat \<Rightarrow> string"

record solana_attestor =
  sa_rpc_url :: string

definition submit :: "'n rpc \<Rightarrow> solana_attestor \<Rightarrow> 't attestation \<Rightarrow> string kernel_result" where
  "submit rpc s att =
     (let body = JObject (bt_collect [(''jsonrpc'', JString ''2.0''), (''id'', rpc_int rpc 1),
                    (''method'', JString ''getHealth'')])
      in and_then (map_err Attestation (rpc_post rpc (sa_rpc_url s) body)) (\<lambda>status.
         if \<not> rpc_is_success rpc status
         then Err (Attestation (''rpc '' @ rpc_status_text rpc status))
         else Ok (''simulated-tx-for-'' @ at_output_hash att)))"

subsection \<open>The signed message\<close>

lemma as_bytes_inject: "as_bytes s = as_bytes t \<longleftrightarrow> s = t"
proof -
  have "(of_char c :: u8) = of_char d \<longleftrightarrow> c = d" for c d
  proof
    assume "(of_char c :: u8) = of_char d"
    then have "unat (of_nat (of_char c) :: u8) = unat (of_nat (of_char d) :: u8)"
      by (simp only: of_nat_of_char)
    moreover have "(of_char c :: nat) < 256" "(of_char d :: nat) < 256"
      by (simp_all add: of_char_def) 
    ultimately have "(of_char c :: nat) = of_char d" by (simp add: unat_of_nat)
    then show "c = d" by (simp add: of_char_eq_iff)
  qed simp
  then show ?thesis by (auto simp: as_bytes_def inj_def dest: map_injective intro!: injI)
qed

lemma signed_text_inject:
  assumes "codec_laws cd"
  shows "as_bytes (cd_uuid_text cd w @ ''|'' @ h) = as_bytes (cd_uuid_text cd w' @ ''|'' @ h') \<longleftrightarrow>
    w = w' \<and> h = h'"
proof -
  have "length (cd_uuid_text cd w) = length (cd_uuid_text cd w')" "inj (cd_uuid_text cd)"
    using assms by (simp_all add: codec_laws_def)
  then show ?thesis by (auto simp: as_bytes_inject inj_eq)
qed

subsection \<open>A sample scheme\<close>

text \<open>A checksum in place of a signature, and text with four bits to a character.\<close>

definition demo_sum_sign :: "u8 \<Rightarrow> u8 list \<Rightarrow> u8 list" where
  "demo_sum_sign k m = replicate 63 k @ [sum_list m]"

definition demo_ed :: "(u8, u8) ed25519" where
  "demo_ed = \<lparr>ed_verifying_key = (\<lambda>k. k), ed_to_bytes = replicate 32,
     ed_from_bytes = (\<lambda>bs. Some (hd bs)), ed_sign = demo_sum_sign,
     ed_verify_strict = (\<lambda>k m s. s = demo_sum_sign k m)\<rparr>"

definition nibble :: "uuid \<Rightarrow> nat \<Rightarrow> nat" where
  "nibble u i = unat (take_bit 4 (drop_bit (4 * i) u))"

definition demo_uuid_text :: "uuid \<Rightarrow> string" where
  "demo_uuid_text u = map (\<lambda>i. char_of (65 + nibble u i)) [0..<32] @ ''----''"

definition demo_codecs :: codecs where
  "demo_codecs = \<lparr>cd_hex_encode = map (\<lambda>b. char_of (unat b)), cd_hex_decode = (\<lambda>s. Some (map of_char s)),
     cd_uuid_text = demo_uuid_text\<rparr>"

lemma nibble_less: "nibble u i < 16"
  using take_bit_nat_less_exp [of 4 "unat (drop_bit (4 * i) u)"] by (simp add: nibble_def unsigned_take_bit_eq)

lemma inj_demo_uuid_text: "inj demo_uuid_text"
proof (rule injI)
  fix u v :: uuid
  assume eq: "demo_uuid_text u = demo_uuid_text v"
  have nib: "nibble u i = nibble v i" if "i < 32" for i
  proof -
    have "char_of (65 + nibble u i) = (char_of (65 + nibble v i) :: char)"
      using eq that by (simp add: demo_uuid_text_def)
    then have "(of_char (char_of (65 + nibble u i)) :: nat) = of_char (char_of (65 + nibble v i))" by simp
    then show ?thesis using nibble_less [of u i] nibble_less [of v i] by (simp only: of_char_of) simp
  qed
  show "u = v"
  proof (rule bit_word_eqI)
    fix n assume n: "n < LENGTH(128)"
    then have "nibble u (n div 4) = nibble v (n div 4)" by (intro nib) simp
    then have "take_bit 4 (drop_bit (4 * (n div 4)) u) = take_bit 4 (drop_bit (4 * (n div 4)) v)"
      unfolding nibble_def by (rule word_unat_eq_iff [THEN iffD2])
    then have "bit (take_bit 4 (drop_bit (4 * (n div 4)) u)) (n mod 4) =
        bit (take_bit 4 (drop_bit (4 * (n div 4)) v)) (n mod 4)" by simp
    then show "bit u n = bit v n" by (simp add: bit_take_bit_iff bit_drop_bit_eq)
  qed
qed

lemma demo_ed_laws: "ed25519_laws demo_ed"
  by (simp add: ed25519_laws_def demo_ed_def demo_sum_sign_def)

lemma demo_codec_laws: "codec_laws demo_codecs"
proof -
  have "map (\<lambda>b. of_char (char_of (unat b) :: char)) bs = bs" for bs :: "u8 list"
    by (induction bs) (simp_all only: list.map of_char_char_of_unat)
  then show ?thesis using inj_demo_uuid_text
    by (simp add: codec_laws_def demo_codecs_def demo_uuid_text_def [of u for u] comp_def)
qed

subsection \<open>Properties of attestations\<close>

text \<open>
  C20: What an attestor signs passes the check, for every key, workflow and hash; and it still passes
  with any other timestamp, which the signature does not cover.
\<close>

theorem sign_check_roundtrip:
  assumes "ed25519_laws ed" and "codec_laws cd"
  shows "check_attestation ed cd ((attest_sign ed cd a w h now)\<lparr>at_timestamp := t\<rparr>) = Ok True"
  using assms
  by (simp add: check_attestation_def attest_sign_def ed25519_laws_def codec_laws_def sized_def pubkey_def Let_def)

theorem sign_check_roundtrip_witness:
  "check_attestation demo_ed demo_codecs
     ((attest_sign demo_ed demo_codecs (attestor_random 5) 0 ''deadbeef'' (1 :: nat))\<lparr>at_timestamp := 2\<rparr>) = Ok True"
  by (rule sign_check_roundtrip [OF demo_ed_laws demo_codec_laws])

text \<open>
  C21: What a signature is bound to. For an attestation whose key and signature decode to \<open>vk\<close> and
  \<open>sig\<close>, the check accepts exactly if \<open>sig\<close> verifies under \<open>vk\<close> for the message put together from its
  workflow and hash, so it depends on both and on nothing else but the key. The messages of two
  attestations are equal only if workflow and hash are. So if two that carry the same key and
  signature both pass and differ in either, the two messages read off them are an explicit pair
  of different messages for which the scheme accepts \<open>sig\<close> under \<open>vk\<close>.
\<close>

theorem attestation_binding:
  assumes "codec_laws cd"
    and "cd_hex_decode cd (at_signer_pubkey_hex att) = Some pk" and "length pk = 32"
    and "ed_from_bytes ed pk = Some vk"
    and "cd_hex_decode cd (at_signature_hex att) = Some sig" and "length sig = 64"
    and "at_signer_pubkey_hex att' = at_signer_pubkey_hex att" and "at_signature_hex att' = at_signature_hex att"
  shows "let m = as_bytes (cd_uuid_text cd (at_workflow_id att) @ ''|'' @ at_output_hash att);
             m' = as_bytes (cd_uuid_text cd (at_workflow_id att') @ ''|'' @ at_output_hash att')
    in check_attestation ed cd att = Ok (ed_verify_strict ed vk m sig) \<and>
       check_attestation ed cd att' = Ok (ed_verify_strict ed vk m' sig) \<and>
       (m = m' \<longleftrightarrow> at_workflow_id att = at_workflow_id att' \<and> at_output_hash att = at_output_hash att')"
  using assms(2-) signed_text_inject [OF assms(1)]
  by (simp add: check_attestation_def sized_def Let_def del: append.simps)

text \<open>With a checksum for a signature such a pair is found: two hashes with the same letters.\<close>

theorem attestation_binding_witness:
  "(let sig = demo_sum_sign 5 (as_bytes (demo_uuid_text 0 @ ''|'' @ ''ab'')) in
     demo_sum_sign 5 (as_bytes (demo_uuid_text 0 @ ''|'' @ ''ba'')) = sig \<and>
     as_bytes (demo_uuid_text 0 @ ''|'' @ ''ab'') \<noteq> as_bytes (demo_uuid_text 0 @ ''|'' @ ''ba''))"
proof -
  let ?att = "\<lambda>h. attest_sign demo_ed demo_codecs (attestor_random 5) 0 h (1 :: nat)"
  have check: "check_attestation demo_ed demo_codecs (?att h) = Ok True" for h
    using demo_ed_laws demo_codec_laws
    by (simp add: check_attestation_def attest_sign_def ed25519_laws_def codec_laws_def sized_def pubkey_def Let_def)
  have hex: "cd_hex_decode demo_codecs (cd_hex_encode demo_codecs bs) = Some bs" for bs
    using demo_codec_laws by (simp add: codec_laws_def)
  let ?sig = "demo_sum_sign 5 (as_bytes (demo_uuid_text 0 @ ''|'' @ ''ab''))"
  have att: "at_signer_pubkey_hex (?att h) = cd_hex_encode demo_codecs (replicate 32 5)"
    "at_workflow_id (?att h) = 0" "at_output_hash (?att h) = h" for h
    by (simp_all add: attest_sign_def attestor_random_def pubkey_def demo_ed_def Let_def)
  have sig: "at_signature_hex (?att ''ab'') = cd_hex_encode demo_codecs ?sig"
    "at_signature_hex (?att ''ba'') = cd_hex_encode demo_codecs ?sig"
    by (simp_all add: attest_sign_def attestor_random_def as_bytes_def demo_ed_def demo_sum_sign_def
        demo_codecs_def Let_def add.commute)
  have "ed_from_bytes demo_ed (replicate 32 5) = Some 5" by (simp add: demo_ed_def)
  from attestation_binding [OF demo_codec_laws, of "?att ''ab''", unfolded att sig hex, OF refl _ this refl _ _ sig(2),
      unfolded att, OF _ _ refl] check
  show ?thesis by (simp add: Let_def demo_sum_sign_def demo_ed_def demo_codecs_def)
qed

end
