(* ===== verification/Ai.thy ===== *)
theory Ai
  imports Kernel_Core
begin

section \<open>Workflow synthesis (kernelflow-ai)\<close>

text \<open>
  A provider completes a prompt; the synthesizer parses its answer into node specifications. A
  provider is a function of the two prompts. The HTTP client, the indexing of JSON values and the
  derived parser and printer are parameters.
\<close>

type_synonym llm_provider = "string \<Rightarrow> string \<Rightarrow> string kernel_result"

record 'n node_spec =
  ns_id :: string
  ns_kind :: string
  ns_args :: "'n json"

record ('r, 'n) http_api =
  ha_post :: "string \<Rightarrow> string \<Rightarrow> 'n json \<Rightarrow> (string, 'r) outcome"
  ha_json :: "'r \<Rightarrow> (string, 'n json) outcome"
  ha_member :: "'n json \<Rightarrow> string \<Rightarrow> 'n json"
  ha_item :: "'n json \<Rightarrow> nat \<Rightarrow> 'n json"
  ha_as_str :: "'n json \<Rightarrow> string option"

record openai_compat =
  oa_base_url :: string
  oa_api_key :: string
  oa_model :: string

definition chat_message :: "string \<Rightarrow> string \<Rightarrow> 'n json" where
  "chat_message role text = JObject (bt_collect [(''role'', JString role), (''content'', JString text)])"

definition openai_complete :: "('r, 'n) http_api \<Rightarrow> openai_compat \<Rightarrow> llm_provider" where
  "openai_complete api p system user =
     (let body = JObject (bt_collect [(''model'', JString (oa_model p)),
            (''messages'', JArray [chat_message ''system'' system, chat_message ''user'' user])])
      in and_then (map_err Network (ha_post api (oa_base_url p @ ''/chat/completions'') (oa_api_key p) body)) (\<lambda>res.
         and_then (map_err Network (ha_json api res)) (\<lambda>v.
           let content = ha_member api (ha_member api (ha_item api (ha_member api v ''choices'') 0) ''message'') ''content''
           in Ok (case ha_as_str api content of Some s \<Rightarrow> s | None \<Rightarrow> []))))"

definition mock_complete :: "string \<Rightarrow> llm_provider" where
  "mock_complete answer system user = Ok answer"

definition synthesizer_prompt :: string where
  "synthesizer_prompt = ''You output strictly JSON: an array of {id,kind,args} workflow nodes.''"

definition synthesize :: "(string \<Rightarrow> (string, 'n node_spec list) outcome) \<Rightarrow> llm_provider \<Rightarrow> string \<Rightarrow>
    'n node_spec list kernel_result" where
  "synthesize from_str llm goal =
     and_then (llm synthesizer_prompt goal) (\<lambda>raw. map_err Serde (from_str raw))"

text \<open>
  A synthesized workflow is what the parser makes of the answer: under a provider that answers with
  the text of a list of specifications, it is that list; any other answer is a serialization
  error; and an error of the provider is passed on.
\<close>

lemma synthesize_mock: "from_str answer = Ok specs \<Longrightarrow> synthesize from_str (mock_complete answer) goal = Ok specs"
  by (simp add: synthesize_def mock_complete_def)

lemma synthesize_Err:
  "synthesize from_str llm goal = Err e \<Longrightarrow>
   llm synthesizer_prompt goal = Err e \<or>
   (\<exists>raw m. llm synthesizer_prompt goal = Ok raw \<and> from_str raw = Err m \<and> e = Serde m)"
  by (auto simp: synthesize_def outcome_simps)

text \<open>An unexpected answer of the service is an empty completion, not an error.\<close>

lemma openai_empty:
  assumes "ha_post api (oa_base_url p @ ''/chat/completions'') (oa_api_key p) body = Ok res"
    and "body = JObject (bt_collect [(''model'', JString (oa_model p)),
      (''messages'', JArray [chat_message ''system'' system, chat_message ''user'' user])])"
    and "ha_json api res = Ok v" and "\<And>w. ha_as_str api (ha_member api w ''content'') = None"
  shows "openai_complete api p system user = Ok []"
  using assms by (simp add: openai_complete_def Let_def)

end
