(* ===== verification/Unit_Tests.thy ===== *)
theory Unit_Tests
  imports Eth_Threshold Matchmaker Storage Attest Ai
begin

section \<open>The unit tests of the crates\<close>

text \<open>
  Every test of the repository that exercises modelled code, as a boolean function of what the test
  leaves to chance (identifiers, random choices, the environment), with the lemma that it holds. An
  \<open>unwrap\<close> that would fail makes the test false. They tie the model to expectations that
  its authors wrote down.
\<close>

definition unwraps :: "('e, 'a) outcome \<Rightarrow> ('a \<Rightarrow> bool) \<Rightarrow> bool" where
  "unwraps r P = (case r of Ok v \<Rightarrow> P v | _ \<Rightarrow> False)"

lemma unwraps_Ok [simp]: "unwraps (Ok v) P = P v"
  by (simp add: unwraps_def)

subsection \<open>kernelflow-core\<close>

definition topo_orders_simple_chain :: "uuid \<Rightarrow> bool" where
  "topo_orders_simple_chain uid =
     unwraps (build uid
       (builder_edge ''b'' ''c'' Always (builder_edge ''a'' ''b'' Always
         (builder_node ''c'' (3 :: u32) (builder_node ''b'' 2 (builder_node ''a'' 1
           (builder_new ''t'' :: (u32, f64) dag_builder)))))))
       (\<lambda>dag. unwraps (topo_sort dag) (\<lambda>order. order = [''a'', ''b'', ''c'']))"

definition cycle_is_rejected :: "uuid \<Rightarrow> bool" where
  "cycle_is_rejected uid =
     (build uid
       (builder_edge ''b'' ''a'' Always (builder_edge ''a'' ''b'' Always
         (builder_node ''b'' (2 :: u32) (builder_node ''a'' 1
           (builder_new ''t'' :: (u32, f64) dag_builder))))) = Err CycleDetected)"

definition condition_json_eq :: bool where
  "condition_json_eq =
     (let c = JsonEq ''/ok'' (JBool True) in
      evaluate demo_ext c (JObject [(''ok'', JBool True)]) \<and>
      \<not> evaluate demo_ext c (JObject [(''ok'', JBool False)]))"

definition two :: f64 where "two = F64 0x4000000000000000"

definition hash_determinism :: bool where
  "hash_determinism =
     (let a = JObject (bt_insert ''a'' (JNumber two) (bt_insert ''b'' (JNumber one) bt_new));
          b = JObject (bt_insert ''b'' (JNumber one) (bt_insert ''a'' (JNumber two) bt_new))
      in hash_json demo_ext a = hash_json demo_ext b)"

definition satisfies_matches_capabilities_and_resources :: bool where
  "satisfies_matches_capabilities_and_resources =
     (let cap = \<lparr>cpu_cores = 8, ram_mb = 32000, gpu_vram_mb = 24000,
                 capabilities = [GpuProver 24000, HttpEgress]\<rparr>;
          req = \<lparr>req_cpu_cores = 4, req_ram_mb = 8000, req_gpu_vram_mb = 16000,
                 req_capabilities = [HttpEgress]\<rparr>;
          too_much = req\<lparr>req_cpu_cores := 16\<rparr>
      in satisfies cap req \<and> \<not> satisfies cap too_much)"

definition end_to_end_dag_topology :: "uuid \<Rightarrow> bool" where
  "end_to_end_dag_topology uid =
     unwraps (build uid e2e_builder) (\<lambda>dag. unwraps (topo_sort dag) (\<lambda>order.
       order ! 0 = ''ingest'' \<and> order ! 1 = ''validate'' \<and>
       ''attest'' \<in> set (drop 2 order) \<and> ''notify'' \<in> set (drop 2 order)))"

lemma core_tests_hold:
  "topo_orders_simple_chain uid" "cycle_is_rejected uid" "condition_json_eq" "hash_determinism"
  "satisfies_matches_capabilities_and_resources" "end_to_end_dag_topology uid"
proof -
  show "topo_orders_simple_chain uid" unfolding topo_orders_simple_chain_def by code_simp
  show "cycle_is_rejected uid" unfolding cycle_is_rejected_def by code_simp
  show condition_json_eq by code_simp
  show hash_determinism
    by (simp add: hash_determinism_def bt_new_def less_char_def)
  show satisfies_matches_capabilities_and_resources by code_simp
  show "end_to_end_dag_topology uid" unfolding end_to_end_dag_topology_def by code_simp
qed

subsection \<open>kernelflow-scheduler\<close>

definition retries_then_succeeds :: "instant \<Rightarrow> instant \<Rightarrow> bool" where
  "retries_then_succeeds now now' =
     (let cfg = default_resilience\<lparr>rc_max_retries := 3, rc_initial_backoff := from_millis 1\<rparr>;
          f = (\<lambda>n. if n < 2 then Completed (Err (Network ''x'')) else Completed (Ok 42));
          breaker = cb_new (rc_circuit_threshold cfg) (rc_circuit_cooldown cfg)
      in unwraps (fst (run cfg True now f id now' breaker)) (\<lambda>v. v = (42 :: nat)) \<and>
         Suc (length (snd (retry_loop cfg f 0 (rc_initial_backoff cfg)))) = 3)"

definition timeout_fires :: "instant \<Rightarrow> instant \<Rightarrow> bool" where
  "timeout_fires now now' =
     (let cfg = default_resilience\<lparr>rc_timeout := from_millis 10, rc_max_retries := 1\<rparr>;
          f = (\<lambda>n. Elapsed :: unit attempt);
          breaker = cb_new (rc_circuit_threshold cfg) (rc_circuit_cooldown cfg)
      in fst (run cfg True now f id now' breaker) = Err (Timeout (from_millis 10)))"

lemma scheduler_tests_hold: "retries_then_succeeds now now'" "timeout_fires now now'"
proof -
  let ?cfg = "default_resilience\<lparr>rc_max_retries := 3, rc_initial_backoff := from_millis 1\<rparr>"
  let ?f = "\<lambda>n :: nat. if n < 2 then Completed (Err (Network ''x'')) else Completed (Ok 42) :: nat attempt"
  have "stops_at ?cfg ?f 2"
    by (simp add: stops_at_def is_err_def attempt_outcome_def max_calls_def)
  moreover have "backoff_safe ?cfg"
    by (simp add: backoff_safe_def default_resilience_def from_secs_def from_millis_def
        duration_max_def nanos_per_sec_def)
  ultimately have loop: "retry_loop ?cfg ?f 0 (rc_initial_backoff ?cfg) =
      (attempt_outcome ?cfg (?f 2), map (nth_backoff ?cfg) [0..<2])"
    using retry_loop_stops by blast
  have "attempt_outcome ?cfg (?f 2) = Ok 42" by (simp add: attempt_outcome_def)
  with loop show "retries_then_succeeds now now'"
    by (simp add: retries_then_succeeds_def run_def run_admit_def run_settle_def allow_def cb_new_def
        attempt_outcome_def)
  show "timeout_fires now now'"
    by (simp add: timeout_fires_def run_def run_admit_def run_settle_def allow_def cb_new_def
        retry_loop.simps attempt_outcome_def add_w_def default_resilience_def on_failure_def
        saturating_add_def word_le_nat_alt Let_def)
qed

subsection \<open>kernelflow-nodes\<close>

definition stdlib_loads_and_validates :: "'n node_env \<Rightarrow> bool" where
  "stdlib_loads_and_validates env =
     (let r = with_stdlib env in
      describe r ''median'' \<noteq> None \<and> unwraps (validate_edge r ''median'' ''threshold'') (\<lambda>_. True))"

definition type_mismatch_caught_at_composition :: "'n node_env \<Rightarrow> bool" where
  "type_mismatch_caught_at_composition env =
     (case validate_edge (with_stdlib env) ''sha256'' ''median'' of
        Err (InvalidInput m) \<Rightarrow> True | _ \<Rightarrow> False)"

definition gt_fires :: "node_context \<Rightarrow> bool" where
  "gt_fires ctx =
     (let input = \<lparr>in_workflow_id = 0, in_node_id = [], in_payload = JNull,
                   in_parents = [(''p'', JNumber price_3050)]\<rparr>
      in unwraps (threshold_execute demo_ext (threshold_gt limit_3000) ctx input)
           (\<lambda>out. json_get demo_ext (out_value out) ''ok'' = Some (JBool True)))"

definition median_of_three :: "node_context \<Rightarrow> bool" where
  "median_of_three ctx =
     (let parents = bt_insert ''c'' (JNumber three) (bt_insert ''b'' (JNumber five)
                      (bt_insert ''a'' (JNumber one) bt_new));
          input = \<lparr>in_workflow_id = 0, in_node_id = [], in_payload = JNull, in_parents = parents\<rparr>
      in unwraps (median_execute demo_ext ctx input) (\<lambda>out. out_value out = JNumber three))"

lemma node_tests_hold:
  "stdlib_loads_and_validates env" "type_mismatch_caught_at_composition env" "gt_fires ctx"
  "median_of_three ctx"
proof -
  show "stdlib_loads_and_validates env" "type_mismatch_caught_at_composition env"
    by (simp_all add: stdlib_loads_and_validates_def type_mismatch_caught_at_composition_def
        validate_edge_def describe_stdlib assignable_def)
  show "gt_fires ctx"
    using price_above prices_finite(2)
    by (simp add: gt_fires_def threshold_execute_def threshold_input_def bt_values_def threshold_gt_def
        threshold_pairs del: op_holds.simps)
  have "median_execute demo_ext ctx
      \<lparr>in_workflow_id = 0, in_node_id = [], in_payload = JNull, in_parents = in_parents three_parents\<rparr> =
      median_execute demo_ext ctx three_parents"
    by (simp add: median_execute_def)
  moreover have "bt_insert ''c'' (JNumber three) (bt_insert ''b'' (JNumber five)
      (bt_insert ''a'' (JNumber one) bt_new)) = in_parents three_parents"
    by (simp add: bt_new_def three_parents_def less_char_def)
  ultimately show "median_of_three ctx" by (simp add: median_of_three_def three_parents_median)
qed

subsection \<open>kernelflow-matchmaker\<close>

definition test_cap :: "capability list \<Rightarrow> u32 \<Rightarrow> resource_capacity" where
  "test_cap caps vram = \<lparr>cpu_cores = 8, ram_mb = 32000, gpu_vram_mb = vram, capabilities = caps\<rparr>"

definition picks_capability_match_with_highest_reputation :: "nat \<Rightarrow> bool" where
  "picks_capability_match_with_highest_reputation r =
     (let a = (operator_new ''a'' (test_cap [GenericCpu] 0))\<lparr>op_reputation := F64 0x3FC999999999999A\<rparr>;
          b = (operator_new ''b'' (test_cap [GpuProver 24000] 24000))\<lparr>op_reputation := F64 0x3FECCCCCCCCCCCCD\<rparr>;
          c = (operator_new ''c'' (test_cap [GpuProver 24000] 24000))\<lparr>op_reputation := F64 0x3FD999999999999A\<rparr>;
          reg = register_op c (register_op b (register_op a hm_new));
          req = default_requirements\<lparr>req_gpu_vram_mb := 16000, req_capabilities := [GpuProver 24000]\<rparr>
      in unwraps (select reg req r) (\<lambda>picked. picked = ''b''))"

definition reservation_blocks_doublebooking :: bool where
  "reservation_blocks_doublebooking =
     (let reg = register_op (operator_new ''solo'' (test_cap [GenericCpu] 0)) hm_new;
          req = default_requirements\<lparr>req_cpu_cores := 8, req_capabilities := [GenericCpu]\<rparr>;
          (r1, reg) = reserve ''solo'' req reg;
          (r2, reg) = reserve ''solo'' req reg;
          reg = release ''solo'' req reg;
          (r3, reg) = reserve ''solo'' req reg
      in unwraps r1 (\<lambda>_. True) \<and> r2 = Err RateLimited \<and> unwraps r3 (\<lambda>_. True))"

lemma matchmaker_tests_hold:
  "picks_capability_match_with_highest_reputation r" "reservation_blocks_doublebooking"
proof -
  let ?b = "F64 0x3FECCCCCCCCCCCCD" and ?c = "F64 0x3FD999999999999A"
  have order: "f64_partial_cmp ?b ?c = Some Greater" "f64_partial_cmp ?c ?b = Some Less"
    by (simp_all add: f64_partial_cmp_def f64_eval)
  have close: "f64_lt (f64_abs (f64_sub ?b ?b)) tie_margin" "\<not> f64_lt (f64_abs (f64_sub ?c ?b)) tie_margin"
    by (simp_all add: f64_eval tie_margin_def)
  show "picks_capability_match_with_highest_reputation r"
    by (simp add: picks_capability_match_with_highest_reputation_def select_def snapshot_def register_op_def
        hm_values_def hm_insert_def hm_new_def can_take_iff operator_new_def test_cap_def default_requirements_def
        reputation_cmp_def order close close_to_def slice_choose_def Let_def)
  show reservation_blocks_doublebooking
    by (simp add: reservation_blocks_doublebooking_def reserve_def release_def register_op_def
        hm_get_def hm_insert_def hm_new_def can_take_iff operator_new_def test_cap_def default_requirements_def
        commit_def uncommit_def add_w_def saturating_sub_def Let_def)
qed

subsection \<open>Storage, attestation and synthesis\<close>

definition store_roundtrip :: "string \<Rightarrow> bool" where
  "store_roundtrip path =
     unwraps (store_open demo_rocks path) (\<lambda>s.
       let (r, s) = store_put demo_join demo_rocks demo_bincode State [107] 42 s in
       unwraps r (\<lambda>_. unwraps (store_get demo_join demo_rocks demo_bincode State [107] s) (\<lambda>v. v = Some 42)))"

definition sign_verify_roundtrip :: "('k, 'vk) ed25519 \<Rightarrow> codecs \<Rightarrow> 'k \<Rightarrow> nat \<Rightarrow> bool" where
  "sign_verify_roundtrip ed cd key now =
     (let a = attestor_random key; att = attest_sign ed cd a 0 ''deadbeef'' now
      in unwraps (check_attestation ed cd att) (\<lambda>ok. ok))"

definition synth_with_mock :: "(string \<Rightarrow> (string, 'n node_spec list) outcome) \<Rightarrow> string \<Rightarrow> bool" where
  "synth_with_mock from_str answer =
     unwraps (synthesize from_str (mock_complete answer) ''do x'') (\<lambda>nodes. length nodes = 1)"

lemma store_roundtrip_holds: "store_roundtrip path"
  by (simp add: store_roundtrip_def store_open_def demo_store_simps Let_def)

lemma sign_verify_roundtrip_holds:
  "ed25519_laws ed \<Longrightarrow> codec_laws cd \<Longrightarrow> sign_verify_roundtrip ed cd key now"
  by (simp add: sign_verify_roundtrip_def check_attestation_def attest_sign_def ed25519_laws_def
      codec_laws_def sized_def pubkey_def Let_def)

lemma synth_with_mock_holds: "from_str answer = Ok [spec] \<Longrightarrow> synth_with_mock from_str answer"
  by (simp add: synth_with_mock_def synthesize_mock)

end
