(* ===== verification/Anchor.thy ===== *)
theory Anchor
  imports Prelude "HOL-Library.Numeral_Type"
begin

section \<open>The on-chain program (anchor/programs/kernelflow-attest)\<close>

text \<open>
  The program stores one record per workflow in an account whose address is derived from the
  workflow identifier. The state is the accounts of the program; an instruction that fails leaves
  it unchanged, as every failed transaction does. The derivation of addresses, the payment for the
  account and the clock are arguments; the \<open>init\<close> constraint is the documented one: the account
  must not exist.
\<close>

type_synonym bytes = "u8 list"

text \<open>An array \<open>[u8; n]\<close> is a function from the \<open>n\<close> indices; \<open>as_ref\<close> is its slice.\<close>

type_synonym 'n byte_array = "'n \<Rightarrow> u8"

definition as_ref :: "'n::{finite, comm_ring_1} byte_array \<Rightarrow> bytes" where
  "as_ref a = map (\<lambda>i. a (of_nat i)) [0..<CARD('n)]"

record 'key attestation_record =
  ar_workflow_id :: "16 byte_array"
  ar_output_hash :: "32 byte_array"
  ar_signer :: 'key
  ar_timestamp :: i64

record 'key attestation_stored =
  ev_workflow_id :: "16 byte_array"
  ev_output_hash :: "32 byte_array"
  ev_signer :: 'key
  ev_timestamp :: i64

type_synonym ('addr, 'key) ledger = "'addr \<Rightarrow> 'key attestation_record option"

datatype program_error = Account_In_Use | Host_Error string

definition account_space :: nat where
  "account_space = 8 + 16 + 32 + 32 + 8"

definition attestation_seeds :: "16 byte_array \<Rightarrow> bytes list" where
  "attestation_seeds workflow_id = [[97, 116, 116], as_ref workflow_id]"

definition submit_attestation :: "(bytes list \<Rightarrow> 'addr) \<Rightarrow> ('key \<Rightarrow> nat \<Rightarrow> (string, unit) outcome) \<Rightarrow>
    (string, i64) outcome \<Rightarrow> 'key \<Rightarrow> 16 byte_array \<Rightarrow> 32 byte_array \<Rightarrow> ('addr, 'key) ledger \<Rightarrow>
    (program_error, ('addr, 'key) ledger \<times> 'key attestation_stored) outcome" where
  "submit_attestation derive pay clock signer workflow_id output_hash accounts =
     (let addr = derive (attestation_seeds workflow_id) in
      if accounts addr \<noteq> None then Err Account_In_Use
      else
        and_then (map_err Host_Error (pay signer account_space)) (\<lambda>_.
        and_then (map_err Host_Error clock) (\<lambda>unix_timestamp.
          let a = \<lparr>ar_workflow_id = workflow_id, ar_output_hash = output_hash, ar_signer = signer,
                   ar_timestamp = unix_timestamp\<rparr>
          in Ok (accounts(addr \<mapsto> a),
                 \<lparr>ev_workflow_id = workflow_id, ev_output_hash = output_hash,
                  ev_signer = ar_signer a, ev_timestamp = ar_timestamp a\<rparr>))))"

inductive ledger_step :: "(bytes list \<Rightarrow> 'addr) \<Rightarrow> ('addr, 'key) ledger \<Rightarrow> ('addr, 'key) ledger \<Rightarrow> bool"
  for derive where
  ledger_store: "submit_attestation derive pay clock signer w h L = Ok (L', ev) \<Longrightarrow> ledger_step derive L L'"
| ledger_fail: "submit_attestation derive pay clock signer w h L = Err e \<Longrightarrow> ledger_step derive L L"

inductive_cases ledger_step_cases [consumes 1]: "ledger_step derive L L'"

lemma submit_attestation_Ok:
  assumes "submit_attestation derive pay clock signer w h L = Ok (L', ev)"
  shows "L (derive (attestation_seeds w)) = None" and "\<exists>now. clock = Ok now \<and>
    L' = L(derive (attestation_seeds w) \<mapsto>
      \<lparr>ar_workflow_id = w, ar_output_hash = h, ar_signer = signer, ar_timestamp = now\<rparr>)"
  using assms by (auto simp: submit_attestation_def Let_def outcome_simps split: if_splits)

definition ledger_inv :: "(bytes list \<Rightarrow> 'addr) \<Rightarrow> ('addr, 'key) ledger \<Rightarrow> bool" where
  "ledger_inv derive L \<longleftrightarrow> (\<forall>a r. L a = Some r \<longrightarrow> a = derive (attestation_seeds (ar_workflow_id r)))"

lemma ledger_inv_step:
  assumes "ledger_inv derive L" and "ledger_step derive L L'"
  shows "ledger_inv derive L'"
  using assms(2)
proof (cases rule: ledger_step_cases)
  case (1 pay clock signer w h ev)
  from submit_attestation_Ok(2) [OF this] assms(1) show ?thesis
    by (auto simp: ledger_inv_def split: if_splits)
qed (use assms(1) in simp)

interpretation ledger: step_invariant "\<lambda>L. L = Map.empty" "ledger_step derive" "ledger_inv derive" for derive
proof unfold_locales
  show "L = Map.empty \<Longrightarrow> ledger_inv derive L" for L by (simp add: ledger_inv_def)
qed (rule ledger_inv_step)

lemma ledger_keeps:
  assumes "(ledger_step derive)\<^sup>*\<^sup>* L L'" and "L a = Some r"
  shows "L' a = Some r"
  using assms
proof (induction rule: rtranclp_induct)
  case (step M N)
  from step.hyps(2) step.IH [OF step.prems] show ?case
  proof (cases rule: ledger_step_cases)
    case (1 pay clock signer w h ev)
    from submit_attestation_Ok [OF this] step.IH [OF step.prems] show ?thesis by auto
  qed simp
qed simp

subsection \<open>Properties of the program\<close>

text \<open>
  C19: A stored attestation is final: no sequence of later submissions, by whomever, changes or
  removes it, and it stays at the address derived from its workflow.
\<close>

theorem attestation_final:
  assumes "(ledger_step derive)\<^sup>*\<^sup>* Map.empty L" and "L a = Some r" and "(ledger_step derive)\<^sup>*\<^sup>* L L'"
  shows "L' a = Some r \<and> a = derive (attestation_seeds (ar_workflow_id r))"
  using ledger_keeps [OF assms(3,2)] ledger.reachable_inv [OF refl assms(1)] assms(2)
  by (auto simp: ledger_inv_def)

definition demo_seed :: "bytes list \<Rightarrow> bytes" where
  "demo_seed seeds = concat seeds"

definition demo_record :: "nat attestation_record" where
  "demo_record = \<lparr>ar_workflow_id = (\<lambda>i. 1), ar_output_hash = (\<lambda>i. 2), ar_signer = 3, ar_timestamp = 4\<rparr>"

abbreviation demo_address :: bytes where
  "demo_address \<equiv> [97, 116, 116] @ replicate 16 1"

lemma demo_address: "demo_seed (attestation_seeds (\<lambda>i. 1)) = demo_address"
  by (simp add: demo_seed_def attestation_seeds_def as_ref_def map_replicate_const)

lemma demo_ledger: "ledger_step demo_seed Map.empty [demo_address \<mapsto> demo_record]"
  by (rule ledger_store [where pay = "\<lambda>k n. Ok ()" and clock = "Ok 4" and signer = 3 and w = "\<lambda>i. 1" and h = "\<lambda>i. 2"])
    (simp only: submit_attestation_def demo_address demo_record_def Let_def, simp)

theorem attestation_final_witness:
  "demo_address = demo_seed (attestation_seeds (ar_workflow_id demo_record))"
  using attestation_final [OF r_into_rtranclp [of "ledger_step demo_seed", OF demo_ledger] _ rtranclp.rtrancl_refl,
    of demo_address demo_record] by (simp del: append.simps)

text \<open>
  The first submission for a workflow wins, whoever makes it: with a fee and a clock it succeeds
  for any signer and any hash, without a signature of the workflow's attestor, and every
  submission for that workflow after it fails as long as the chain runs.
\<close>

theorem first_submission_wins:
  assumes "L (derive (attestation_seeds w)) = None" and "pay signer account_space = Ok ()"
  shows "\<exists>L1 ev. submit_attestation derive pay (Ok now) signer w h L = Ok (L1, ev) \<and>
    (\<forall>L2 pay' clock' signer' h'. (ledger_step derive)\<^sup>*\<^sup>* L1 L2 \<longrightarrow>
       submit_attestation derive pay' clock' signer' w h' L2 = Err Account_In_Use)"
proof -
  obtain L1 ev where ok: "submit_attestation derive pay (Ok now) signer w h L = Ok (L1, ev)"
    using assms by (simp add: submit_attestation_def Let_def)
  from submit_attestation_Ok(2) [OF this] obtain r where "L1 (derive (attestation_seeds w)) = Some r"
    by auto
  then have "submit_attestation derive pay' clock' signer' w h' L2 = Err Account_In_Use"
    if "(ledger_step derive)\<^sup>*\<^sup>* L1 L2" for L2 pay' clock' signer' h'
    using ledger_keeps [OF that] by (simp add: submit_attestation_def Let_def)
  with ok show ?thesis by blast
qed

theorem first_submission_wins_witness:
  "\<exists>L1 ev. submit_attestation demo_seed (\<lambda>k n. Ok ()) (Ok 4) (666 :: nat) (\<lambda>i. 1) (\<lambda>i. 9) Map.empty = Ok (L1, ev)"
  using first_submission_wins [of Map.empty demo_seed "\<lambda>i. 1" "\<lambda>k n. Ok ()" 666 4 "\<lambda>i. 9"] by blast

end
