(* ===== verification/Run_System.thy ===== *)
theory Run_System
  imports Workflow
begin

section \<open>A run as a system of tasks\<close>

text \<open>
  \<open>Scheduler::run\<close> together with the tasks it spawns: the scheduler's own future, one actor task
  per node with its mailbox, and the circuit breaker of the one \<open>ResilientExecutor\<close> that all of them
  share behind an asynchronous mutex. Each step is one of them moving: the scheduler dispatches,
  polls a future for the first time (which sends its message), takes a reply or finishes; a task
  takes a message, is refused or admitted by limiter and breaker, or ends the retry loop, tells the
  breaker and replies. Between two critical sections of the breaker any other task may move. Tasks
  go on after the run has returned, as nothing cancels them.
\<close>

subsection \<open>State and steps\<close>

text \<open>\<open>behaves node ctx input r\<close>: one execution of the node may end with \<open>r\<close>; or it takes too long.\<close>

type_synonym ('a, 'n) node_behaviour =
  "'a \<Rightarrow> node_context \<Rightarrow> 'n node_input \<Rightarrow> 'n node_output kernel_result \<Rightarrow> bool"

definition timed :: "('a, 'n) node_behaviour \<Rightarrow> 'a \<Rightarrow> node_context \<Rightarrow> 'n node_input \<Rightarrow>
    'n node_output attempt \<Rightarrow> bool" where
  "timed behaves node ctx input t =
     (case t of Elapsed \<Rightarrow> True | Completed r \<Rightarrow> behaves node ctx input r)"

record ('a, 'n) system =
  sys_sched :: "('a, 'n) sched"
  sys_actors :: "node_id \<Rightarrow> 'n actor"
  sys_sent :: "node_id \<Rightarrow> 'n message option"
  sys_admitted :: "node_id \<Rightarrow> bool"
  sys_breaker :: circuit_breaker

definition sys_init :: "resilience_config \<Rightarrow> ('p, 'n) dag \<Rightarrow> ('a, 'n) system" where
  "sys_init cfg d =
     \<lparr>sys_sched = sched_init d, sys_actors = (\<lambda>v. spawn), sys_sent = (\<lambda>v. None),
      sys_admitted = (\<lambda>v. False),
      sys_breaker = cb_new (rc_circuit_threshold cfg) (rc_circuit_cooldown cfg)\<rparr>"

text \<open>The start with the node factory, which may panic before the first round.\<close>

definition sys_begin :: "resilience_config \<Rightarrow> ('p, 'a) node_closure \<Rightarrow> ('p, 'n) dag \<Rightarrow> ('a, 'n) system" where
  "sys_begin cfg mk d = (sys_init cfg d)\<lparr>sys_sched := run_begin mk d\<rparr>"

lemma sys_begin_init:
  assumes "List.find (\<lambda>(i, payload). isl (mk i payload)) (dag_nodes d) = None"
  shows "sys_begin cfg mk d = sys_init cfg d"
  by (simp add: sys_begin_def sys_init_def run_begin_init [OF assms])

definition set_actor :: "node_id \<Rightarrow> 'n actor \<Rightarrow> ('a, 'n) system \<Rightarrow> ('a, 'n) system" where
  "set_actor v act s = s\<lparr>sys_actors := (sys_actors s)(v := act)\<rparr>"

definition set_admitted :: "node_id \<Rightarrow> bool \<Rightarrow> circuit_breaker \<Rightarrow> ('a, 'n) system \<Rightarrow> ('a, 'n) system" where
  "set_admitted v b cb s = s\<lparr>sys_admitted := (sys_admitted s)(v := b), sys_breaker := cb\<rparr>"

text \<open>The message of a call, and the scheduler after the future of node \<open>v\<close> has resolved.\<close>

definition call_message :: "'n node_input \<Rightarrow> string \<Rightarrow> 'n message" where
  "call_message input trace = \<lparr>m_input = input, m_ctx = default_context trace\<rparr>"

definition resolve :: "'n ext \<Rightarrow> ('p, 'n) dag \<Rightarrow> node_id \<Rightarrow> 'n node_output kernel_result \<Rightarrow>
    (node_id \<times> 'a \<times> 'n node_input) list \<Rightarrow> ('a, 'n) system \<Rightarrow> ('a, 'n) system" where
  "resolve x d v res rest s =
     s\<lparr>sys_sched := settle x d v res ((sys_sched s)\<lparr>s_inflight := rest\<rparr>)\<rparr>"

text \<open>What the task of a node gets from the executor after its calls of the closure.\<close>

definition task_settles :: "resilience_config \<Rightarrow> ('n node_output attempt \<Rightarrow> bool) \<Rightarrow> circuit_breaker \<Rightarrow>
    'n node_output kernel_result \<Rightarrow> circuit_breaker \<Rightarrow> bool" where
  "task_settles cfg attempt_ok cb res cb' \<longleftrightarrow>
     (\<exists>f now. (\<forall>i. attempt_ok (f i)) \<and>
        run_settle now (fst (retry_loop cfg f 0 (rc_initial_backoff cfg))) cb = (res, cb'))"

inductive sys_step :: "'n ext \<Rightarrow> ('p, 'n) dag \<Rightarrow> (node_id \<Rightarrow> 'p \<Rightarrow> 'a) \<Rightarrow> resilience_config \<Rightarrow>
    ('a, 'n) node_behaviour \<Rightarrow> ('a, 'n) system \<Rightarrow> ('a, 'n) system \<Rightarrow> bool"
  for x d factory cfg behaves where
  sys_dispatch:
    "s_status (sys_sched s) = None \<Longrightarrow> s_inflight (sys_sched s) = [] \<Longrightarrow> s_ready (sys_sched s) \<noteq> [] \<Longrightarrow>
     sys_step x d factory cfg behaves s (s\<lparr>sys_sched := dispatch d factory (sys_sched s)\<rparr>)"
| sys_call:
    "s_status (sys_sched s) = None \<Longrightarrow> (v, node, input) \<in> set (s_inflight (sys_sched s)) \<Longrightarrow>
     sys_sent s v = None \<Longrightarrow> a_alive (sys_actors s v) \<Longrightarrow>
     send (call_message input trace) (sys_actors s v) = Some act \<Longrightarrow>
     sys_step x d factory cfg behaves s
       (set_actor v act (s\<lparr>sys_sent := (sys_sent s)(v \<mapsto> call_message input trace)\<rparr>))"
| sys_refused:
    "s_status (sys_sched s) = None \<Longrightarrow> s_inflight (sys_sched s) = pre @ (v, node, input) # post \<Longrightarrow>
     sys_sent s v = None \<Longrightarrow> \<not> a_alive (sys_actors s v) \<Longrightarrow>
     send (call_message input trace) (sys_actors s v) = Some act \<Longrightarrow>
     sys_step x d factory cfg behaves s (resolve x d v mailbox_closed (pre @ post) (set_actor v act s))"
| sys_recv:
    "recv (sys_actors s v) = Some act \<Longrightarrow> sys_step x d factory cfg behaves s (set_actor v act s)"
| sys_admit:
    "a_current (sys_actors s v) = Some m \<Longrightarrow> \<not> sys_admitted s v \<Longrightarrow>
     run_admit limiter_ok now (sys_breaker s) = (Ok (), cb) \<Longrightarrow>
     sys_step x d factory cfg behaves s (set_admitted v True cb s)"
| sys_turned_away:
    "a_current (sys_actors s v) = Some m \<Longrightarrow> \<not> sys_admitted s v \<Longrightarrow>
     run_admit limiter_ok now (sys_breaker s) = (Err e, cb) \<Longrightarrow>
     reply (Err e) (sys_actors s v) = Some act \<Longrightarrow>
     sys_step x d factory cfg behaves s (set_actor v act (set_admitted v False cb s))"
| sys_reply:
    "a_current (sys_actors s v) = Some m \<Longrightarrow> sys_admitted s v \<Longrightarrow>
     task_settles cfg (timed behaves (actor_of d factory v) (m_ctx m) (m_input m)) (sys_breaker s) res cb \<Longrightarrow>
     no_panic res \<Longrightarrow> reply res (sys_actors s v) = Some act \<Longrightarrow>
     sys_step x d factory cfg behaves s (set_actor v act (set_admitted v False cb s))"
| sys_crash:
    "a_current (sys_actors s v) = Some m \<Longrightarrow> sys_admitted s v \<Longrightarrow>
     task_settles cfg (timed behaves (actor_of d factory v) (m_ctx m) (m_input m)) (sys_breaker s) (Panic p) cb \<Longrightarrow>
     crash (sys_actors s v) = Some act \<Longrightarrow>
     sys_step x d factory cfg behaves s (set_actor v act (set_admitted v False cb s))"
| sys_resolve:
    "s_status (sys_sched s) = None \<Longrightarrow> s_inflight (sys_sched s) = pre @ (v, node, input) # post \<Longrightarrow>
     sys_sent s v = Some m \<Longrightarrow> (m, res) \<in> set (a_replies (sys_actors s v)) \<Longrightarrow>
     sys_step x d factory cfg behaves s (resolve x d v res (pre @ post) s)"
| sys_finish:
    "s_status (sys_sched s) = None \<Longrightarrow> s_inflight (sys_sched s) = [] \<Longrightarrow> s_ready (sys_sched s) = [] \<Longrightarrow>
     sys_step x d factory cfg behaves s (s\<lparr>sys_sched := finish x d (sys_sched s)\<rparr>)"

inductive_cases sys_step_cases: "sys_step x d factory cfg behaves s t"

lemma set_actor_simps [simp]:
  "sys_sched (set_actor v act s) = sys_sched s" "sys_sent (set_actor v act s) = sys_sent s"
  "sys_admitted (set_actor v act s) = sys_admitted s" "sys_breaker (set_actor v act s) = sys_breaker s"
  "sys_actors (set_actor v act s) = (sys_actors s)(v := act)"
  by (simp_all add: set_actor_def)

lemma set_admitted_simps [simp]:
  "sys_sched (set_admitted v b cb s) = sys_sched s" "sys_sent (set_admitted v b cb s) = sys_sent s"
  "sys_actors (set_admitted v b cb s) = sys_actors s" "sys_breaker (set_admitted v b cb s) = cb"
  "sys_admitted (set_admitted v b cb s) = (sys_admitted s)(v := b)"
  by (simp_all add: set_admitted_def)

lemma resolve_simps [simp]:
  "sys_sched (resolve x d v res rest s) = settle x d v res ((sys_sched s)\<lparr>s_inflight := rest\<rparr>)"
  "sys_sent (resolve x d v res rest s) = sys_sent s" "sys_actors (resolve x d v res rest s) = sys_actors s"
  "sys_admitted (resolve x d v res rest s) = sys_admitted s"
  "sys_breaker (resolve x d v res rest s) = sys_breaker s"
  by (simp_all add: resolve_def)

subsection \<open>What a task may answer\<close>

lemma turned_away_returns:
  assumes "run_admit limiter_ok now cb = (Err e, cb')"
  shows "executor_returns cfg (timed behaves node ctx input) (Err e)"
proof -
  have "fst (run cfg limiter_ok now (\<lambda>i. Elapsed) id now cb) = Err e"
    by (simp add: run_def assms)
  then show ?thesis
    unfolding executor_returns_def timed_def by (metis (mono_tags, lifting) attempt.simps(4))
qed

lemma task_settles_returns:
  assumes "task_settles cfg attempt_ok cb res cb'"
  shows "executor_returns cfg attempt_ok res"
proof -
  obtain f now where f: "\<forall>i. attempt_ok (f i)"
    and res: "run_settle now (fst (retry_loop cfg f 0 (rc_initial_backoff cfg))) cb = (res, cb')"
    using assms unfolding task_settles_def by blast
  have "fst (run cfg True now f (\<lambda>c. cb) now (cb_new 1 (Duration 0))) = res"
    by (simp add: run_def run_admit_def allow_def cb_new_def res)
  with f show ?thesis unfolding executor_returns_def by blast
qed

text \<open>Each step of a task is a step of the mailbox machine of its actor.\<close>

definition node_exec :: "('p, 'n) dag \<Rightarrow> (node_id \<Rightarrow> 'p \<Rightarrow> 'a) \<Rightarrow> resilience_config \<Rightarrow>
    ('a, 'n) node_behaviour \<Rightarrow> node_id \<Rightarrow> 'n message \<Rightarrow> 'n node_output kernel_result \<Rightarrow> bool" where
  "node_exec d factory cfg behaves v m res =
     executor_returns cfg (timed behaves (actor_of d factory v) (m_ctx m) (m_input m)) res"

lemma sys_step_actors:
  assumes "sys_step x d factory cfg behaves s t"
  shows "sys_actors t v = sys_actors s v \<or>
    actor_step (node_exec d factory cfg behaves v) (sys_actors s v) (sys_actors t v)"
  using assms
proof (cases rule: sys_step_cases [consumes 1])
  case (6 w m limiter_ok now e cb act)
  have "actor_step (node_exec d factory cfg behaves w) (sys_actors s w) act"
    by (rule step_reply [OF 6(2) _ _ 6(5)]) (simp_all add: node_exec_def turned_away_returns [OF 6(4)])
  then show ?thesis by (simp add: 6(1))
next
  case (7 w m res cb act)
  have "actor_step (node_exec d factory cfg behaves w) (sys_actors s w) act"
    by (rule step_reply [OF 7(2) _ 7(5,6)]) (simp add: node_exec_def task_settles_returns [OF 7(4)])
  then show ?thesis by (simp add: 7(1))
next
  case (8 w m p cb act)
  have "actor_step (node_exec d factory cfg behaves w) (sys_actors s w) act"
    by (rule step_crash [where p = p, OF 8(2) _ 8(5)]) (simp add: node_exec_def task_settles_returns [OF 8(4)])
  then show ?thesis by (simp add: 8(1))
qed (auto intro: step_send step_recv)

subsection \<open>The invariant\<close>

text \<open>
  Every actor keeps its own invariant, an admitted task is executing a message, and each actor has
  received at most the one message of its node's future. While the run goes on, that future is in
  flight with the input of the message, or it has resolved into an output.
\<close>

definition one_message :: "('a, 'n) system \<Rightarrow> node_id \<Rightarrow> bool" where
  "one_message s v \<longleftrightarrow>
     (case sys_sent s v of
        None \<Rightarrow> sys_actors s v = spawn
      | Some m \<Rightarrow> a_sent (sys_actors s v) = [m] \<and> a_refused (sys_actors s v) = [])"

definition in_flight :: "('a, 'n) system \<Rightarrow> node_id \<Rightarrow> 'n message \<Rightarrow> bool" where
  "in_flight s v m \<longleftrightarrow>
     (\<exists>node input trace. (v, node, input) \<in> set (s_inflight (sys_sched s)) \<and> m = call_message input trace)"

definition sys_inv :: "'n ext \<Rightarrow> ('p, 'n) dag \<Rightarrow> (node_id \<Rightarrow> 'p \<Rightarrow> 'a) \<Rightarrow> resilience_config \<Rightarrow>
    ('a, 'n) node_behaviour \<Rightarrow> ('a, 'n) system \<Rightarrow> bool" where
  "sys_inv x d factory cfg behaves s \<longleftrightarrow>
     sched_inv x d factory (actor_call cfg (timed behaves)) (sys_sched s) \<and>
     (\<forall>v. actor_inv (node_exec d factory cfg behaves v) (sys_actors s v) \<and> one_message s v \<and>
        (sys_admitted s v \<longrightarrow> a_current (sys_actors s v) \<noteq> None) \<and>
        (sys_sent s v \<noteq> None \<longrightarrow> v \<in> node_ids d) \<and>
        (s_status (sys_sched s) = None \<longrightarrow>
           (\<forall>m. sys_sent s v = Some m \<longrightarrow> v \<in> dom (bt_get (s_outputs (sys_sched s))) \<or> in_flight s v m)))"

lemma sys_invD:
  assumes "sys_inv x d factory cfg behaves s"
  shows "sched_inv x d factory (actor_call cfg (timed behaves)) (sys_sched s)"
    and "actor_inv (node_exec d factory cfg behaves v) (sys_actors s v)" and "one_message s v"
    and "sys_admitted s v \<Longrightarrow> a_current (sys_actors s v) \<noteq> None"
    and "sys_sent s v \<noteq> None \<Longrightarrow> v \<in> node_ids d"
    and "s_status (sys_sched s) = None \<Longrightarrow> sys_sent s v = Some m \<Longrightarrow>
      v \<in> dom (bt_get (s_outputs (sys_sched s))) \<or> in_flight s v m"
  using assms by (simp_all add: sys_inv_def)

lemma sys_inv_core:
  assumes "sys_inv x d factory cfg behaves s" and "s_status (sys_sched s) = None"
  shows "sched_core x d factory (sys_sched s)" and "bt_wf (dag_nodes d)" and "targets_known d"
  using assms by (simp_all add: sys_inv_def sched_inv_def)

lemma sys_inv_init:
  assumes "targets_known d" and "bt_wf (dag_nodes d)"
  shows "sys_inv x d factory cfg behaves (sys_init cfg d)"
proof -
  have "sched_inv x d factory (actor_call cfg (timed behaves)) (sched_init d)"
    by (rule sched_inv_init) (simp add: sched_start_def assms)
  then show ?thesis
    by (simp add: sys_inv_def sys_init_def one_message_def actors.init_inv)
qed

text \<open>What is in flight is the call of the node on the input built from the outputs so far.\<close>

lemma inflight_flight:
  assumes inv: "sys_inv x d factory cfg behaves s" and run: "s_status (sys_sched s) = None"
    and mem: "(v, node, input) \<in> set (s_inflight (sys_sched s))"
  shows "node = actor_of d factory v" and "input = make_input d (s_outputs (sys_sched s)) v"
    and "v \<in> node_ids d" and "bt_get (s_outputs (sys_sched s)) v = None"
proof -
  note core = sys_inv_core(1) [OF inv run]
  have "(v, node, input) = flight d factory (s_outputs (sys_sched s)) v"
    using core mem unfolding sched_core_def by fastforce
  then show "node = actor_of d factory v" "input = make_input d (s_outputs (sys_sched s)) v"
    by (simp_all add: flight_def actor_of_def)
  have "v \<in> set (active (sys_sched s))" using mem by (force simp: active_def)
  then show "v \<in> node_ids d" "bt_get (s_outputs (sys_sched s)) v = None"
    using core by (auto simp: sched_core_def reached_def)
qed

text \<open>A message that was sent from flight carries the input of its future.\<close>

lemma sent_in_flight:
  assumes inv: "sys_inv x d factory cfg behaves s" and run: "s_status (sys_sched s) = None"
    and mem: "(v, node, input) \<in> set (s_inflight (sys_sched s))" and sent: "sys_sent s v = Some m"
  obtains trace where "m = call_message input trace"
proof -
  note fl = inflight_flight [OF inv run]
  have "in_flight s v m" using sys_invD(6) [OF inv run sent] fl(4) [OF mem] by auto
  then obtain node' input' trace where mem': "(v, node', input') \<in> set (s_inflight (sys_sched s))"
    and m: "m = call_message input' trace" unfolding in_flight_def by blast
  have "input' = input" using fl(2) [OF mem] fl(2) [OF mem'] by simp
  with m show thesis by (intro that) simp
qed

subsection \<open>The system simulates the scheduler\<close>

lemma reply_allowed:
  assumes inv: "sys_inv x d factory cfg behaves s" and rep: "(m, res) \<in> set (a_replies (sys_actors s v))"
  shows "actor_call cfg (timed behaves) (actor_of d factory v) (m_ctx m) (m_input m) res"
    and "no_panic res"
proof -
  have ok: "reply_ok (node_exec d factory cfg behaves v) (a_alive (sys_actors s v)) (m, res)"
    using sys_invD(2) [OF inv, of v] rep by (auto simp: actor_inv_def)
  then show "actor_call cfg (timed behaves) (actor_of d factory v) (m_ctx m) (m_input m) res"
    by (auto simp: reply_ok_def actor_call_def node_exec_def)
  from ok show "no_panic res" by (auto simp: reply_ok_def reply_dropped_def)
qed

lemma sys_simulates:
  assumes inv: "sys_inv x d factory cfg behaves s" and step: "sys_step x d factory cfg behaves s t"
  shows "sys_sched t = sys_sched s \<or>
    sched_step x d factory (actor_call cfg (timed behaves)) (sys_sched s) (sys_sched t)"
  using step
proof (cases rule: sys_step_cases [consumes 1])
  case 1
  then show ?thesis by (auto intro: step_dispatch)
next
  case (3 pre v node input post trace act)
  with sys_invD(3) [OF inv, of v] show ?thesis by (simp add: one_message_def spawn_def)
next
  case (9 pre v node input post m res)
  have mem: "(v, node, input) \<in> set (s_inflight (sys_sched s))" by (simp add: 9(3))
  obtain trace where m: "m = call_message input trace" by (rule sent_in_flight [OF inv 9(2) mem 9(4)])
  have "sched_step x d factory (actor_call cfg (timed behaves)) (sys_sched s)
      (settle x d v res ((sys_sched s)\<lparr>s_inflight := pre @ post\<rparr>))"
    by (rule step_settle [OF 9(2,3), of _ trace])
      (use reply_allowed [OF inv 9(5)] inflight_flight(1) [OF inv 9(2) mem] in
        \<open>simp_all add: m call_message_def\<close>)
  then show ?thesis by (simp add: 9(1))
next
  case 10
  then show ?thesis by (auto intro: step_finish)
qed simp_all

lemma settle_running:
  assumes core: "sched_core x d factory st" and known: "targets_known d"
    and flight: "s_inflight st = pre @ (v, node, input) # post"
    and run: "s_status (settle x d v res (st\<lparr>s_inflight := pre @ post\<rparr>)) = None"
  shows "s_inflight (settle x d v res (st\<lparr>s_inflight := pre @ post\<rparr>)) = pre @ post"
    and "dom (bt_get (s_outputs (settle x d v res (st\<lparr>s_inflight := pre @ post\<rparr>)))) =
      insert v (dom (bt_get (s_outputs st)))"
proof -
  obtain out where res: "res = Ok out" using run by (cases res) (simp_all add: settle_def stopped_def)
  obtain st' where "complete x d v out (st\<lparr>s_inflight := pre @ post\<rparr>) = Ok st'"
    and "s_outputs st' = bt_insert v (out_value out) (s_outputs st)" "s_inflight st' = pre @ post"
    by (rule sched_core_complete [OF core known flight])
  then show "s_inflight (settle x d v res (st\<lparr>s_inflight := pre @ post\<rparr>)) = pre @ post"
    and "dom (bt_get (s_outputs (settle x d v res (st\<lparr>s_inflight := pre @ post\<rparr>)))) =
      insert v (dom (bt_get (s_outputs st)))"
    by (auto simp: settle_def res continue_def bt_get_insert split: if_splits)
qed

lemma recv_props:
  assumes "recv a = Some b"
  shows "a_sent b = a_sent a" "a_refused b = a_refused a" "a_current a = None" "a_current b \<noteq> None"
    "a_mailbox a \<noteq> []" "a \<noteq> spawn"
  using assms by (auto simp: recv_def spawn_def split: bool.splits option.splits list.splits)

lemma reply_props:
  assumes "reply res a = Some b" and "a_current a = Some m"
  shows "a_sent b = a_sent a" "a_refused b = a_refused a" "a_current b = None" "a_mailbox b = a_mailbox a"
    "a_replies b = a_replies a @ [(m, res)]"
  using assms by (auto simp: reply_def)

lemma crash_props:
  assumes "crash a = Some b" and "a_current a = Some m"
  shows "a_sent b = a_sent a" "a_refused b = a_refused a" "a_current b = None" "a_mailbox b = []"
    "a_replies b = a_replies a @ map (\<lambda>m. (m, reply_dropped)) (m # a_mailbox a)"
  using assms by (auto simp: crash_def)

lemma busy_sent:
  assumes "one_message s v" and "a_current (sys_actors s v) = Some m \<or> a_mailbox (sys_actors s v) \<noteq> []"
  shows "sys_sent s v \<noteq> None"
  using assms by (auto simp: one_message_def spawn_def split: option.splits)

lemma one_message_same:
  assumes "one_message s v" and "sys_sent t v = sys_sent s v" and "sys_sent s v \<noteq> None"
    and "a_sent (sys_actors t v) = a_sent (sys_actors s v)"
    and "a_refused (sys_actors t v) = a_refused (sys_actors s v)"
  shows "one_message t v"
  using assms by (auto simp: one_message_def)

lemma one_message_step:
  assumes inv: "sys_inv x d factory cfg behaves s" and step: "sys_step x d factory cfg behaves s t"
  shows "one_message t v \<and> (sys_admitted t v \<longrightarrow> a_current (sys_actors t v) \<noteq> None) \<and>
    (sys_sent t v \<noteq> None \<longrightarrow> v \<in> node_ids d)"
proof -
  note old = sys_invD(3) [OF inv, of v] sys_invD(4) [OF inv, of v] sys_invD(5) [OF inv, of v]
  show ?thesis
    using step
  proof (cases rule: sys_step_cases [consumes 1])
    case (2 w node input trace act)
    show ?thesis
    proof (cases "v = w")
      case True
      with old(1) 2(4) have "sys_actors s w = spawn" by (simp add: one_message_def)
      then have "act = spawn\<lparr>a_mailbox := [call_message input trace], a_sent := [call_message input trace]\<rparr>"
        using 2(6) by (simp add: send_def spawn_def mailbox_capacity_def)
      then show ?thesis
        using True old(2) inflight_flight(3) [OF inv 2(2,3)] \<open>sys_actors s w = spawn\<close>
        by (auto simp: 2(1) one_message_def spawn_def)
    next
      case False
      with old show ?thesis by (auto simp: 2(1) one_message_def split: option.splits)
    qed
  next
    case (3 pre w node input post trace act)
    with sys_invD(3) [OF inv, of w] show ?thesis by (simp add: one_message_def spawn_def)
  next
    case (4 w act)
    note p = recv_props [OF 4(2)]
    have "sys_sent s w \<noteq> None" using busy_sent [OF sys_invD(3) [OF inv]] p(5) by blast
    then show ?thesis
      using old p by (cases "v = w") (auto simp: 4(1) one_message_def split: option.splits)
  next
    case (5 w m limiter_ok now cb)
    with old show ?thesis by (auto simp: one_message_def split: option.splits)
  next
    case (6 w m limiter_ok now e cb act)
    have "sys_sent s w \<noteq> None" using busy_sent [OF sys_invD(3) [OF inv]] 6(2) by blast
    then show ?thesis
      using old reply_props [OF 6(5,2)] by (cases "v = w") (auto simp: 6(1) one_message_def split: option.splits)
  next
    case (7 w m res cb act)
    have "sys_sent s w \<noteq> None" using busy_sent [OF sys_invD(3) [OF inv]] 7(2) by blast
    then show ?thesis
      using old reply_props [OF 7(6,2)] by (cases "v = w") (auto simp: 7(1) one_message_def split: option.splits)
  next
    case (8 w m p cb act)
    have "sys_sent s w \<noteq> None" using busy_sent [OF sys_invD(3) [OF inv]] 8(2) by blast
    then show ?thesis
      using old crash_props [OF 8(5,2)] by (cases "v = w") (auto simp: 8(1) one_message_def split: option.splits)
  qed (use old in \<open>auto simp: one_message_def split: option.splits\<close>)
qed

lemma flight_step:
  assumes inv: "sys_inv x d factory cfg behaves s" and step: "sys_step x d factory cfg behaves s t"
    and run: "s_status (sys_sched t) = None" and sent: "sys_sent t v = Some m"
  shows "v \<in> dom (bt_get (s_outputs (sys_sched t))) \<or> in_flight t v m"
  using step
proof (cases rule: sys_step_cases [consumes 1])
  case 1
  note core = sys_inv_core [OF inv 1(2)]
  have "sys_sent s v = Some m" using sent by (simp add: 1(1))
  then have "v \<in> dom (bt_get (s_outputs (sys_sched s)))"
    using sys_invD(6) [OF inv 1(2)] 1(3) by (fastforce simp: in_flight_def)
  then show ?thesis by (simp add: 1(1) sched_core_dispatch(1) [OF core(1,2) 1(3)])
next
  case (2 w node input trace act)
  then show ?thesis
    using sent sys_invD(6) [OF inv 2(2), of v m] by (auto simp: in_flight_def split: if_splits)
next
  case (3 pre w node input post trace act)
  with sys_invD(3) [OF inv, of w] show ?thesis by (simp add: one_message_def spawn_def)
next
  case (9 pre w node input post m' res)
  note core = sys_inv_core [OF inv 9(2)]
  have run': "s_status (settle x d w res ((sys_sched s)\<lparr>s_inflight := pre @ post\<rparr>)) = None"
    using run by (simp add: 9(1))
  note eqs = settle_running [OF core(1,3) 9(3) run']
  have "v \<in> dom (bt_get (s_outputs (sys_sched s))) \<or> in_flight s v m"
    using sys_invD(6) [OF inv 9(2)] sent by (simp add: 9(1))
  then show ?thesis by (auto simp: in_flight_def 9(1,3) eqs)
next
  case 10
  with run show ?thesis by (simp add: finish_def stopped_def Let_def split: if_splits)
qed (use run sent sys_invD(6) [OF inv, of v m] in \<open>simp_all add: in_flight_def\<close>)

lemma sys_inv_step:
  assumes inv: "sys_inv x d factory cfg behaves s" and step: "sys_step x d factory cfg behaves s t"
  shows "sys_inv x d factory cfg behaves t"
proof -
  have "sched_inv x d factory (actor_call cfg (timed behaves)) (sys_sched t)"
    using sys_simulates [OF inv step] sys_invD(1) [OF inv] sched_inv_step by metis
  moreover have "actor_inv (node_exec d factory cfg behaves v) (sys_actors t v)" for v
    using sys_step_actors [OF step, of v] sys_invD(2) [OF inv, of v] actor_inv_step by metis
  ultimately show ?thesis
    using one_message_step [OF inv step] flight_step [OF inv step] by (simp add: sys_inv_def)
qed

subsection \<open>Every step lowers the rank\<close>

text \<open>How many steps the call of one node still needs, up to the reply.\<close>

definition phase :: "('a, 'n) system \<Rightarrow> node_id \<Rightarrow> nat" where
  "phase s v =
     (if sys_sent s v = None then 4
      else if a_mailbox (sys_actors s v) \<noteq> [] then 3
      else if a_current (sys_actors s v) = None then 0
      else if sys_admitted s v then 1 else 2)"

definition sys_rank :: "('p, 'n) dag \<Rightarrow> ('a, 'n) system \<Rightarrow> nat" where
  "sys_rank d s = sched_rank (sys_sched s) + sum (phase s) (node_ids d)"

lemma phase_cong:
  assumes "sys_sent t v = sys_sent s v" "sys_actors t v = sys_actors s v"
    "sys_admitted t v = sys_admitted s v"
  shows "phase t v = phase s v"
  using assms by (simp add: phase_def)

text \<open>Between its messages an actor that executes one has an empty mailbox.\<close>

lemma busy_mailbox:
  assumes inv: "sys_inv x d factory cfg behaves s" and cur: "a_current (sys_actors s v) = Some m"
  shows "a_mailbox (sys_actors s v) = []" and "a_replies (sys_actors s v) = []"
    and "sys_sent s v = Some m" and "v \<in> node_ids d"
proof -
  note om = sys_invD(3) [OF inv, of v]
  have "sys_sent s v \<noteq> None" using busy_sent [OF om] cur by blast
  then obtain m' where m': "sys_sent s v = Some m'" "a_sent (sys_actors s v) = [m']"
    using om by (auto simp: one_message_def)
  moreover have "a_sent (sys_actors s v) = map fst (a_replies (sys_actors s v)) @ m # a_mailbox (sys_actors s v)"
    using sys_invD(2) [OF inv, of v] by (simp add: actor_inv_def in_work_def cur)
  ultimately show "a_mailbox (sys_actors s v) = []" "a_replies (sys_actors s v) = []" "sys_sent s v = Some m"
    by (auto simp: append_eq_Cons_conv)
  show "v \<in> node_ids d" using sys_invD(5) [OF inv] m'(1) by blast
qed

lemma waiting_mailbox:
  assumes inv: "sys_inv x d factory cfg behaves s" and mb: "a_mailbox (sys_actors s v) \<noteq> []"
  shows "a_current (sys_actors s v) = None" and "length (a_mailbox (sys_actors s v)) = 1"
    and "v \<in> node_ids d" and "sys_sent s v \<noteq> None"
proof -
  note om = sys_invD(3) [OF inv, of v]
  show sent: "sys_sent s v \<noteq> None" using busy_sent [OF om] mb by blast
  then have "length (a_sent (sys_actors s v)) = 1" using om by (auto simp: one_message_def)
  moreover have "length (a_sent (sys_actors s v)) = length (a_replies (sys_actors s v)) +
      length (in_work (sys_actors s v))"
    using sys_invD(2) [OF inv, of v] by (simp add: actor_inv_def)
  ultimately show "a_current (sys_actors s v) = None" "length (a_mailbox (sys_actors s v)) = 1"
    using mb by (auto simp: in_work_def neq_Nil_conv split: option.splits)
  show "v \<in> node_ids d" using sys_invD(5) [OF inv sent] .
qed

lemma sum_lower:
  assumes "finite A" and "v \<in> A" and "g v < (f v :: nat)" and "\<And>w. w \<noteq> v \<Longrightarrow> g w = f w"
  shows "sum g A < sum f A"
  using assms by (intro sum_strict_mono_ex1) (auto, metis le_refl less_imp_le)

lemma finite_node_ids [simp]: "finite (node_ids d)"
  by (simp add: node_ids_def bt_get_map_of finite_dom_map_of)

lemma sys_rank_step:
  assumes inv: "sys_inv x d factory cfg behaves s" and step: "sys_step x d factory cfg behaves s t"
  shows "sys_rank d t < sys_rank d s"
proof -
  have task: ?thesis
    if "sys_sched t = sys_sched s" "v \<in> node_ids d" "phase t v < phase s v"
      "\<And>w. w \<noteq> v \<Longrightarrow> phase t w = phase s w" for v
    using that sum_lower [of "node_ids d" v "phase t" "phase s"] by (simp add: sys_rank_def)
  have sched: ?thesis
    if "sched_step x d factory (actor_call cfg (timed behaves)) (sys_sched s) (sys_sched t)"
      "sys_actors t = sys_actors s" "sys_sent t = sys_sent s" "sys_admitted t = sys_admitted s"
  proof -
    have "phase t = phase s" using that by (simp add: phase_def fun_eq_iff)
    then show ?thesis using sched_inv_step [OF sys_invD(1) [OF inv] that(1)] by (simp add: sys_rank_def)
  qed
  show ?thesis
    using step
  proof (cases rule: sys_step_cases [consumes 1])
    case 1
    then show ?thesis by (intro sched) (auto intro: step_dispatch)
  next
    case (2 w node input trace act)
    show ?thesis
    proof (rule task)
      show "w \<in> node_ids d" by (rule inflight_flight(3) [OF inv 2(2,3)])
      have "sys_actors s w = spawn" using sys_invD(3) [OF inv, of w] 2(4) by (simp add: one_message_def)
      then show "phase t w < phase s w"
        using 2(4,6) by (auto simp: 2(1) phase_def send_def spawn_def split: if_splits)
    qed (auto simp: 2(1) phase_def)
  next
    case (3 pre w node input post trace act)
    with sys_invD(3) [OF inv, of w] show ?thesis by (simp add: one_message_def spawn_def)
  next
    case (4 w act)
    note p = recv_props [OF 4(2)] and m = waiting_mailbox [OF inv recv_props(5) [OF 4(2)]]
    show ?thesis
    proof (rule task [OF _ m(3)])
      show "phase t w < phase s w"
        using p m 4(2) by (auto simp: 4(1) phase_def recv_def split: bool.splits option.splits list.splits)
    qed (auto simp: 4(1) phase_def)
  next
    case (5 w m limiter_ok now cb)
    note b = busy_mailbox [OF inv 5(2)]
    show ?thesis
      by (rule task [OF _ b(4)]) (use b 5 in \<open>auto simp: phase_def\<close>)
  next
    case (6 w m limiter_ok now e cb act)
    note b = busy_mailbox [OF inv 6(2)] and p = reply_props [OF 6(5,2)]
    show ?thesis
      by (rule task [OF _ b(4)]) (use b p 6 in \<open>auto simp: phase_def\<close>)
  next
    case (7 w m res cb act)
    note b = busy_mailbox [OF inv 7(2)] and p = reply_props [OF 7(6,2)]
    show ?thesis
      by (rule task [OF _ b(4)]) (use b p 7 in \<open>auto simp: phase_def\<close>)
  next
    case (8 w m p cb act)
    note b = busy_mailbox [OF inv 8(2)] and p = crash_props [OF 8(5,2)]
    show ?thesis
      by (rule task [OF _ b(4)]) (use b p 8 in \<open>auto simp: phase_def\<close>)
  next
    case (9 pre w node input post m res)
    have "sys_sched t \<noteq> sys_sched s"
    proof (cases "s_status (sys_sched t)")
      case None
      note core = sys_inv_core [OF inv 9(2)]
      have "s_inflight (sys_sched t) = pre @ post"
        using settle_running(1) [OF core(1,3) 9(3)] None by (simp add: 9(1))
      then show ?thesis using 9(3) by auto
    next
      case (Some r)
      then show ?thesis using 9(2) by auto
    qed
    then show ?thesis using sys_simulates [OF inv step] by (intro sched) (simp_all add: 9(1))
  next
    case 10
    then show ?thesis by (intro sched) (auto intro: step_finish)
  qed
qed

definition sys_start :: "resilience_config \<Rightarrow> ('p, 'n) dag \<Rightarrow> ('a, 'n) system \<Rightarrow> bool" where
  "sys_start cfg d s \<longleftrightarrow> targets_known d \<and> bt_wf (dag_nodes d) \<and> s = sys_init cfg d"

interpretation run_system: ranked_steps "sys_start cfg d" "sys_step x d factory cfg behaves"
  "sys_inv x d factory cfg behaves" "sys_rank d"
  for x :: "'n ext" and d :: "('p, 'n) dag" and factory :: "node_id \<Rightarrow> 'p \<Rightarrow> 'a" and cfg behaves
  by unfold_locales (use sys_inv_init sys_inv_step sys_rank_step in \<open>auto simp: sys_start_def\<close>)

subsection \<open>Some task can always move until all is done\<close>

lemma task_settles_slow:
  fixes behaves :: "('a, 'n) node_behaviour"
  obtains res cb' where "task_settles cfg (timed behaves node ctx input) cb res cb'"
proof -
  obtain res cb' where "run_settle (Instant 0) (fst (retry_loop cfg (\<lambda>i. Elapsed) 0
      (rc_initial_backoff cfg))) cb = (res :: 'n node_output kernel_result, cb')" by fastforce
  then have "task_settles cfg (timed behaves node ctx input) cb res cb'"
    unfolding task_settles_def timed_def by (intro exI conjI) auto
  then show thesis by (rule that)
qed

lemma task_can_move:
  assumes inv: "sys_inv x d factory cfg behaves s" and work: "in_work (sys_actors s v) \<noteq> []"
  shows "\<exists>t. sys_step x d factory cfg behaves s t"
proof (cases "a_current (sys_actors s v)")
  case None
  have "a_alive (sys_actors s v)" using sys_invD(2) [OF inv, of v] work by (auto simp: actor_inv_def)
  moreover obtain m rest where "a_mailbox (sys_actors s v) = m # rest"
    using work None by (auto simp: in_work_def neq_Nil_conv)
  ultimately have "recv (sys_actors s v) =
      Some ((sys_actors s v)\<lparr>a_current := Some m, a_mailbox := rest\<rparr>)"
    using None by (simp add: recv_def)
  then show ?thesis by (blast intro: sys_step.sys_recv)
next
  case (Some m)
  show ?thesis
  proof (cases "sys_admitted s v")
    case True
    obtain res cb where settles: "task_settles cfg
        (timed behaves (actor_of d factory v) (m_ctx m) (m_input m)) (sys_breaker s) res cb"
      by (rule task_settles_slow)
    show ?thesis
    proof (cases res)
      case (Panic p)
      obtain act where "crash (sys_actors s v) = Some act" using Some by (simp add: crash_def)
      with settles Panic Some True show ?thesis by (blast intro: sys_step.sys_crash)
    next
      case (Ok out)
      obtain act where "reply res (sys_actors s v) = Some act" using Some by (simp add: reply_def)
      moreover have "no_panic res" by (simp add: Ok)
      ultimately show ?thesis using settles Some True by (blast intro: sys_step.sys_reply)
    next
      case (Err e)
      obtain act where "reply res (sys_actors s v) = Some act" using Some by (simp add: reply_def)
      moreover have "no_panic res" by (simp add: Err)
      ultimately show ?thesis using settles Some True by (blast intro: sys_step.sys_reply)
    qed
  next
    case False
    obtain act where "reply (Err RateLimited) (sys_actors s v) = Some act"
      using Some by (simp add: reply_def)
    moreover have "run_admit False (Instant 0) (sys_breaker s) = (Err RateLimited, sys_breaker s)"
      by (simp add: run_admit_def)
    ultimately show ?thesis using Some False by (blast intro: sys_step.sys_turned_away)
  qed
qed

lemma run_can_move:
  assumes inv: "sys_inv x d factory cfg behaves s" and run: "s_status (sys_sched s) = None"
  shows "\<exists>t. sys_step x d factory cfg behaves s t"
proof (cases "s_inflight (sys_sched s)")
  case Nil
  then show ?thesis
    using run by (cases "s_ready (sys_sched s) = []") (blast intro: sys_step.sys_dispatch sys_step.sys_finish)+
next
  case (Cons f fs)
  obtain v node input where f: "f = (v, node, input)" by (cases f)
  show ?thesis
  proof (cases "sys_sent s v")
    case None
    then have spawned: "sys_actors s v = spawn"
      using sys_invD(3) [OF inv, of v] by (simp add: one_message_def)
    obtain act where "send (call_message input []) (sys_actors s v) = Some act"
      by (simp add: spawned send_def spawn_def mailbox_capacity_def)
    moreover have "a_alive (sys_actors s v)" by (simp add: spawned spawn_def)
    moreover have "(v, node, input) \<in> set (s_inflight (sys_sched s))" by (simp add: Cons f)
    ultimately show ?thesis using run None by (blast intro: sys_step.sys_call)
  next
    case (Some m)
    show ?thesis
    proof (cases "in_work (sys_actors s v) = []")
      case True
      have "a_sent (sys_actors s v) = [m]"
        using sys_invD(3) [OF inv, of v] by (simp add: one_message_def Some)
      then have "map fst (a_replies (sys_actors s v)) = [m]"
        using sys_invD(2) [OF inv, of v] True by (simp add: actor_inv_def)
      then obtain res where "(m, res) \<in> set (a_replies (sys_actors s v))" by fastforce
      moreover have "s_inflight (sys_sched s) = [] @ (v, node, input) # fs" by (simp add: Cons f)
      ultimately show ?thesis using run Some by (blast intro: sys_step.sys_resolve)
    qed (rule task_can_move [OF inv])
  qed
qed

lemma sys_rank_init:
  fixes d :: "('p, 'n) dag" and s :: "('a, 'n) system"
  assumes "targets_known d" and "bt_wf (dag_nodes d)" and s: "s = sys_init cfg d"
  shows "sys_rank d s \<le> max_steps d + 4 * bt_len (dag_nodes d)"
proof -
  have "sched_start d (sys_sched s)" using assms by (simp add: sched_start_def sys_init_def)
  from sched_rank_init [OF this] have "sched_rank (sys_sched s) \<le> max_steps d" .
  moreover have "sum (phase s) (node_ids d) = 4 * bt_len (dag_nodes d)"
    by (simp add: s phase_def sys_init_def bt_len_card [OF assms(2)] node_ids_def)
  ultimately show ?thesis by (simp add: sys_rank_def)
qed

end
