(* ===== verification/Run_Order.thy ===== *)
theory Run_Order
  imports Run_System
begin

section \<open>The order in which the tasks of a run work\<close>

text \<open>
  A second invariant of the system of tasks: a node whose value the scheduler has taken was answered
  with that success, and a node receives its message only when all its parents have such a value.
  Therefore the nodes that have received their message and have no value yet, that is those
  at work and those that failed, are pairwise unrelated in the graph.
\<close>

lemma actor_replies_grow:
  assumes "actor_step exec a b"
  shows "set (a_replies a) \<subseteq> set (a_replies b)"
  using assms
  by (cases rule: actor_step_cases [consumes 1])
    (auto simp: send_def recv_def reply_def crash_def split: if_splits bool.splits option.splits list.splits)

lemma replies_grow:
  assumes "sys_step x d factory cfg behaves s t" and "p \<in> set (a_replies (sys_actors s v))"
  shows "p \<in> set (a_replies (sys_actors t v))"
proof -
  have "set (a_replies (sys_actors s v)) \<subseteq> set (a_replies (sys_actors t v))"
    using sys_step_actors [OF assms(1), of v] actor_replies_grow [of _ "sys_actors s v" "sys_actors t v"]
    by auto
  with assms(2) show ?thesis by blast
qed

subsection \<open>Parents come first\<close>

definition parents_done :: "('p, 'n) dag \<Rightarrow> ('a, 'n) system \<Rightarrow> bool" where
  "parents_done d s \<longleftrightarrow>
     (\<forall>v \<in> dom (bt_get (s_outputs (sys_sched s))). \<exists>m out. (m, Ok out) \<in> set (a_replies (sys_actors s v))) \<and>
     (\<forall>v. sys_sent s v \<noteq> None \<longrightarrow>
        (\<forall>e \<in> set (parents d v). e_from e \<in> dom (bt_get (s_outputs (sys_sched s)))))"

lemma settle_outputs:
  assumes core: "sched_core x d factory st" and known: "targets_known d"
    and flight: "s_inflight st = pre @ (v, node, input) # post"
  shows "dom (bt_get (s_outputs (settle x d v res (st\<lparr>s_inflight := pre @ post\<rparr>)))) =
    (if is_ok res then insert v (dom (bt_get (s_outputs st))) else dom (bt_get (s_outputs st)))"
proof (cases res)
  case (Ok out)
  obtain st' where "complete x d v out (st\<lparr>s_inflight := pre @ post\<rparr>) = Ok st'"
    "s_outputs st' = bt_insert v (out_value out) (s_outputs st)"
    by (rule sched_core_complete [OF core known flight])
  then show ?thesis by (auto simp: Ok settle_def continue_def bt_get_insert split: if_splits)
qed (simp_all add: settle_def stopped_def)

text \<open>Outputs only grow, and every new one was replied.\<close>

lemma outputs_step:
  assumes inv: "sys_inv x d factory cfg behaves s" and step: "sys_step x d factory cfg behaves s t"
  shows "dom (bt_get (s_outputs (sys_sched s))) \<subseteq> dom (bt_get (s_outputs (sys_sched t)))"
    and "v \<in> dom (bt_get (s_outputs (sys_sched t))) \<Longrightarrow> v \<notin> dom (bt_get (s_outputs (sys_sched s))) \<Longrightarrow>
      \<exists>m out. (m, Ok out) \<in> set (a_replies (sys_actors t v))"
proof -
  have "dom (bt_get (s_outputs (sys_sched s))) \<subseteq> dom (bt_get (s_outputs (sys_sched t))) \<and>
    (\<forall>v \<in> dom (bt_get (s_outputs (sys_sched t))) - dom (bt_get (s_outputs (sys_sched s))).
      \<exists>m out. (m, Ok out) \<in> set (a_replies (sys_actors t v)))"
    using step
  proof (cases rule: sys_step_cases [consumes 1])
    case 1
    with sys_inv_core [OF inv 1(2)] show ?thesis by (simp add: sched_core_dispatch(1))
  next
    case (3 pre w node input post trace act)
    with sys_invD(3) [OF inv, of w] show ?thesis by (simp add: one_message_def spawn_def)
  next
    case (9 pre w node input post m res)
    note core = sys_inv_core [OF inv 9(2)]
    have "\<exists>m out. (m, Ok out) \<in> set (a_replies (sys_actors s w))" if "is_ok res"
      using that 9(5) by (cases res) auto
    then show ?thesis by (auto simp: 9(1) settle_outputs [OF core(1,3) 9(3)])
  next
    case 10
    then show ?thesis by (simp add: finish_def stopped_def Let_def)
  qed simp_all
  then show "dom (bt_get (s_outputs (sys_sched s))) \<subseteq> dom (bt_get (s_outputs (sys_sched t)))"
    and "v \<in> dom (bt_get (s_outputs (sys_sched t))) \<Longrightarrow> v \<notin> dom (bt_get (s_outputs (sys_sched s))) \<Longrightarrow>
      \<exists>m out. (m, Ok out) \<in> set (a_replies (sys_actors t v))"
    by blast+
qed

lemma sent_step:
  assumes inv: "sys_inv x d factory cfg behaves s" and step: "sys_step x d factory cfg behaves s t"
    and new: "sys_sent t v \<noteq> None" "sys_sent s v = None" and e: "e \<in> set (parents d v)"
  shows "e_from e \<in> dom (bt_get (s_outputs (sys_sched s)))"
  using step
proof (cases rule: sys_step_cases [consumes 1])
  case (2 w node input trace act)
  have "w = v" using new by (auto simp: 2(1) split: if_splits)
  have "w \<in> set (active (sys_sched s))" using 2(3) by (force simp: active_def)
  then have "w \<in> reached x d (s_outputs (sys_sched s))"
    using sys_inv_core(1) [OF inv 2(2)] by (auto simp: sched_core_def)
  then show ?thesis using e fired_source by (fastforce simp: reached_def \<open>w = v\<close>)
qed (use new in simp_all)

lemma parents_done_step:
  assumes inv: "sys_inv x d factory cfg behaves s" and old: "parents_done d s"
    and step: "sys_step x d factory cfg behaves s t"
  shows "parents_done d t"
proof -
  note out = outputs_step [OF inv step]
  have "\<exists>m out. (m, Ok out) \<in> set (a_replies (sys_actors t v))"
    if "v \<in> dom (bt_get (s_outputs (sys_sched t)))" for v
  proof (cases "v \<in> dom (bt_get (s_outputs (sys_sched s)))")
    case True
    then show ?thesis using old replies_grow [OF step] unfolding parents_done_def by blast
  qed (rule out(2) [OF that])
  moreover have "e_from e \<in> dom (bt_get (s_outputs (sys_sched t)))"
    if "sys_sent t v \<noteq> None" "e \<in> set (parents d v)" for v e
  proof (cases "sys_sent s v")
    case None
    then show ?thesis using sent_step [OF inv step that(1) None that(2)] out(1) by blast
  next
    case (Some m)
    then show ?thesis using old that(2) out(1) unfolding parents_done_def by blast
  qed
  ultimately show ?thesis by (simp add: parents_done_def)
qed

interpretation run_order: step_invariant "sys_start cfg d" "sys_step x d factory cfg behaves"
  "\<lambda>s. sys_inv x d factory cfg behaves s \<and> parents_done d s"
  for x :: "'n ext" and d :: "('p, 'n) dag" and factory :: "node_id \<Rightarrow> 'p \<Rightarrow> 'a" and cfg behaves
proof unfold_locales
  fix s :: "('a, 'n) system" assume start: "sys_start cfg d s"
  obtain indeg where "(sched_init d :: ('a, 'n) sched) =
      \<lparr>s_indeg = indeg, s_outputs = bt_new, s_ready = zero_indeg indeg, s_inflight = [],
       s_log = [WorkflowStarted (dag_id d) (dag_name d)], s_status = None\<rparr>"
    using start by (auto simp: sys_start_def intro: sched_core_init [where x = x and factory = factory])
  then show "sys_inv x d factory cfg behaves s \<and> parents_done d s"
    using run_system.init_inv [OF start] start
    by (simp add: parents_done_def sys_start_def sys_init_def bt.get_empty)
qed (use sys_inv_step parents_done_step in blast)

subsection \<open>Nodes at work are unrelated\<close>

definition antichain :: "('p, 'n) dag \<Rightarrow> node_id set \<Rightarrow> bool" where
  "antichain d S \<longleftrightarrow> (\<forall>u \<in> S. \<forall>w \<in> S. (u, w) \<notin> (edge_rel d)\<^sup>+)"

definition outstanding :: "('p, 'n) dag \<Rightarrow> ('a, 'n) system \<Rightarrow> node_id set" where
  "outstanding d s =
     {v \<in> node_ids d. sys_sent s v \<noteq> None \<and> v \<notin> dom (bt_get (s_outputs (sys_sched s)))}"

lemma antichain_mono: "antichain d S \<Longrightarrow> T \<subseteq> S \<Longrightarrow> antichain d T"
  by (auto simp: antichain_def)

lemma output_answered:
  assumes inv: "sys_inv x d factory cfg behaves s" and ord: "parents_done d s"
    and out: "v \<in> dom (bt_get (s_outputs (sys_sched s)))"
  obtains m w where "sys_sent s v = Some m" and "a_replies (sys_actors s v) = [(m, Ok w)]"
    and "in_work (sys_actors s v) = []"
proof -
  obtain m w where rep: "(m, Ok w) \<in> set (a_replies (sys_actors s v))"
    using ord out unfolding parents_done_def by blast
  then have "sys_actors s v \<noteq> spawn" by (auto simp: spawn_def)
  then obtain m' where m': "sys_sent s v = Some m'" "a_sent (sys_actors s v) = [m']"
    using sys_invD(3) [OF inv, of v] by (auto simp: one_message_def split: option.splits)
  moreover have "a_sent (sys_actors s v) = map fst (a_replies (sys_actors s v)) @ in_work (sys_actors s v)"
    using sys_invD(2) [OF inv, of v] by (simp add: actor_inv_def)
  ultimately have "a_replies (sys_actors s v) = [(m', Ok w)]" "in_work (sys_actors s v) = []"
    using rep by (auto simp: append_eq_Cons_conv Cons_eq_append_conv)
  with m' show thesis by (intro that)
qed

lemma ancestor_output:
  assumes inv: "sys_inv x d factory cfg behaves s" and ord: "parents_done d s"
    and path: "(u, v) \<in> (edge_rel d)\<^sup>+"
  shows "sys_sent s v \<noteq> None \<Longrightarrow> u \<in> dom (bt_get (s_outputs (sys_sched s)))"
  using path
proof (induction rule: trancl_induct)
  case (base v)
  then show ?case using ord unfolding parents_done_def by (force simp: edge_rel_def parents_def)
next
  case (step w v)
  from step.hyps(2) step.prems have "w \<in> dom (bt_get (s_outputs (sys_sched s)))"
    using ord unfolding parents_done_def by (force simp: edge_rel_def parents_def)
  then obtain m where "sys_sent s w = Some m" by (rule output_answered [OF inv ord])
  with step.IH show ?case by simp
qed

lemma outstanding_antichain:
  assumes "sys_inv x d factory cfg behaves s" and "parents_done d s"
  shows "antichain d (outstanding d s)"
  using ancestor_output [OF assms] by (auto simp: antichain_def outstanding_def)

text \<open>A node at work or with an error among its replies is outstanding.\<close>

lemma at_work_outstanding:
  assumes inv: "sys_inv x d factory cfg behaves s" and ord: "parents_done d s"
    and work: "in_work (sys_actors s v) \<noteq> [] \<or> (m, Err e) \<in> set (a_replies (sys_actors s v))"
  shows "v \<in> outstanding d s"
proof -
  have "sys_actors s v \<noteq> spawn" using work by (auto simp: spawn_def in_work_def)
  then have "sys_sent s v \<noteq> None"
    using sys_invD(3) [OF inv, of v] by (auto simp: one_message_def split: option.splits)
  moreover have "v \<notin> dom (bt_get (s_outputs (sys_sched s)))"
  proof
    assume "v \<in> dom (bt_get (s_outputs (sys_sched s)))"
    then obtain m' w where "a_replies (sys_actors s v) = [(m', Ok w)]" "in_work (sys_actors s v) = []"
      by (rule output_answered [OF inv ord])
    with work show False by auto
  qed
  ultimately show ?thesis using sys_invD(5) [OF inv] by (auto simp: outstanding_def)
qed

end
