(* ===== verification/Shared_Breaker.thy ===== *)
theory Shared_Breaker
  imports Run_Order
begin

section \<open>The breaker that the tasks of a run share\<close>

text \<open>
  \<open>Scheduler::run\<close> makes a new executor, so its breaker starts closed in every run, and all tasks of
  the run report to it. A third invariant of the system relates what the breaker has counted to the
  nodes whose calls failed, and the result of the run to the replies of its actors. The nodes that
  failed and those at work are unrelated in the graph, so only a graph with that many unrelated
  nodes can open the breaker.
\<close>

subsection \<open>What one report does to the breaker\<close>

lemma run_admit_breaker:
  assumes "run_admit limiter_ok now cb = (r, cb')"
  shows "cb_threshold cb' = cb_threshold cb"
    and "(cb_failures cb' = cb_failures cb \<and> cb_open_until cb' = cb_open_until cb) \<or>
      (cb_failures cb' = 0 \<and> cb_open_until cb' = None)"
    and "r = Err CircuitOpen \<Longrightarrow> cb_open_until cb \<noteq> None"
  using assms by (auto simp: run_admit_def allow_def split: if_splits option.splits prod.splits)

lemma saturating_Suc: "unat (saturating_add a 1) \<le> Suc (unat (a :: u8))"
  by (simp add: unat_saturating_add)

lemma on_failure_breaker:
  assumes "on_failure now cb = (r, cb')"
  shows "cb_threshold cb' = cb_threshold cb" and "unat (cb_failures cb') \<le> Suc (unat (cb_failures cb))"
    and "cb_open_until cb' \<noteq> None \<Longrightarrow>
      cb_open_until cb \<noteq> None \<or> unat (cb_threshold cb) \<le> Suc (unat (cb_failures cb))"
    and "r = Panic p \<Longrightarrow> unat (cb_threshold cb) \<le> Suc (unat (cb_failures cb))"
  using assms saturating_Suc [of "cb_failures cb"]
  by (auto simp: on_failure_def Let_def word_le_nat_alt split: if_splits outcome.splits)

lemma on_failure_quiet: "fst (on_failure now cb) \<noteq> Err e"
  by (simp add: on_failure_def Let_def instant_add_def)

lemma run_settle_breaker:
  assumes "run_settle now r cb = (res, cb')"
  shows "cb_threshold cb' = cb_threshold cb"
    and "\<not> is_ok res \<Longrightarrow> unat (cb_failures cb') \<le> Suc (unat (cb_failures cb))"
    and "\<not> is_ok res \<Longrightarrow> cb_open_until cb' \<noteq> None \<Longrightarrow>
      cb_open_until cb \<noteq> None \<or> unat (cb_threshold cb) \<le> Suc (unat (cb_failures cb))"
    and "is_ok res \<Longrightarrow> cb_failures cb' = 0 \<and> cb_open_until cb' = cb_open_until cb"
    and "res = Err e \<Longrightarrow> r = Err e"
    and "res = Panic p \<Longrightarrow> r = Panic p \<or> unat (cb_threshold cb) \<le> Suc (unat (cb_failures cb))"
proof -
  obtain f cb2 where fail: "on_failure now cb = (f, cb2)" by fastforce
  note quiet = on_failure_quiet [of now cb]
  note props = on_failure_breaker [OF fail]
  show "cb_threshold cb' = cb_threshold cb"
    and "\<not> is_ok res \<Longrightarrow> unat (cb_failures cb') \<le> Suc (unat (cb_failures cb))"
    and "\<not> is_ok res \<Longrightarrow> cb_open_until cb' \<noteq> None \<Longrightarrow>
      cb_open_until cb \<noteq> None \<or> unat (cb_threshold cb) \<le> Suc (unat (cb_failures cb))"
    and "is_ok res \<Longrightarrow> cb_failures cb' = 0 \<and> cb_open_until cb' = cb_open_until cb"
    and "res = Err e \<Longrightarrow> r = Err e"
    and "res = Panic p \<Longrightarrow> r = Panic p \<or> unat (cb_threshold cb) \<le> Suc (unat (cb_failures cb))"
    using assms props quiet
    by (cases r; cases f; simp add: run_settle_def on_success_def fail; fastforce)+
qed

subsection \<open>Counting the nodes that failed\<close>

definition failed :: "('p, 'n) dag \<Rightarrow> ('a, 'n) system \<Rightarrow> node_id set" where
  "failed d s = {v \<in> node_ids d. \<exists>m e. (m, Err e) \<in> set (a_replies (sys_actors s v))}"

text \<open>
  \<open>wide d n\<close>: some \<open>n\<close> nodes are pairwise unrelated. A node refused by the breaker, and a task that
  died, have a cause: the node itself fails that way, or the graph is wide enough to open the breaker.
\<close>

definition wide :: "('p, 'n) dag \<Rightarrow> nat \<Rightarrow> bool" where
  "wide d n \<longleftrightarrow> (\<exists>S \<subseteq> node_ids d. antichain d S \<and> n \<le> card S)"

definition may_refuse :: "('p, 'n) dag \<Rightarrow> (node_id \<Rightarrow> 'p \<Rightarrow> 'a) \<Rightarrow> resilience_config \<Rightarrow>
    ('a, 'n) node_behaviour \<Rightarrow> node_id \<Rightarrow> bool" where
  "may_refuse d factory cfg behaves v \<longleftrightarrow>
     (\<exists>ctx input. behaves (actor_of d factory v) ctx input (Err CircuitOpen)) \<or>
     wide d (Suc (unat (rc_circuit_threshold cfg)))"

definition may_die :: "('p, 'n) dag \<Rightarrow> (node_id \<Rightarrow> 'p \<Rightarrow> 'a) \<Rightarrow> resilience_config \<Rightarrow>
    ('a, 'n) node_behaviour \<Rightarrow> node_id \<Rightarrow> bool" where
  "may_die d factory cfg behaves v \<longleftrightarrow>
     (\<exists>ctx input p. behaves (actor_of d factory v) ctx input (Panic p)) \<or> \<not> backoff_safe cfg \<or>
     wide d (unat (rc_circuit_threshold cfg))"

definition breaker_bound :: "('p, 'n) dag \<Rightarrow> (node_id \<Rightarrow> 'p \<Rightarrow> 'a) \<Rightarrow> resilience_config \<Rightarrow>
    ('a, 'n) node_behaviour \<Rightarrow> ('a, 'n) system \<Rightarrow> bool" where
  "breaker_bound d factory cfg behaves s \<longleftrightarrow>
     cb_threshold (sys_breaker s) = rc_circuit_threshold cfg \<and>
     unat (cb_failures (sys_breaker s)) \<le> card (failed d s) \<and>
     (cb_open_until (sys_breaker s) \<noteq> None \<longrightarrow> unat (rc_circuit_threshold cfg) \<le> card (failed d s)) \<and>
     (\<forall>v. ((\<exists>m. (m, Err CircuitOpen) \<in> set (a_replies (sys_actors s v))) \<longrightarrow> may_refuse d factory cfg behaves v) \<and>
          (\<not> a_alive (sys_actors s v) \<longrightarrow> may_die d factory cfg behaves v))"

lemma finite_failed [simp]: "finite (failed d s)"
  by (simp add: failed_def)

text \<open>A task that answers was busy, so it had not answered before.\<close>

lemma failed_reply:
  assumes inv: "sys_inv x d factory cfg behaves s" and cur: "a_current (sys_actors s v) = Some m"
    and rep: "a_replies act = a_replies (sys_actors s v) @ [(m, res)]"
    and t: "sys_actors t = (sys_actors s)(v := act)"
  shows "failed d t = (if is_err res then insert v (failed d s) else failed d s)" and "v \<notin> failed d s"
    and "v \<in> node_ids d"
proof -
  note b = busy_mailbox [OF inv cur]
  show "v \<notin> failed d s" using b by (simp add: failed_def)
  show "v \<in> node_ids d" by (rule b(4))
  show "failed d t = (if is_err res then insert v (failed d s) else failed d s)"
    using b rep by (auto simp: failed_def t is_err_def)
qed

lemma card_failed_reply:
  assumes inv: "sys_inv x d factory cfg behaves s" and cur: "a_current (sys_actors s v) = Some m"
    and rep: "a_replies act = a_replies (sys_actors s v) @ [(m, res)]"
    and t: "sys_actors t = (sys_actors s)(v := act)"
  shows "card (failed d t) = (if is_err res then Suc (card (failed d s)) else card (failed d s))"
  using failed_reply [OF inv cur rep t] by simp

text \<open>The nodes that failed, with one that is executing its message, are pairwise unrelated.\<close>

lemma wide_busy:
  assumes inv: "sys_inv x d factory cfg behaves s" and ord: "parents_done d s"
    and cur: "a_current (sys_actors s w) = Some m"
  shows "wide d (Suc (card (failed d s)))"
proof -
  have "w \<notin> failed d s" using busy_mailbox(2) [OF inv cur] by (simp add: failed_def)
  moreover have "insert w (failed d s) \<subseteq> outstanding d s"
    using at_work_outstanding [OF inv ord] cur by (auto simp: failed_def in_work_def)
  moreover have "antichain d (outstanding d s)" by (rule outstanding_antichain [OF inv ord])
  moreover have "outstanding d s \<subseteq> node_ids d" by (auto simp: outstanding_def)
  ultimately show ?thesis
    unfolding wide_def by (intro exI [of _ "insert w (failed d s)"]) (auto intro: antichain_mono)
qed

lemma wide_mono: "wide d n \<Longrightarrow> m \<le> n \<Longrightarrow> wide d m"
  unfolding wide_def by (meson order_trans)

lemma wide_card: "wide d n \<Longrightarrow> n \<le> card (node_ids d)"
  unfolding wide_def using card_mono [OF finite_node_ids [of d]] le_trans by blast

lemma breaker_bound_same:
  assumes "breaker_bound d factory cfg behaves s" and "sys_breaker t = sys_breaker s"
    and rep: "\<And>v. a_replies (sys_actors t v) = a_replies (sys_actors s v)"
    and "\<And>v. a_alive (sys_actors t v) = a_alive (sys_actors s v)"
  shows "breaker_bound d factory cfg behaves t"
proof -
  have "failed d t = failed d s" by (simp add: failed_def rep)
  then show ?thesis using assms by (simp add: breaker_bound_def)
qed

lemma task_settles_Err:
  assumes "task_settles cfg (timed behaves node ctx input) cb (Err e) cb'"
  shows "e = Timeout (rc_timeout cfg) \<or> behaves node ctx input (Err e)"
proof -
  obtain f now where f: "\<forall>i. timed behaves node ctx input (f i)"
    and res: "run_settle now (fst (retry_loop cfg f 0 (rc_initial_backoff cfg))) cb = (Err e, cb')"
    using assms unfolding task_settles_def by blast
  from run_settle_breaker(5) [OF res] have "fst (retry_loop cfg f 0 (rc_initial_backoff cfg)) = Err e"
    by simp
  from retry_loop_Err [OF this] obtain i where "attempt_outcome cfg (f i) = Err e" by blast
  then show ?thesis
    using f [rule_format, of i] by (auto simp: attempt_outcome_def timed_def split: attempt.splits)
qed

lemma task_settles_Panic:
  assumes "task_settles cfg (timed behaves node ctx input) cb (Panic p) cb'"
  shows "(\<exists>q. behaves node ctx input (Panic q)) \<or> \<not> backoff_safe cfg \<or>
    unat (cb_threshold cb) \<le> Suc (unat (cb_failures cb))"
proof -
  obtain f now where f: "\<forall>i. timed behaves node ctx input (f i)"
    and res: "run_settle now (fst (retry_loop cfg f 0 (rc_initial_backoff cfg))) cb = (Panic p, cb')"
    using assms unfolding task_settles_def by blast
  obtain i where i: "stops_at cfg f i" using stops_at_exists by blast
  have "\<exists>q. behaves node ctx input (Panic q)" if "attempt_outcome cfg (f i) = Panic p"
    using that f [rule_format, of i] by (auto simp: attempt_outcome_def timed_def split: attempt.splits)
  then show ?thesis
    using run_settle_breaker(6) [OF res refl] retry_loop_stops [OF _ i] by auto
qed

lemma breaker_bound_step:
  fixes behaves :: "('a, 'n) node_behaviour"
  assumes inv: "sys_inv x d factory cfg behaves s" and ord: "parents_done d s"
    and bound: "breaker_bound d factory cfg behaves s" and step: "sys_step x d factory cfg behaves s t"
  shows "breaker_bound d factory cfg behaves t"
  using step
proof (cases rule: sys_step_cases [consumes 1])
  case (2 w node input trace act)
  have "sys_actors s w = spawn" using sys_invD(3) [OF inv, of w] 2(4) by (simp add: one_message_def)
  then have "a_replies act = a_replies (sys_actors s w)" "a_alive act = a_alive (sys_actors s w)"
    using 2(6) by (auto simp: send_def split: if_splits)
  then show ?thesis by (intro breaker_bound_same [OF bound]) (simp_all add: 2(1))
next
  case (3 pre w node input post trace act)
  with sys_invD(3) [OF inv, of w] show ?thesis by (simp add: one_message_def spawn_def)
next
  case (4 w act)
  then have "a_replies act = a_replies (sys_actors s w)" "a_alive act = a_alive (sys_actors s w)"
    by (auto simp: recv_def split: bool.splits option.splits list.splits)
  then show ?thesis by (intro breaker_bound_same [OF bound]) (simp_all add: 4(1))
next
  case (5 w m limiter_ok now cb)
  then show ?thesis
    using bound run_admit_breaker(1,2) [OF 5(4)] by (auto simp: breaker_bound_def failed_def)
next
  case (6 w m limiter_ok now e cb act)
  have rep: "a_replies act = a_replies (sys_actors s w) @ [(m, Err e)]" by (rule reply_props(5) [OF 6(5,2)])
  have t: "sys_actors t = (sys_actors s)(w := act)" by (simp add: 6(1))
  have alive: "a_alive act = a_alive (sys_actors s w)" using 6(5,2) by (auto simp: reply_def)
  have "may_refuse d factory cfg behaves w" if "e = CircuitOpen"
    using bound run_admit_breaker(3) [OF 6(4)] that wide_busy [OF inv ord 6(2)]
    by (auto simp: breaker_bound_def may_refuse_def intro: wide_mono)
  then show ?thesis
    using bound card_failed_reply [OF inv 6(2) rep t] run_admit_breaker(1,2) [OF 6(4)] rep alive
    by (auto simp: breaker_bound_def 6(1) is_err_def)
next
  case (7 w m res cb act)
  have rep: "a_replies act = a_replies (sys_actors s w) @ [(m, res)]" by (rule reply_props(5) [OF 7(6,2)])
  have t: "sys_actors t = (sys_actors s)(w := act)" by (simp add: 7(1))
  have alive: "a_alive act = a_alive (sys_actors s w)" using 7(6,2) by (auto simp: reply_def)
  have "may_refuse d factory cfg behaves w" if "res = Err CircuitOpen"
    using task_settles_Err [OF 7(4) [unfolded that]] by (auto simp: may_refuse_def)
  moreover obtain now r where "run_settle now r (sys_breaker s) = (res, cb)"
    using 7(4) unfolding task_settles_def by blast
  moreover have "is_ok res \<or> is_err res" using 7(5) by (cases res) (auto simp: is_err_def)
  ultimately show ?thesis
    using bound card_failed_reply [OF inv 7(2) rep t] run_settle_breaker(1-4) [of now r "sys_breaker s" res cb]
      rep alive
    by (auto simp: breaker_bound_def 7(1) is_err_def)
next
  case (8 w m p cb act)
  have rep: "a_replies act = a_replies (sys_actors s w) @ [(m, reply_dropped)]"
    using crash_props(5) [OF 8(5,2)] busy_mailbox(1) [OF inv 8(2)] by simp
  have t: "sys_actors t = (sys_actors s)(w := act)" by (simp add: 8(1))
  have card: "card (failed d t) = Suc (card (failed d s))"
    using card_failed_reply [OF inv 8(2) rep t] by (simp add: is_err_def reply_dropped_def)
  have "may_die d factory cfg behaves w"
    using task_settles_Panic [OF 8(4)] bound wide_busy [OF inv ord 8(2)]
    by (auto simp: may_die_def breaker_bound_def intro: wide_mono)
  moreover obtain now r
    where "run_settle now r (sys_breaker s) = (Panic p :: 'n node_output kernel_result, cb)"
    using 8(4) unfolding task_settles_def by blast
  ultimately show ?thesis
    using bound card run_settle_breaker(1-3) [of now r "sys_breaker s" "Panic p :: 'n node_output kernel_result" cb] rep
    by (auto simp: breaker_bound_def 8(1) reply_dropped_def)
qed (use bound in \<open>simp_all add: breaker_bound_def failed_def\<close>)

lemma sched_init_running:
  assumes "targets_known d"
  shows "s_status (sched_init d) = None" and "s_inflight (sched_init d) = []"
  using sched_core_init [OF assms] by (metis sched.select_convs(4,6))+

text \<open>Where the result of a run comes from.\<close>

definition result_replied :: "('a, 'n) system \<Rightarrow> bool" where
  "result_replied s \<longleftrightarrow>
     (\<forall>e. s_status (sys_sched s) = Some (Err e) \<longrightarrow>
        (e = not_reached \<and> filter is_final (s_log (sys_sched s)) = []) \<or>
        (\<exists>v m. (m, Err e) \<in> set (a_replies (sys_actors s v))))"

lemma settle_status_Ok:
  assumes "sched_core x d factory st" and "targets_known d" and "s_inflight st = pre @ (v, node, input) # post"
  shows "s_status (settle x d v (Ok out) (st\<lparr>s_inflight := pre @ post\<rparr>)) = s_status st"
proof -
  obtain st' where "complete x d v out (st\<lparr>s_inflight := pre @ post\<rparr>) = Ok st'" "s_status st' = s_status st"
    by (rule sched_core_complete [OF assms])
  then show ?thesis by (simp add: settle_def continue_def)
qed

lemma result_replied_step:
  assumes inv: "sys_inv x d factory cfg behaves s" and old: "result_replied s"
    and step: "sys_step x d factory cfg behaves s t"
  shows "result_replied t"
proof -
  have grow: "result_replied t" if "sys_sched t = sys_sched s"
    using old replies_grow [OF step] unfolding result_replied_def that by blast
  have running: "result_replied t" if "s_status (sys_sched t) = None"
    using that by (simp add: result_replied_def)
  show ?thesis
    using step
  proof (cases rule: sys_step_cases [consumes 1])
    case 1
    with sys_inv_core [OF inv 1(2)] show ?thesis
      by (intro running) (simp add: 1 sched_core_dispatch(1))
  next
    case (3 pre w node input post trace act)
    with sys_invD(3) [OF inv, of w] show ?thesis by (simp add: one_message_def spawn_def)
  next
    case (9 pre w node input post m res)
    note core = sys_inv_core [OF inv 9(2)]
    show ?thesis
    proof (cases res)
      case (Ok out)
      then show ?thesis
        by (intro running) (simp add: 9(1,2) settle_status_Ok [OF core(1,3) 9(3)])
    next
      case (Err e)
      then show ?thesis
        using 9(5) by (auto simp: result_replied_def 9(1) settle_def stopped_def)
    next
      case (Panic p)
      then show ?thesis by (simp add: result_replied_def 9(1) settle_def stopped_def)
    qed
  next
    case 10
    then show ?thesis
      using sys_invD(1) [OF inv]
      by (simp add: result_replied_def finish_def stopped_def not_reached_def sched_inv_def Let_def)
  qed (use grow in simp_all)
qed

interpretation shared: step_invariant "sys_start cfg d" "sys_step x d factory cfg behaves"
  "\<lambda>s. (sys_inv x d factory cfg behaves s \<and> parents_done d s) \<and> result_replied s \<and>
     breaker_bound d factory cfg behaves s"
  for x :: "'n ext" and d :: "('p, 'n) dag" and factory :: "node_id \<Rightarrow> 'p \<Rightarrow> 'a" and cfg behaves
proof unfold_locales
  fix s :: "('a, 'n) system" assume start: "sys_start cfg d s"
  then have "s_status (sched_init d :: ('a, 'n) sched) = None"
    by (simp add: sys_start_def sched_init_running)
  with start show "(sys_inv x d factory cfg behaves s \<and> parents_done d s) \<and> result_replied s \<and>
     breaker_bound d factory cfg behaves s"
    using run_order.init_inv [OF start]
    by (simp add: sys_start_def sys_init_def result_replied_def breaker_bound_def cb_new_def spawn_def)
next
  fix s t :: "('a, 'n) system"
  assume "(sys_inv x d factory cfg behaves s \<and> parents_done d s) \<and> result_replied s \<and>
     breaker_bound d factory cfg behaves s"
    and step: "sys_step x d factory cfg behaves s t"
  then show "(sys_inv x d factory cfg behaves t \<and> parents_done d t) \<and> result_replied t \<and>
     breaker_bound d factory cfg behaves t"
    using run_order.step_inv [OF _ step] result_replied_step [OF _ _ step] breaker_bound_step [OF _ _ _ step]
    by blast
qed

end
