(* ===== verification/System_Runs.thy ===== *)
theory System_Runs
  imports Shared_Breaker
begin

section \<open>Properties of a run with its tasks\<close>

text \<open>
  First the converse of the simulation: every run of the function \<open>drive\<close>, in which the calls answer
  at once, is a run of the system, so its behaviours include all orders of completion. Then what
  the invariants of the system give for every run, and the same for the nodes of the library.
\<close>

subsection \<open>Answering at once\<close>

lemma on_failure_at_0:
  assumes "cb_cooldown cb = from_secs 10"
  obtains cb' where "on_failure (Instant 0) cb = (Ok (), cb')" and "cb_cooldown cb' = from_secs 10"
  using assms by (cases "cb_threshold cb \<le> saturating_add (cb_failures cb) 1")
    (simp_all add: on_failure_def Let_def instant_add_def from_secs_def instant_limit_def nanos_per_sec_def)

lemma settles_at_once:
  fixes behaves :: "('a, 'n) node_behaviour"
  assumes "behaves node ctx input res" and "no_panic res" and "cb_cooldown cb = from_secs 10"
  obtains cb' where "task_settles default_resilience (timed behaves node ctx input) cb res cb'"
    and "cb_cooldown cb' = from_secs 10" and "is_ok res \<Longrightarrow> cb_open_until cb' = cb_open_until cb"
proof -
  have "stops_at default_resilience (\<lambda>i. Completed res) (if is_err res then 2 else 0)"
    by (simp add: stops_at_def attempt_outcome_def)
  from retry_loop_stops [OF default_backoff_safe this]
  have loop: "fst (retry_loop default_resilience (\<lambda>i. Completed res) 0
      (rc_initial_backoff default_resilience)) = res"
    by (simp add: attempt_outcome_def)
  obtain cb' where settle: "run_settle (Instant 0) res cb = (res, cb')"
    and "cb_cooldown cb' = from_secs 10" "is_ok res \<Longrightarrow> cb_open_until cb' = cb_open_until cb"
  proof (cases res)
    case (Err e)
    obtain cb' where "on_failure (Instant 0) cb = (Ok (), cb')" "cb_cooldown cb' = from_secs 10"
      by (rule on_failure_at_0 [OF assms(3)])
    then show ?thesis by (intro that [of cb']) (simp_all add: Err run_settle_def)
  qed (use assms(2,3) that in \<open>simp_all add: run_settle_def on_success_def\<close>)
  have "task_settles default_resilience (timed behaves node ctx input) cb res cb'"
    unfolding task_settles_def timed_def using assms(1) settle loop
    by (intro exI [where x = "\<lambda>i. Completed res"] exI [where x = "Instant 0"]) simp
  then show thesis by (rule that) fact+
qed

text \<open>No future in flight has been polled, and the breaker is closed.\<close>

definition calm_system :: "('a, 'n) system \<Rightarrow> bool" where
  "calm_system s \<longleftrightarrow>
     (\<forall>f \<in> set (s_inflight (sys_sched s)). sys_sent s (fst f) = None) \<and>
     cb_open_until (sys_breaker s) = None \<and> cb_cooldown (sys_breaker s) = from_secs 10"

text \<open>The five steps by which the call of one node is made, executed and answered.\<close>

lemma answer_at_once:
  fixes s :: "('a, 'n) system" and behaves :: "('a, 'n) node_behaviour"
  assumes inv: "sys_inv x d factory default_resilience behaves s" and run: "s_status (sys_sched s) = None"
    and flight: "s_inflight (sys_sched s) = pre @ (v, node, input) # post"
    and unsent: "sys_sent s v = None" and breaker: "cb_open_until (sys_breaker s) = None"
      "cb_cooldown (sys_breaker s) = from_secs 10"
    and ok: "behaves node (default_context []) input res" "no_panic res"
  obtains t where "(sys_step x d factory default_resilience behaves)\<^sup>*\<^sup>* s t"
    and "sys_sched t = settle x d v res ((sys_sched s)\<lparr>s_inflight := pre @ post\<rparr>)"
    and "\<And>w. w \<noteq> v \<Longrightarrow> sys_sent t w = sys_sent s w"
    and "\<And>w. w \<noteq> v \<Longrightarrow> sys_actors t w = sys_actors s w"
    and "sys_actors t v = spawn\<lparr>a_sent := [call_message input []], a_replies := [(call_message input [], res)]\<rparr>"
    and "cb_cooldown (sys_breaker t) = from_secs 10"
    and "is_ok res \<Longrightarrow> cb_open_until (sys_breaker t) = None"
proof -
  let ?step = "sys_step x d factory default_resilience behaves" and ?m = "call_message input []"
  have mem: "(v, node, input) \<in> set (s_inflight (sys_sched s))" by (simp add: flight)
  have spawned: "sys_actors s v = spawn"
    using sys_invD(3) [OF inv, of v] unsent by (simp add: one_message_def)
  have idle: "\<not> sys_admitted s v" using sys_invD(4) [OF inv, of v] by (auto simp: spawned spawn_def)
  have node: "node = actor_of d factory v" by (rule inflight_flight(1) [OF inv run mem])
  define s1 where "s1 = set_actor v (spawn\<lparr>a_mailbox := [?m], a_sent := [?m]\<rparr>)
    (s\<lparr>sys_sent := (sys_sent s)(v \<mapsto> ?m)\<rparr>)"
  define s2 where "s2 = set_actor v (spawn\<lparr>a_sent := [?m], a_current := Some ?m\<rparr>) s1"
  define s3 where "s3 = set_admitted v True (sys_breaker s) s2"
  have 1: "?step s s1"
    unfolding s1_def using run mem unsent
    by (rule sys_call) (simp_all add: spawned send_def spawn_def mailbox_capacity_def)
  have 2: "?step s1 s2"
    unfolding s2_def by (rule sys_recv) (simp add: s1_def recv_def spawn_def)
  have 3: "?step s2 s3"
    unfolding s3_def
    by (rule sys_admit [where limiter_ok = True and now = "Instant 0" and m = ?m])
      (use breaker idle in \<open>simp_all add: s2_def s1_def run_admit_def allow_def\<close>)
  obtain cb where settles: "task_settles default_resilience (timed behaves node (m_ctx ?m) (m_input ?m))
      (sys_breaker s) res cb"
    and cb: "cb_cooldown cb = from_secs 10" "is_ok res \<Longrightarrow> cb_open_until cb = None"
    using settles_at_once [of behaves node "default_context []" input res "sys_breaker s"] ok breaker
    by (auto simp: call_message_def)
  define s4 where "s4 = set_actor v (spawn\<lparr>a_sent := [?m], a_replies := [(?m, res)]\<rparr>)
    (set_admitted v False cb s3)"
  have 4: "?step s3 s4"
    unfolding s4_def
    by (rule sys_reply [where m = ?m and res = res])
      (use settles ok(2) in \<open>simp_all add: s3_def s2_def s1_def node reply_def spawn_def\<close>)
  have 5: "?step s4 (resolve x d v res (pre @ post) s4)"
    by (rule sys_resolve [where m = ?m and node = node and input = input])
      (use run flight in \<open>simp_all add: s4_def s3_def s2_def s1_def\<close>)
  show thesis
  proof (rule that)
    show "?step\<^sup>*\<^sup>* s (resolve x d v res (pre @ post) s4)"
      using 1 2 3 4 5 by (meson rtranclp.rtrancl_refl rtranclp.rtrancl_into_rtrancl)
  qed (use cb in \<open>simp_all add: s4_def s3_def s2_def s1_def\<close>)
qed

text \<open>All messages are answered, without an error unless the run has ended with one.\<close>

definition settled :: "('a, 'n) system \<Rightarrow> bool" where
  "settled s \<longleftrightarrow> (\<forall>v. in_work (sys_actors s v) = []) \<and>
     ((\<exists>e. s_status (sys_sched s) = Some (Err e)) \<or>
      (\<forall>v m e. (m, Err e) \<notin> set (a_replies (sys_actors s v))))"

lemma settled_end:
  assumes "settled s" and "s_status (sys_sched s) \<noteq> None"
  shows "\<not> sys_step x d factory cfg behaves s t"
proof
  have idle: "a_current (sys_actors s v) = None" "a_mailbox (sys_actors s v) = []" for v
    using assms(1) by (auto simp: settled_def in_work_def split: option.splits)
  assume "sys_step x d factory cfg behaves s t"
  then show False
    using assms(2) idle recv_props(5) by (cases rule: sys_step_cases [consumes 1]) auto
qed

lemma settled_sched:
  assumes "settled s" and "s_status (sys_sched s) = None"
  shows "settled (s\<lparr>sys_sched := st\<rparr>)"
  using assms by (simp add: settled_def)

lemma calm_dispatch:
  assumes inv: "sys_inv x d factory cfg behaves s" and run: "s_status (sys_sched s) = None"
    and idle: "s_inflight (sys_sched s) = []" and calm: "calm_system s"
  shows "calm_system (s\<lparr>sys_sched := dispatch d factory (sys_sched s)\<rparr>)"
proof -
  note core = sys_inv_core [OF inv run]
  have "sys_sent s v = None" if "v \<in> set (s_ready (sys_sched s))" for v
  proof (rule ccontr)
    assume "sys_sent s v \<noteq> None"
    then obtain m where "sys_sent s v = Some m" by blast
    from sys_invD(6) [OF inv run this] have "v \<in> dom (bt_get (s_outputs (sys_sched s)))"
      by (auto simp: in_flight_def idle)
    then show False using core(1) that by (auto simp: sched_core_def active_def)
  qed
  then show ?thesis
    using calm by (auto simp: calm_system_def sched_core_dispatch(1) [OF core(1,2) idle] flight_def)
qed

lemma drive_system:
  fixes s :: "('a, 'n) system" and behaves :: "('a, 'n) node_behaviour"
  assumes calls: "calm call" "\<And>node input. behaves node (default_context []) input (call node input)"
  shows "sys_inv x d factory default_resilience behaves s \<Longrightarrow> calm_system s \<or> s_status (sys_sched s) \<noteq> None \<Longrightarrow>
    \<exists>t. (sys_step x d factory default_resilience behaves)\<^sup>*\<^sup>* s t \<and>
      sys_sched t = drive x d factory call pick n (sys_sched s) \<and> (settled s \<longrightarrow> settled t)"
proof (induction n arbitrary: s)
  case 0
  then show ?case by auto
next
  case (Suc n)
  let ?step = "sys_step x d factory default_resilience behaves"
  show ?case
  proof (cases "s_status (sys_sched s)")
    case run: None
    then have calm: "calm_system s" using Suc.prems(2) by simp
    have "\<exists>t. ?step\<^sup>*\<^sup>* s t \<and> (calm_system t \<or> s_status (sys_sched t) \<noteq> None) \<and>
      drive x d factory call pick (Suc n) (sys_sched s) = drive x d factory call pick n (sys_sched t) \<and>
      (settled s \<longrightarrow> settled t)"
    proof (cases "s_inflight (sys_sched s)")
      case Nil
      show ?thesis
      proof (cases "s_ready (sys_sched s) = []")
        case True
        have "?step s (s\<lparr>sys_sched := finish x d (sys_sched s)\<rparr>)" by (rule sys_finish [OF run Nil True])
        moreover have "s_status (finish x d (sys_sched s)) \<noteq> None"
          by (simp add: finish_def stopped_def Let_def)
        ultimately show ?thesis
          using run Nil True settled_sched [OF _ run] by (intro exI conjI r_into_rtranclp) auto
      next
        case False
        have "?step s (s\<lparr>sys_sched := dispatch d factory (sys_sched s)\<rparr>)"
          by (rule sys_dispatch [OF run Nil False])
        then show ?thesis
          using run Nil False calm_dispatch [OF Suc.prems(1) run Nil calm] settled_sched [OF _ run]
          by (intro exI conjI r_into_rtranclp) auto
      qed
    next
      case (Cons g fs)
      define k where "k = pick n mod length (s_inflight (sys_sched s))"
      define pre where "pre = take k (s_inflight (sys_sched s))"
      define post where "post = drop (Suc k) (s_inflight (sys_sched s))"
      obtain v node input where g: "s_inflight (sys_sched s) ! k = (v, node, input)"
        by (cases "s_inflight (sys_sched s) ! k") auto
      have "k < length (s_inflight (sys_sched s))" by (simp add: k_def Cons)
      then have split: "s_inflight (sys_sched s) = pre @ (v, node, input) # post"
        using g by (metis id_take_nth_drop pre_def post_def)
      have unpolled: "sys_sent s v = None"
        using calm split by (force simp: calm_system_def)
      obtain t where t: "?step\<^sup>*\<^sup>* s t"
        "sys_sched t = settle x d v (call node input) ((sys_sched s)\<lparr>s_inflight := pre @ post\<rparr>)"
        "\<And>w. w \<noteq> v \<Longrightarrow> sys_sent t w = sys_sent s w" "cb_cooldown (sys_breaker t) = from_secs 10"
        "is_ok (call node input) \<Longrightarrow> cb_open_until (sys_breaker t) = None"
        "\<And>w. w \<noteq> v \<Longrightarrow> sys_actors t w = sys_actors s w"
        "sys_actors t v = spawn\<lparr>a_sent := [call_message input []], a_replies := [(call_message input [], call node input)]\<rparr>"
        using answer_at_once [OF Suc.prems(1) run split unpolled _ _ calls(2)] calls(1) calm
        unfolding calm_system_def by (metis calm_def)
      have "drive x d factory call pick (Suc n) (sys_sched s) = drive x d factory call pick n (sys_sched t)"
        using run g by (simp add: t(2) Cons k_def pre_def post_def Let_def)
      moreover have "calm_system t \<or> s_status (sys_sched t) \<noteq> None"
      proof (cases "s_status (sys_sched t)")
        case None
        note core = sys_inv_core [OF Suc.prems(1) run]
        have flight: "s_inflight (sys_sched t) = pre @ post"
          using settle_running(1) [OF core(1,3) split] None by (simp add: t(2))
        have "is_ok (call node input)"
          using None by (cases "call node input") (simp_all add: t(2) settle_def stopped_def)
        moreover have "v \<notin> fst ` set (pre @ post)"
          using core(1) by (auto simp: sched_core_def active_def split)
        moreover have "sys_sent t (fst f) = None" if f: "f \<in> set (pre @ post)" for f
        proof -
          have "f \<in> set (s_inflight (sys_sched s))" using f split by auto
          then have "sys_sent s (fst f) = None" using calm by (simp add: calm_system_def)
          moreover have "fst f \<noteq> v" using f \<open>v \<notin> fst ` set (pre @ post)\<close> by blast
          ultimately show ?thesis by (simp add: t(3))
        qed
        ultimately show ?thesis using t(4,5) by (simp add: calm_system_def flight)
      qed simp
      moreover have "settled t" if "settled s"
      proof -
        have "in_work (sys_actors t w) = []" for w
          using that t(6,7) by (cases "w = v") (auto simp: settled_def in_work_def spawn_def)
        moreover have "\<exists>e. s_status (sys_sched t) = Some (Err e)" if "\<not> is_ok (call node input)"
        proof (cases "call node input")
          case (Panic p)
          with calls(1) show ?thesis unfolding calm_def by (metis no_panic.simps(1))
        qed (use that in \<open>simp_all add: t(2) settle_def stopped_def\<close>)
        moreover have "(m, Err e) \<notin> set (a_replies (sys_actors t w))" if "is_ok (call node input)" for w m e
          using \<open>settled s\<close> run that t(6,7)
          by (cases "w = v"; cases "call node input") (auto simp: settled_def)
        ultimately show ?thesis unfolding settled_def by blast
      qed
      ultimately show ?thesis using t(1) by blast
    qed
    then obtain t where t: "?step\<^sup>*\<^sup>* s t" "calm_system t \<or> s_status (sys_sched t) \<noteq> None"
      "drive x d factory call pick (Suc n) (sys_sched s) = drive x d factory call pick n (sys_sched t)"
      "settled s \<longrightarrow> settled t"
      by blast
    from Suc.IH [OF run_system.steps_inv [OF t(1) Suc.prems(1)] t(2)] t(1,3,4) show ?thesis
      by (metis rtranclp_trans)
  qed auto
qed

subsection \<open>Every reachable state\<close>

lemma sys_reach:
  fixes s :: "('a, 'n) system"
  assumes "targets_known d" and "bt_wf (dag_nodes d)"
    and "(sys_step x d factory cfg behaves)\<^sup>*\<^sup>* (sys_init cfg d) s"
  shows "sys_inv x d factory cfg behaves s" and "result_replied s"
    and "breaker_bound d factory cfg behaves s" and "parents_done d s"
  using shared.reachable_inv [OF _ assms(3)] assms(1,2) by (simp_all add: sys_start_def)

lemma sys_sched_steps:
  assumes "targets_known d" and "bt_wf (dag_nodes d)"
    and steps: "(sys_step x d factory cfg behaves)\<^sup>*\<^sup>* (sys_init cfg d) s"
  shows "(sched_step x d factory (actor_call cfg (timed behaves)))\<^sup>*\<^sup>* (sched_init d) (sys_sched s)"
  using steps
proof (induction rule: rtranclp_induct)
  case base
  then show ?case by (simp add: sys_init_def)
next
  case (step s t)
  from sys_simulates [OF sys_reach(1) [OF assms(1,2) step.hyps(1)] step.hyps(2)] step.IH
  show ?case by (auto intro: rtranclp.rtrancl_into_rtrancl)
qed

lemma calm_init:
  fixes d :: "('p, 'n) dag" and s :: "('a, 'n) system"
  assumes "targets_known d" and s: "s = sys_init default_resilience d"
  shows "calm_system s"
  using sched_init_running(2) [OF assms(1)]
  by (simp add: s calm_system_def sys_init_def cb_new_def default_resilience_def)

text \<open>Every run of \<open>drive\<close> is the scheduler's part of a run of the system.\<close>

lemma drive_reachable:
  fixes d :: "('p, 'n) dag" and behaves :: "('a, 'n) node_behaviour"
  assumes "targets_known d" and "bt_wf (dag_nodes d)" and "calm call"
    and "\<And>node input. behaves node (default_context []) input (call node input)"
  obtains s where "(sys_step x d factory default_resilience behaves)\<^sup>*\<^sup>* (sys_init default_resilience d) s"
    and "sys_sched s = drive x d factory call pick n (sched_init d)" and "settled s"
proof -
  let ?s = "sys_init default_resilience d :: ('a, 'n) system"
  have "sys_inv x d factory default_resilience behaves ?s" by (rule sys_inv_init [OF assms(1,2)])
  moreover have "calm_system ?s \<or> s_status (sys_sched ?s) \<noteq> None" using calm_init [OF assms(1) refl] by blast
  ultimately obtain s where "(sys_step x d factory default_resilience behaves)\<^sup>*\<^sup>* ?s s"
    "sys_sched s = drive x d factory call pick n (sys_sched ?s)" "settled ?s \<longrightarrow> settled s"
    using drive_system [OF assms(3), of behaves x d factory ?s pick n] assms(4) by blast
  moreover have "settled ?s" by (simp add: settled_def sys_init_def in_work_def spawn_def)
  ultimately show thesis by (intro that [of s]) (simp_all add: sys_init_def)
qed

subsection \<open>Properties\<close>

text \<open>The sample workflow with its tasks; its nodes answer at once.\<close>

definition sample_behaves :: "bool \<Rightarrow> (string, f64) node_behaviour" where
  "sample_behaves valid kind ctx input r \<longleftrightarrow> r = sample_node valid kind input"

abbreviation sample_sys_step :: "bool \<Rightarrow> (string, f64) system \<Rightarrow> (string, f64) system \<Rightarrow> bool" where
  "sample_sys_step valid \<equiv> sys_step demo_ext e2e_dag (\<lambda>i kind. kind) default_resilience (sample_behaves valid)"

abbreviation sample_sys_init :: "(string, f64) system" where
  "sample_sys_init \<equiv> sys_init default_resilience e2e_dag"

lemma sample_known: "targets_known e2e_dag"
  by (rule closed_targets [OF e2e_closed(1)])

lemma sample_reachable:
  obtains s where "(sample_sys_step valid)\<^sup>*\<^sup>* sample_sys_init s" and "sys_sched s = sample_run valid pick"
  unfolding sample_run_def
  by (rule drive_reachable [OF sample_known e2e_wf(1) sample_calm,
        where behaves = "sample_behaves valid" and x = demo_ext and factory = "\<lambda>i kind. kind" and pick = pick
          and n = "max_steps e2e_dag"])
    (simp_all add: sample_behaves_def)

text \<open>
  C2: The scheduler with its tasks implements the scheduler that only knows what a call may answer:
  whatever the tasks do, in whatever order they send, take, execute, retry, refuse, crash and
  reply, and whatever they tell the breaker they share, the scheduler goes through states that it
  also reaches when each call is answered by the relation \<open>actor_call\<close>. So every property of the
  runs of \<open>sched_step\<close> holds of runs with their tasks.
\<close>

theorem system_refines_scheduler:
  assumes "targets_known d" and "bt_wf (dag_nodes d)"
    and "(sys_step x d factory cfg behaves)\<^sup>*\<^sup>* (sys_init cfg d) s"
  shows "(sched_step x d factory (actor_call cfg (timed behaves)))\<^sup>*\<^sup>* (sched_init d) (sys_sched s)"
  by (rule sys_sched_steps [OF assms])

theorem system_refines_scheduler_witness:
  "(sched_step demo_ext e2e_dag (\<lambda>i kind. kind) (actor_call default_resilience (timed (sample_behaves True))))\<^sup>*\<^sup>*
     (sched_init e2e_dag) (sample_run True (\<lambda>n. n))"
proof -
  obtain s where s: "(sample_sys_step True)\<^sup>*\<^sup>* sample_sys_init s" "sys_sched s = sample_run True (\<lambda>n. n)"
    by (rule sample_reachable)
  from system_refines_scheduler [OF sample_known e2e_wf(1) s(1)] show ?thesis by (simp add: s(2))
qed

text \<open>
  C8: A run with its tasks ends: every execution has at most \<open>max_steps d\<close> steps of the scheduler and
  four of each node's task. And it does not deadlock: as long as the run has not returned or some
  mailbox or task holds a message, some task can move.
\<close>

theorem system_terminates:
  assumes "targets_known d" and "bt_wf (dag_nodes d)"
    and "(sys_step x d factory cfg behaves ^^ n) (sys_init cfg d) s"
  shows "n \<le> max_steps d + 4 * bt_len (dag_nodes d) \<and>
    ((\<exists>t. sys_step x d factory cfg behaves s t) \<or>
     (s_status (sys_sched s) \<noteq> None \<and> (\<forall>v. in_work (sys_actors s v) = [])))"
proof
  have start: "sys_start cfg d (sys_init cfg d)" using assms(1,2) by (simp add: sys_start_def)
  show "n \<le> max_steps d + 4 * bt_len (dag_nodes d)"
    using run_system.steps_bounded [OF start assms(3)] sys_rank_init [OF assms(1,2) refl]
    by (rule order_trans)
  have "sys_inv x d factory cfg behaves s"
    by (rule sys_reach(1) [OF assms(1,2) relpowp_imp_rtranclp [OF assms(3)]])
  then show "(\<exists>t. sys_step x d factory cfg behaves s t) \<or>
     (s_status (sys_sched s) \<noteq> None \<and> (\<forall>v. in_work (sys_actors s v) = []))"
    using task_can_move run_can_move by blast
qed

theorem system_terminates_witness:
  "\<exists>t. sample_sys_step True sample_sys_init t"
proof -
  have "(sample_sys_step True ^^ 0) sample_sys_init sample_sys_init" by simp
  from system_terminates [OF sample_known e2e_wf(1) this] show ?thesis
    by (simp add: sys_init_def sched_init_running [OF sample_known])
qed

text \<open>
  Each actor of a run receives at most one message, the call of its node, and its mailbox never holds
  more than that one; no call is ever refused. The capacity of 64 and the error for a closed
  mailbox play no part in a run.
\<close>

theorem system_one_message:
  assumes "targets_known d" and "bt_wf (dag_nodes d)"
    and "(sys_step x d factory cfg behaves)\<^sup>*\<^sup>* (sys_init cfg d) s"
  shows "length (a_sent (sys_actors s v)) \<le> 1 \<and> length (a_mailbox (sys_actors s v)) \<le> 1 \<and>
    a_refused (sys_actors s v) = [] \<and> (a_sent (sys_actors s v) \<noteq> [] \<longrightarrow> v \<in> node_ids d)"
proof -
  note inv = sys_reach(1) [OF assms]
  have "length (a_mailbox (sys_actors s v)) \<le> 1"
    using waiting_mailbox(2) [OF inv] by (cases "a_mailbox (sys_actors s v) = []") simp_all
  then show ?thesis
    using sys_invD(3,5) [OF inv, of v] by (auto simp: one_message_def spawn_def split: option.splits)
qed

theorem system_one_message_witness:
  "\<exists>s :: (string, f64) system. sys_sched s = sample_run True (\<lambda>n. n) \<and> a_refused (sys_actors s ''ingest'') = []"
proof -
  obtain s where s: "(sample_sys_step True)\<^sup>*\<^sup>* sample_sys_init s" "sys_sched s = sample_run True (\<lambda>n. n)"
    by (rule sample_reachable)
  from system_one_message [OF sample_known e2e_wf(1) s(1)] s(2) show ?thesis by blast
qed

text \<open>
  C29: Tasks keep the order of the graph: a node has received its message only if every node before it,
  through any number of edges, has answered its own message with a success and is idle again. So
  the nodes that are at work or have failed are never related by a path, and nothing behind a
  failed node ever starts.
\<close>

theorem system_order:
  assumes "targets_known d" and "bt_wf (dag_nodes d)"
    and "(sys_step x d factory cfg behaves)\<^sup>*\<^sup>* (sys_init cfg d) s"
    and "(u, v) \<in> (edge_rel d)\<^sup>+" and "sys_sent s v \<noteq> None"
  shows "in_work (sys_actors s u) = [] \<and> (\<exists>m out. a_replies (sys_actors s u) = [(m, Ok out)])"
proof -
  note reach = sys_reach(1,4) [OF assms(1-3)]
  have "u \<in> dom (bt_get (s_outputs (sys_sched s)))" by (rule ancestor_output [OF reach assms(4,5)])
  then show ?thesis by (rule output_answered [OF reach]) blast
qed

theorem system_order_witness:
  "\<exists>s out. (sample_sys_step True)\<^sup>*\<^sup>* sample_sys_init s \<and> sys_sched s = sample_run True (\<lambda>n. n) \<and>
     (\<exists>m. a_replies (sys_actors s ''ingest'') = [(m, Ok out)])"
proof -
  obtain s where s: "(sample_sys_step True)\<^sup>*\<^sup>* sample_sys_init s" "sys_sched s = sample_run True (\<lambda>n. n)"
    by (rule sample_reachable)
  note reach = sys_reach(1,4) [OF sample_known e2e_wf(1) s(1)]
  obtain h where "s_status (sys_sched s) = Some (Ok h)"
    using sample_status(2) sample_ends [of True "\<lambda>n. n"]
    by (cases "the (s_status (sample_run True (\<lambda>n. n)))") (auto simp: s(2))
  then have "dom (bt_get (s_outputs (sys_sched s))) = node_ids e2e_dag"
    using sys_invD(1) [OF reach(1)] by (simp add: sched_inv_def)
  then have "''attest'' \<in> dom (bt_get (s_outputs (sys_sched s)))"
    by (simp add: node_ids_def e2e_nodes bt_get_map_of dom_map_of_conv_image_fst)
  then have sent: "sys_sent s ''attest'' \<noteq> None" by (rule output_answered [OF reach]) simp
  have "(''ingest'', ''validate'') \<in> edge_rel e2e_dag" "(''validate'', ''attest'') \<in> edge_rel e2e_dag"
    by (simp_all add: edge_rel_def e2e_dag_def dag_of_def e2e_builder_def builder_edge_def builder_node_def
        builder_new_def)
  then have path: "(''ingest'', ''attest'') \<in> (edge_rel e2e_dag)\<^sup>+" by (meson trancl.simps)
  from system_order [OF sample_known e2e_wf(1) s(1) path sent] s show ?thesis by blast
qed

lemma reply_source:
  assumes inv: "sys_inv x d factory cfg behaves s" and bound: "breaker_bound d factory cfg behaves s"
    and rep: "(m, Err e) \<in> set (a_replies (sys_actors s v))"
  shows "v \<in> node_ids d" and "e \<in> {RateLimited, Timeout (rc_timeout cfg)} \<or>
    behaves (actor_of d factory v) (m_ctx m) (m_input m) (Err e) \<or>
    (e = CircuitOpen \<and> may_refuse d factory cfg behaves v) \<or>
    (e = Network ''actor reply dropped'' \<and> may_die d factory cfg behaves v)"
proof -
  have "sys_actors s v \<noteq> spawn" using rep by (auto simp: spawn_def)
  then have "sys_sent s v \<noteq> None" using sys_invD(3) [OF inv, of v] by (auto simp: one_message_def split: option.splits)
  then show "v \<in> node_ids d" by (rule sys_invD(5) [OF inv])
  have "reply_ok (node_exec d factory cfg behaves v) (a_alive (sys_actors s v)) (m, Err e)"
    using sys_invD(2) [OF inv, of v] rep by (auto simp: actor_inv_def)
  then consider "node_exec d factory cfg behaves v m (Err e)"
    | "e = Network ''actor reply dropped''" "\<not> a_alive (sys_actors s v)"
    by (auto simp: reply_ok_def reply_dropped_def)
  then show "e \<in> {RateLimited, Timeout (rc_timeout cfg)} \<or>
    behaves (actor_of d factory v) (m_ctx m) (m_input m) (Err e) \<or>
    (e = CircuitOpen \<and> may_refuse d factory cfg behaves v) \<or>
    (e = Network ''actor reply dropped'' \<and> may_die d factory cfg behaves v)"
  proof cases
    case 1
    then obtain limiter_ok now f interfere now' cb where
      f: "\<forall>i. timed behaves (actor_of d factory v) (m_ctx m) (m_input m) (f i)"
      and "fst (run cfg limiter_ok now f interfere now' cb) = Err e"
      unfolding node_exec_def executor_returns_def by metis
    from run_Err_lemma [OF this(2)]
    have "e \<in> {RateLimited, CircuitOpen, Timeout (rc_timeout cfg)} \<or>
      behaves (actor_of d factory v) (m_ctx m) (m_input m) (Err e)"
      using f unfolding timed_def by (metis attempt.simps(5) insertCI)
    then show ?thesis using bound rep unfolding breaker_bound_def by blast
  next
    case 2
    then show ?thesis using bound by (simp add: breaker_bound_def)
  qed
qed

lemma run_error_source:
  assumes "targets_known d" and "bt_wf (dag_nodes d)"
    and "(sys_step x d factory cfg behaves)\<^sup>*\<^sup>* (sys_init cfg d) s"
    and "s_status (sys_sched s) = Some (Err e)"
  shows "e \<in> {not_reached, RateLimited, Timeout (rc_timeout cfg)} \<or>
    (e = CircuitOpen \<and> wide d (Suc (unat (rc_circuit_threshold cfg)))) \<or>
    (\<exists>v \<in> node_ids d. (\<exists>ctx input. behaves (actor_of d factory v) ctx input (Err e)) \<or>
       (e = Network ''actor reply dropped'' \<and> may_die d factory cfg behaves v))"
proof (cases "e = not_reached")
  case False
  note reach = sys_reach(1,3) [OF assms(1-3)]
  obtain v m where rep: "(m, Err e) \<in> set (a_replies (sys_actors s v))"
    using sys_reach(2) [OF assms(1-3)] assms(4) False by (auto simp: result_replied_def)
  from reply_source [OF reach rep] show ?thesis unfolding may_refuse_def by blast
qed simp

text \<open>
  C28: Where the error of a run comes from: a node that was not reached, the limiter or a timeout, an
  execution of one of its nodes, the breaker, if the graph has more pairwise unrelated nodes than
  its threshold, or a node whose task died. A task dies only when an execution of its node
  panics, when the configured backoffs can overflow a \<open>Duration\<close>, or when the breaker
  opens, which takes as many unrelated nodes as its threshold.
\<close>

theorem system_error_source:
  assumes "targets_known d" and "bt_wf (dag_nodes d)"
    and "(sys_step x d factory cfg behaves)\<^sup>*\<^sup>* (sys_init cfg d) s"
    and "s_status (sys_sched s) = Some (Err e)"
  shows "e \<in> {not_reached, RateLimited, Timeout (rc_timeout cfg)} \<or>
    (e = CircuitOpen \<and> wide d (Suc (unat (rc_circuit_threshold cfg)))) \<or>
    (\<exists>v \<in> node_ids d. (\<exists>ctx input. behaves (actor_of d factory v) ctx input (Err e)) \<or>
       (e = Network ''actor reply dropped'' \<and> may_die d factory cfg behaves v))"
  by (rule run_error_source [OF assms])

theorem system_error_source_witness:
  "\<exists>s. (sample_sys_step False)\<^sup>*\<^sup>* sample_sys_init s \<and> s_status (sys_sched s) = Some (Err not_reached) \<and>
    not_reached \<noteq> Network ''actor mailbox closed''"
proof -
  obtain s where s: "(sample_sys_step False)\<^sup>*\<^sup>* sample_sys_init s" "sys_sched s = sample_run False (\<lambda>n. n)"
    by (rule sample_reachable)
  have status: "s_status (sys_sched s) = Some (Err not_reached)" by (simp add: s(2) sample_status(3))
  from system_error_source [OF sample_known e2e_wf(1) s(1) status] s(1) status show ?thesis
    by (auto simp: not_reached_def)
qed

text \<open>
  C10: The breaker of a run refuses nothing unless the graph has more pairwise unrelated nodes than the
  threshold: only such nodes can be at work or have failed in the same run. So in a narrow graph,
  a chain of any length for one, no call is answered with \<open>CircuitOpen\<close> and no run ends with
  it, whatever fails in whatever order. As every run has a breaker of its own, failures of earlier
  runs do not count.
\<close>

theorem breaker_never_refuses:
  assumes "targets_known d" and "bt_wf (dag_nodes d)"
    and "(sys_step x d factory cfg behaves)\<^sup>*\<^sup>* (sys_init cfg d) s"
    and "\<not> wide d (Suc (unat (rc_circuit_threshold cfg)))"
    and "\<forall>v \<in> node_ids d. \<forall>ctx input. \<not> behaves (actor_of d factory v) ctx input (Err CircuitOpen)"
  shows "(\<forall>v m. (m, Err CircuitOpen) \<notin> set (a_replies (sys_actors s v))) \<and>
    s_status (sys_sched s) \<noteq> Some (Err CircuitOpen)"
proof -
  note reach = sys_reach(1,3) [OF assms(1-3)]
  have "(m, Err CircuitOpen) \<notin> set (a_replies (sys_actors s v))" for v m
  proof
    assume "(m, Err CircuitOpen) \<in> set (a_replies (sys_actors s v))"
    from reply_source [OF reach this] assms(4,5) show False by (auto simp: may_refuse_def)
  qed
  with sys_reach(2) [OF assms(1-3)] show ?thesis
    by (auto simp: result_replied_def not_reached_def)
qed

theorem breaker_never_refuses_witness:
  "\<exists>s. (sample_sys_step True)\<^sup>*\<^sup>* sample_sys_init s \<and> sys_sched s = sample_run True (\<lambda>n. n) \<and>
    (\<forall>v m. (m, Err CircuitOpen) \<notin> set (a_replies (sys_actors s v)))"
proof -
  obtain s where s: "(sample_sys_step True)\<^sup>*\<^sup>* sample_sys_init s" "sys_sched s = sample_run True (\<lambda>n. n)"
    by (rule sample_reachable)
  have narrow: "\<not> wide e2e_dag (Suc (unat (rc_circuit_threshold default_resilience)))"
    using wide_card [of e2e_dag] bt_len_card [OF e2e_wf(1)]
    by (fastforce simp: node_ids_def e2e_nodes bt_len_def default_resilience_def)
  have "\<forall>v \<in> node_ids e2e_dag. \<forall>ctx input.
      \<not> sample_behaves True (actor_of e2e_dag (\<lambda>i kind. kind) v) ctx input (Err CircuitOpen)"
    by (simp add: sample_behaves_def sample_node_def)
  from breaker_never_refuses [OF sample_known e2e_wf(1) s(1) narrow this] s show ?thesis by blast
qed

text \<open>
  Once a run has returned, the scheduler moves no more and sends no more messages; but the tasks whose
  messages it had sent go on executing them, for nothing cancels them.
\<close>

lemma after_return:
  assumes "sys_step x d factory cfg behaves s t" and "s_status (sys_sched s) \<noteq> None"
  shows "sys_sched t = sys_sched s \<and> sys_sent t = sys_sent s"
  using assms by (cases rule: sys_step_cases [consumes 1]) simp_all

text \<open>Two nodes without edges; the first one fails and the second one does not.\<close>

definition pair_dag :: "(bool, f64) dag" where
  "pair_dag = \<lparr>dag_id = 1, dag_name = ''pair'', dag_nodes = [(''a'', False), (''b'', True)], dag_edges = []\<rparr>"

definition pair_behaves :: "(bool, f64) node_behaviour" where
  "pair_behaves good ctx input r \<longleftrightarrow>
     r = (if good then Ok \<lparr>out_value = JNull, out_gas_used = 0\<rparr> else Err (Sandbox ''failed''))"

lemma pair_ok: "targets_known pair_dag" "bt_wf (dag_nodes pair_dag)"
  by (simp_all add: targets_known_def pair_dag_def bt_wf_def less_char_def)

text \<open>The first step of a run of these nodes dispatches both of them.\<close>

lemma pair_dispatched:
  fixes cfg
  defines "step \<equiv> sys_step demo_ext pair_dag (\<lambda>i p. p) cfg pair_behaves"
  obtains s ina inb where "step (sys_init cfg pair_dag) s" and "s_status (sys_sched s) = None"
    and "s_inflight (sys_sched s) = [(''a'', False, ina), (''b'', True, inb)]"
    and "sys_actors s = (\<lambda>v. spawn)" and "sys_sent s = (\<lambda>v. None)" and "sys_admitted s = (\<lambda>v. False)"
    and "sys_breaker s = cb_new (rc_circuit_threshold cfg) (rc_circuit_cooldown cfg)"
proof -
  let ?s0 = "sys_init cfg pair_dag :: (bool, f64) system"
  let ?s1 = "?s0\<lparr>sys_sched := dispatch pair_dag (\<lambda>i p. p) (sys_sched ?s0)\<rparr>"
  have init: "s_status (sys_sched ?s0) = None" "s_inflight (sys_sched ?s0) = []"
    "s_ready (sys_sched ?s0) = [''a'', ''b'']"
    by (simp_all add: sys_init_def) code_simp+
  have inv0: "sys_inv demo_ext pair_dag (\<lambda>i p. p) cfg pair_behaves ?s0"
    by (rule sys_inv_init [OF pair_ok])
  have "step ?s0 ?s1" unfolding step_def by (rule sys_dispatch [OF init(1,2)]) (simp add: init(3))
  moreover have "s_status (sys_sched ?s1) = None"
    "s_inflight (sys_sched ?s1) = [(''a'', False, make_input pair_dag (s_outputs (sys_sched ?s0)) ''a''),
      (''b'', True, make_input pair_dag (s_outputs (sys_sched ?s0)) ''b'')]"
    using sched_core_dispatch(1) [OF sys_inv_core(1,2) [OF inv0 init(1)] init(2)] init
    by (simp_all add: flight_def pair_dag_def)
  ultimately show thesis by (rule that) (simp_all add: sys_init_def)
qed

theorem tasks_outlive_run:
  "\<exists>s. (sys_step demo_ext pair_dag (\<lambda>i p. p) default_resilience pair_behaves)\<^sup>*\<^sup>*
       (sys_init default_resilience pair_dag) s \<and>
     s_status (sys_sched s) = Some (Err (Sandbox ''failed'')) \<and>
     a_current (sys_actors s ''b'') \<noteq> None"
proof -
  let ?step = "sys_step demo_ext pair_dag (\<lambda>i p. p) default_resilience pair_behaves"
  let ?s0 = "sys_init default_resilience pair_dag :: (bool, f64) system"
  obtain s1 ina inb where 1: "?step ?s0 s1"
    and flight: "s_status (sys_sched s1) = None"
      "s_inflight (sys_sched s1) = [(''a'', False, ina), (''b'', True, inb)]"
    and new: "sys_actors s1 = (\<lambda>v. spawn)" "sys_sent s1 = (\<lambda>v. None)" "sys_admitted s1 = (\<lambda>v. False)"
    and breaker: "sys_breaker s1 = cb_new (rc_circuit_threshold default_resilience) (rc_circuit_cooldown default_resilience)"
    by (rule pair_dispatched)
  let ?m = "call_message inb []"
  let ?s2 = "set_actor ''b'' (spawn\<lparr>a_mailbox := [?m], a_sent := [?m]\<rparr>)
    (s1\<lparr>sys_sent := (sys_sent s1)(''b'' \<mapsto> ?m)\<rparr>)"
  let ?s3 = "set_actor ''b'' (spawn\<lparr>a_sent := [?m], a_current := Some ?m\<rparr>) ?s2"
  have 2: "?step s1 ?s2"
    using flight by (intro sys_call [where node = True])
      (simp_all add: new send_def spawn_def mailbox_capacity_def)
  have 3: "?step ?s2 ?s3" by (rule sys_recv) (simp add: recv_def spawn_def)
  have steps: "?step\<^sup>*\<^sup>* ?s0 ?s3" using 1 2 3 by (meson rtranclp.rtrancl_refl rtranclp.rtrancl_into_rtrancl)
  have inv3: "sys_inv demo_ext pair_dag (\<lambda>i p. p) default_resilience pair_behaves ?s3"
    by (rule run_system.steps_inv [OF steps sys_inv_init [OF pair_ok]])
  obtain t where t: "?step\<^sup>*\<^sup>* ?s3 t"
    "sys_sched t = settle demo_ext pair_dag ''a'' (Err (Sandbox ''failed''))
      ((sys_sched ?s3)\<lparr>s_inflight := [] @ [(''b'', True, inb)]\<rparr>)"
    "\<And>w. w \<noteq> ''a'' \<Longrightarrow> sys_actors t w = sys_actors ?s3 w"
    by (rule answer_at_once [OF inv3, where v = "''a''" and node = False and input = ina and pre = "[]"
          and post = "[(''b'', True, inb)]" and res = "Err (Sandbox ''failed'')"])
      (use flight in \<open>simp_all add: new breaker cb_new_def default_resilience_def pair_behaves_def\<close>)
  have "s_status (sys_sched t) = Some (Err (Sandbox ''failed''))"
    by (simp add: t(2) settle_def stopped_def)
  moreover have "a_current (sys_actors t ''b'') \<noteq> None" by (simp add: t(3))
  ultimately show ?thesis using steps t(1) by (meson rtranclp_trans)
qed

text \<open>
  The bound of \<open>breaker_never_refuses\<close> is sharp: with a threshold of one, two unrelated nodes are enough.
  The first one fails, its task opens the breaker, and the task of the second one is refused.
\<close>

definition fragile :: resilience_config where
  "fragile = default_resilience\<lparr>rc_circuit_threshold := 1\<rparr>"

lemma fragile_settles:
  "task_settles fragile (timed pair_behaves False ctx input) (cb_new 1 (from_secs 10))
     (Err (Sandbox ''failed''))
     \<lparr>cb_threshold = 1, cb_cooldown = from_secs 10, cb_failures = 1, cb_open_until = Some (Instant (as_nanos (from_secs 10)))\<rparr>"
proof -
  let ?f = "\<lambda>i :: nat. Completed (Err (Sandbox ''failed'')) :: f64 node_output attempt"
  have safe: "backoff_safe fragile" using default_backoff_safe by (simp add: backoff_safe_def fragile_def)
  have "max_calls fragile = 3" using default_max_calls by (simp add: max_calls_def fragile_def)
  then have "stops_at fragile ?f 2" by (simp add: stops_at_def attempt_outcome_def is_err_def)
  from retry_loop_stops [OF safe this]
  have "fst (retry_loop fragile ?f 0 (rc_initial_backoff fragile)) = Err (Sandbox ''failed'')"
    by (simp add: attempt_outcome_def)
  then show ?thesis
    unfolding task_settles_def timed_def pair_behaves_def
    by (intro exI [where x = ?f] exI [where x = "Instant 0"])
      (simp add: run_settle_def on_failure_def cb_new_def saturating_add_def instant_add_def Let_def
        from_secs_def instant_limit_def nanos_per_sec_def)
qed

theorem breaker_can_refuse:
  "\<exists>s m. (sys_step demo_ext pair_dag (\<lambda>i p. p) fragile pair_behaves)\<^sup>*\<^sup>* (sys_init fragile pair_dag) s \<and>
     s_status (sys_sched s) = None \<and> a_replies (sys_actors s ''b'') = [(m, Err CircuitOpen)]"
proof -
  let ?step = "sys_step demo_ext pair_dag (\<lambda>i p. p) fragile pair_behaves"
  let ?s0 = "sys_init fragile pair_dag :: (bool, f64) system"
  obtain s1 ina inb where 1: "?step ?s0 s1"
    and flight: "s_status (sys_sched s1) = None"
      "s_inflight (sys_sched s1) = [(''a'', False, ina), (''b'', True, inb)]"
    and new: "sys_actors s1 = (\<lambda>v. spawn)" "sys_sent s1 = (\<lambda>v. None)" "sys_admitted s1 = (\<lambda>v. False)"
    and breaker: "sys_breaker s1 = cb_new (rc_circuit_threshold fragile) (rc_circuit_cooldown fragile)"
    by (rule pair_dispatched)
  have fresh: "sys_breaker s1 = cb_new 1 (from_secs 10)"
    by (simp add: breaker fragile_def default_resilience_def)
  let ?a = "call_message ina []" and ?b = "call_message inb []"
  let ?cb = "\<lparr>cb_threshold = 1, cb_cooldown = from_secs 10, cb_failures = 1,
    cb_open_until = Some (Instant (as_nanos (from_secs 10)))\<rparr>"
  let ?s2 = "set_actor ''a'' (spawn\<lparr>a_mailbox := [?a], a_sent := [?a]\<rparr>)
    (s1\<lparr>sys_sent := (sys_sent s1)(''a'' \<mapsto> ?a)\<rparr>)"
  let ?s3 = "set_actor ''a'' (spawn\<lparr>a_sent := [?a], a_current := Some ?a\<rparr>) ?s2"
  let ?s4 = "set_admitted ''a'' True (sys_breaker ?s3) ?s3"
  let ?s5 = "set_actor ''a'' (spawn\<lparr>a_sent := [?a], a_replies := [(?a, Err (Sandbox ''failed''))]\<rparr>)
    (set_admitted ''a'' False ?cb ?s4)"
  let ?s6 = "set_actor ''b'' (spawn\<lparr>a_mailbox := [?b], a_sent := [?b]\<rparr>)
    (?s5\<lparr>sys_sent := (sys_sent ?s5)(''b'' \<mapsto> ?b)\<rparr>)"
  let ?s7 = "set_actor ''b'' (spawn\<lparr>a_sent := [?b], a_current := Some ?b\<rparr>) ?s6"
  let ?s8 = "set_actor ''b'' (spawn\<lparr>a_sent := [?b], a_replies := [(?b, Err CircuitOpen)]\<rparr>)
    (set_admitted ''b'' False ?cb ?s7)"
  have actor: "actor_of pair_dag (\<lambda>i p. p) ''a'' = False" by (simp add: actor_of_def pair_dag_def)
  have 2: "?step s1 ?s2"
    using flight by (intro sys_call [where node = False])
      (simp_all add: new send_def spawn_def mailbox_capacity_def)
  have 3: "?step ?s2 ?s3" by (rule sys_recv) (simp add: recv_def spawn_def)
  have 4: "?step ?s3 ?s4"
    by (rule sys_admit [where m = ?a and limiter_ok = True and now = "Instant 0"])
      (simp_all add: new fresh run_admit_def allow_def cb_new_def)
  have 5: "?step ?s4 ?s5"
    by (rule sys_reply [where m = ?a and res = "Err (Sandbox ''failed'')"])
      (simp_all add: actor fresh fragile_settles reply_def spawn_def)
  have 6: "?step ?s5 ?s6"
    using flight by (intro sys_call [where node = True])
      (simp_all add: new send_def spawn_def mailbox_capacity_def)
  have 7: "?step ?s6 ?s7" by (rule sys_recv) (simp add: recv_def spawn_def)
  have 8: "?step ?s7 ?s8"
    by (rule sys_turned_away [where m = ?b and limiter_ok = True and now = "Instant 0" and e = CircuitOpen])
      (simp_all add: new run_admit_def allow_def reply_def spawn_def from_secs_def nanos_per_sec_def)
  have "?step\<^sup>*\<^sup>* ?s0 ?s8"
    using 1 2 3 4 5 6 7 8 by (meson rtranclp.rtrancl_refl rtranclp.rtrancl_into_rtrancl)
  moreover have "s_status (sys_sched ?s8) = None" "a_replies (sys_actors ?s8 ''b'') = [(?b, Err CircuitOpen)]"
    using flight(1) by simp_all
  ultimately show ?thesis by blast
qed

lemma run_succeeds:
  assumes "build uid b = Ok d" and "bt_wf (b_nodes b)" and "unconditional d"
    and "(sys_step x d factory cfg behaves)\<^sup>*\<^sup>* (sys_init cfg d) s"
    and "\<not> (\<exists>t. sys_step x d factory cfg behaves s t)"
    and "\<forall>v m e. (m, Err e) \<notin> set (a_replies (sys_actors s v))"
  shows "dom (bt_get (s_outputs (sys_sched s))) = node_ids d \<and>
    s_status (sys_sched s) = Some (Ok (hash_json_map x (s_outputs (sys_sched s))))"
proof -
  note ok = build_Ok [OF assms(1,2)]
  note base = closed_targets [OF ok(1)] ok(2)
  obtain order where "topo_sort d = Ok order" using ok(3) by blast
  then have ac: "acyclic (edge_rel d)" by (rule topo_order_acyclic [OF topo_sort_Ok_order [OF ok(1,2)]])
  note inv = sys_reach(1) [OF base assms(4)]
  obtain r where r: "s_status (sys_sched s) = Some r" using run_can_move [OF inv] assms(5) by blast
  have res: "result_ok x d factory (actor_call cfg (timed behaves)) (s_outputs (sys_sched s)) (s_log (sys_sched s)) r"
    using sys_invD(1) [OF inv] r by (simp add: sched_inv_def)
  show ?thesis
  proof (cases r)
    case (Ok h)
    then show ?thesis using res r by simp
  next
    case (Err e)
    then have "e = not_reached" "filter is_final (s_log (sys_sched s)) = []"
      using sys_reach(2) [OF base assms(4)] assms(6) r by (auto simp: result_replied_def)
    then have "dom (bt_get (s_outputs (sys_sched s))) = reached x d (s_outputs (sys_sched s))"
      "dom (bt_get (s_outputs (sys_sched s))) \<noteq> node_ids d"
      using res by (auto simp: Err)
    with unconditional_complete [OF ac ok(1) assms(3)] show ?thesis by blast
  next
    case (Panic p)
    with res show ?thesis by simp
  qed
qed

subsection \<open>Library nodes\<close>

definition library_behaves :: "'n ext \<Rightarrow> 'n node_env \<Rightarrow> ('n node, 'n) node_behaviour" where
  "library_behaves x env node ctx input r \<longleftrightarrow> r = execute x env node ctx input"

lemma timed_library: "timed (library_behaves x env) = node_attempts x env"
  by (simp add: timed_def library_behaves_def node_attempts_def fun_eq_iff split: attempt.split)

lemma execute_not_open: "execute x env node ctx input \<noteq> Err CircuitOpen"
proof (cases node)
  case (HttpFetchNode h)
  then show ?thesis by (auto simp: http_execute_def outcome_simps Let_def)
next
  case MedianNode
  then show ?thesis
    by (auto simp: median_execute_def median_of_def nth_checked_def checked_dec_def outcome_simps Let_def)
next
  case (ThresholdNode t)
  then show ?thesis by (auto simp: threshold_execute_def ok_or_def outcome_simps Let_def split: option.splits)
qed (simp_all add: constant_execute_def sha256_execute_def)

lemma library_runs:
  assumes "targets_known d" and "bt_wf (dag_nodes d)"
    and "(sys_step x d factory cfg (library_behaves x env))\<^sup>*\<^sup>* (sys_init cfg d) s"
  shows "(sched_step x d factory (workflow_calls cfg x env))\<^sup>*\<^sup>* (sched_init d) (sys_sched s)"
  using sys_sched_steps [OF assms] by (simp add: workflow_calls_def timed_library)

text \<open>Without the network a node does not panic and does not fail with a network error.\<close>

lemma offline_calm:
  assumes "offline_node node"
  shows "no_panic (execute x env node ctx input)"
  using assms constant_node.calm_exec sha256_node.calm_exec median_node.calm_exec threshold_node.calm_exec
  by (cases node) simp_all

lemma offline_no_network:
  assumes "offline_node node"
  shows "execute x env node ctx input \<noteq> Err (Network t)"
  using assms
  by (cases node) (auto simp: constant_execute_def sha256_execute_def median_execute_def median_of_def
      nth_checked_def checked_dec_def threshold_execute_def ok_or_def outcome_simps Let_def split: option.splits)

end
