(* ===== verification/Eth_System.thy ===== *)
theory Eth_System
  imports Eth_Threshold System_Runs
begin

section \<open>The example program with its tasks\<close>

text \<open>
  The price example of kernelflow-node run by the default scheduler with actors, executor and breaker.
\<close>

abbreviation eth_sys_step :: "(f64 node, f64) system \<Rightarrow> (f64 node, f64) system \<Rightarrow> bool" where
  "eth_sys_step \<equiv> sys_step demo_ext (eth_dag 7) (eth_nodes demo_ext) default_resilience
     (library_behaves demo_ext demo_env)"

abbreviation eth_sys_init :: "(f64 node, f64) system" where
  "eth_sys_init \<equiv> sys_init default_resilience (eth_dag 7 :: (string, f64) dag)"

lemma eth_sys_reachable:
  obtains s where "eth_sys_step\<^sup>*\<^sup>* eth_sys_init s" and "sys_sched s = eth_drive pick" and "settled s"
  by (rule drive_reachable [OF closed_targets [OF eth_closed] eth_wf demo_calm,
        where behaves = "library_behaves demo_ext demo_env" and x = demo_ext and factory = "eth_nodes demo_ext"
          and pick = pick and n = "max_steps (eth_dag 7 :: (string, f64) dag)"])
    (simp_all add: library_behaves_def at_once_def)

text \<open>Four nodes of the graph are related, so its breaker cannot open, and no task of it can die.\<close>

lemma eth_narrow:
  assumes "5 \<le> n"
  shows "\<not> wide (eth_dag uid :: (string, 'n) dag) n"
proof
  let ?d = "eth_dag uid :: (string, 'n) dag"
  assume "wide ?d n"
  then obtain S where S: "S \<subseteq> node_ids ?d" "antichain ?d S" "n \<le> card S"
    unfolding wide_def by blast
  have "card (node_ids ?d) = 5" by (simp add: eth_ids)
  then have "S = node_ids ?d" using S(1,3) assms by (intro card_seteq) simp_all
  then have "''p1'' \<in> S" "''median'' \<in> S" by (simp_all add: eth_ids)
  moreover have "(''p1'', ''median'') \<in> (edge_rel ?d)\<^sup>+"
    by (intro r_into_trancl) (simp add: edge_rel_def eth_dag_def)
  ultimately show False using S(2) unfolding antichain_def by blast
qed

lemma eth_calm:
  fixes x :: "'n ext" and d :: "(string, 'n) dag"
  assumes d: "d = eth_dag uid" and v: "v \<in> node_ids d"
  shows "\<not> library_behaves x env (actor_of d (eth_nodes x) v) ctx input (Panic p)"
    and "\<not> library_behaves x env (actor_of d (eth_nodes x) v) ctx input (Err (Network t))"
    and "\<not> library_behaves x env (actor_of d (eth_nodes x) v) ctx input (Err CircuitOpen)"
    and "\<not> may_die d (eth_nodes x) default_resilience (library_behaves x env) v"
proof -
  have off: "offline_node (actor_of d (eth_nodes x) v)"
    using v eth_offline unfolding d offline_workflow_def by blast
  note behaves = library_behaves_def
  have calm: "\<not> library_behaves x env (actor_of d (eth_nodes x) v) ctx input (Panic p)" for ctx input p
    using offline_calm [OF off, of x env ctx input] unfolding behaves by (metis no_panic.simps(1))
  then show "\<not> library_behaves x env (actor_of d (eth_nodes x) v) ctx input (Panic p)" .
  show "\<not> library_behaves x env (actor_of d (eth_nodes x) v) ctx input (Err (Network t))"
    using offline_no_network [OF off, of x env ctx input t] unfolding behaves by metis
  show "\<not> library_behaves x env (actor_of d (eth_nodes x) v) ctx input (Err CircuitOpen)"
    using execute_not_open unfolding behaves by metis
  have "\<not> wide d (unat (rc_circuit_threshold default_resilience))"
    unfolding d by (rule eth_narrow) (simp add: default_resilience_def)
  with calm show "\<not> may_die d (eth_nodes x) default_resilience (library_behaves x env) v"
    unfolding may_die_def by simp
qed

text \<open>
  C7: Every execution of the price example by the default scheduler that ends returns the hash of one and
  the same map of outputs, in which the median is 3050.5 and the threshold reports that it exceeds
  3000, or one of two errors: a call was rate limited, or the last attempt of a node timed out.
  No node fails, the breaker refuses nothing, nothing panics, the node factory included, and no task
  dies.
\<close>

theorem eth_system_attestation:
  assumes "f64_json_laws x" and "build uid eth_builder = Ok d"
    and "(sys_step x d (made (eth_factory x)) default_resilience (library_behaves x env))\<^sup>*\<^sup>*
      (sys_begin default_resilience (eth_factory x) d) s"
    and "s_status (sys_sched s) = Some r"
  shows "r = Ok (hash_json_map x (eth_outputs x)) \<or> r \<in> Err ` {RateLimited, Timeout (from_secs 30)}"
proof -
  have d: "d = eth_dag uid" using assms(2) by (simp add: eth_build)
  have base: "targets_known d" "bt_wf (dag_nodes d)"
    unfolding d by (rule closed_targets [OF eth_closed], rule eth_wf)
  have steps: "(sys_step x d (eth_nodes x) default_resilience (library_behaves x env))\<^sup>*\<^sup>*
      (sys_init default_resilience d) s"
    using assms(3) unfolding d by (simp only: sys_begin_init [OF eth_factory_calm])
  show ?thesis
  proof (cases "r = Ok (hash_json_map x (eth_outputs x))")
    case False
    then obtain e where e: "e \<in> executor_errors default_resilience" "r = Err e"
      using eth_attestation [OF assms(1,2) library_runs [OF base steps] assms(4)] by blast
    have "\<not> wide d (Suc (unat (rc_circuit_threshold default_resilience)))"
      unfolding d by (rule eth_narrow) (simp add: default_resilience_def)
    then have "e \<in> {not_reached, RateLimited, Timeout (rc_timeout default_resilience)} \<or>
        (\<exists>v \<in> node_ids d. \<exists>ctx input. library_behaves x env (actor_of d (eth_nodes x) v) ctx input (Err e))"
      using run_error_source [OF base steps assms(4) [unfolded e(2)]] eth_calm(4) [OF d] by blast
    then have "e \<in> {not_reached, RateLimited, Timeout (from_secs 30)} \<or> (\<forall>t. e \<noteq> Network t) \<and> e \<noteq> CircuitOpen"
      using eth_calm(2,3) [OF d] by (auto simp: default_resilience_def)
    then have "e \<in> {RateLimited, Timeout (from_secs 30)}"
      using e(1) by (auto simp: executor_errors_def not_reached_def default_resilience_def)
    then show ?thesis using e(2) by blast
  qed simp
qed

theorem eth_system_attestation_witness:
  "\<exists>s. eth_sys_step\<^sup>*\<^sup>* eth_sys_init s \<and>
     s_status (sys_sched s) = Some (Ok (hash_json_map demo_ext (eth_outputs demo_ext)))"
proof -
  obtain s where s: "eth_sys_step\<^sup>*\<^sup>* eth_sys_init s" "sys_sched s = eth_drive (\<lambda>n. n)"
    by (rule eth_sys_reachable)
  have ok: "s_status (sys_sched s) = Some (Ok h) \<Longrightarrow> h = hash_json_map demo_ext (eth_outputs demo_ext)" for h
    using eth_system_attestation [OF demo_f64_json eth_build, unfolded sys_begin_init [OF eth_factory_calm], OF s(1)]
    by blast
  show ?thesis using s ok eth_drive_Ok [OF demo_f64_json demo_calm] by auto
qed

text \<open>
  C3: The attestation hash of a workflow of library nodes without network access is deterministic: two
  runs with their tasks that return a hash return the same one, under any two configurations of the
  executor, any interleaving of the tasks, any timeouts, retries and states of the breaker.
\<close>

theorem system_hash_deterministic:
  assumes "build uid b = Ok d" and "bt_wf (b_nodes b)" and "offline_workflow d factory"
    and "(sys_step x d factory cfg (library_behaves x env))\<^sup>*\<^sup>* (sys_init cfg d) s"
    and "s_status (sys_sched s) = Some (Ok h)"
    and "(sys_step x d factory cfg' (library_behaves x env))\<^sup>*\<^sup>* (sys_init cfg' d) s'"
    and "s_status (sys_sched s') = Some (Ok h')"
  shows "h = h'"
proof -
  note ok = build_Ok [OF assms(1,2)]
  obtain order where order: "topo_sort d = Ok order" using ok(3) by blast
  let ?R = "\<lambda>node ctx input res. workflow_calls cfg x env node ctx input res \<or>
    workflow_calls cfg' x env node ctx input res"
  have det: "value_of_input d factory ?R"
    unfolding value_of_input_def using assms(3) execute_context_free workflow_calls_Ok
    unfolding offline_workflow_def by (metis outcome.inject(1))
  have "(sched_step x d factory ?R)\<^sup>*\<^sup>* (sched_init d) (sys_sched s)"
    by (rule sched_steps_mono [OF library_runs [OF closed_targets [OF ok(1)] ok(2) assms(4)]]) simp
  moreover have "(sched_step x d factory ?R)\<^sup>*\<^sup>* (sched_init d) (sys_sched s')"
    by (rule sched_steps_mono [OF library_runs [OF closed_targets [OF ok(1)] ok(2) assms(6)]]) simp
  ultimately show ?thesis
    using hash_agree [OF ok(1,2) order det] assms(5,7) by blast
qed


theorem system_hash_deterministic_witness:
  "\<exists>s s'. eth_sys_step\<^sup>*\<^sup>* eth_sys_init s \<and> sys_sched s = eth_drive (\<lambda>n. n) \<and>
     eth_sys_step\<^sup>*\<^sup>* eth_sys_init s' \<and> sys_sched s' = eth_drive (\<lambda>n. 0) \<and>
     s_status (sys_sched s) = s_status (sys_sched s')"
proof -
  obtain s where s: "eth_sys_step\<^sup>*\<^sup>* eth_sys_init s" "sys_sched s = eth_drive (\<lambda>n. n)"
    by (rule eth_sys_reachable)
  obtain s' where s': "eth_sys_step\<^sup>*\<^sup>* eth_sys_init s'" "sys_sched s' = eth_drive (\<lambda>n. 0)"
    by (rule eth_sys_reachable)
  note ok = eth_drive_Ok [OF demo_f64_json demo_calm, where uid = 7]
  from system_hash_deterministic [OF eth_build [of 7] _ eth_offline, unfolded eth_builder_dag,
      OF _ s(1) _ s'(1)] have "s_status (sys_sched s) = s_status (sys_sched s')"
    by (simp add: s(2) s'(2) ok eth_wf)
  with s s' show ?thesis by blast
qed

text \<open>
  C9: When no call fails a run succeeds: in a graph that the builder accepts, without conditions on its
  edges, every execution of the tasks that has come to its end, with no error among the replies of
  the actors, has returned the hash of an output of every node.
\<close>

theorem system_succeeds:
  assumes "build uid b = Ok d" and "bt_wf (b_nodes b)" and "unconditional d"
    and "(sys_step x d factory cfg behaves)\<^sup>*\<^sup>* (sys_init cfg d) s"
    and "\<not> (\<exists>t. sys_step x d factory cfg behaves s t)"
    and "\<forall>v m e. (m, Err e) \<notin> set (a_replies (sys_actors s v))"
  shows "dom (bt_get (s_outputs (sys_sched s))) = node_ids d \<and>
    s_status (sys_sched s) = Some (Ok (hash_json_map x (s_outputs (sys_sched s))))"
  by (rule run_succeeds [OF assms])

theorem system_succeeds_witness:
  "\<exists>s. eth_sys_step\<^sup>*\<^sup>* eth_sys_init s \<and> sys_sched s = eth_drive (\<lambda>n. 0) \<and>
     dom (bt_get (s_outputs (sys_sched s))) = node_ids (eth_dag 7 :: (string, f64) dag)"
proof -
  obtain s where s: "eth_sys_step\<^sup>*\<^sup>* eth_sys_init s" "sys_sched s = eth_drive (\<lambda>n. 0)" "settled s"
    by (rule eth_sys_reachable)
  have status: "s_status (sys_sched s) = Some (Ok (hash_json_map demo_ext (eth_outputs demo_ext)))"
    unfolding s(2) by (rule eth_drive_Ok [OF demo_f64_json demo_calm])
  have ended: "\<not> (\<exists>t. eth_sys_step s t)"
    by (intro notI, elim exE notE [OF settled_end [OF s(3)], rotated]) (simp add: status)
  have quiet: "\<forall>v m e. (m, Err e) \<notin> set (a_replies (sys_actors s v))"
    using s(3) status by (simp add: settled_def)
  have wf: "bt_wf (b_nodes (eth_builder :: (string, f64) dag_builder))" by (simp add: eth_builder_dag eth_wf)
  from system_succeeds [OF eth_build wf eth_unconditional s(1) ended quiet] s show ?thesis by blast
qed

end
