(* ===== verification/Event_Stream.thy ===== *)
theory Event_Stream
  imports Kernel_Core
begin

section \<open>The event subscription (kernelflow-api) and the peer-to-peer layer (kernelflow-p2p)\<close>

text \<open>
  The two consumers of events. The GraphQL subscription turns what the broadcast receiver returns
  into data objects until the receiver fails; the peer-to-peer node hands the messages among the
  events of its swarm to a callback. What the receiver and the swarm return is the argument, a
  list; so are the functions of \<open>libp2p\<close> and \<open>serde_json\<close>.
\<close>

subsection \<open>The subscription\<close>

datatype received = Received kernel_event | Lagged nat | Closed

record event_dto =
  dto_kind :: string
  dto_payload :: string

fun discriminant :: "kernel_event \<Rightarrow> nat" where
  "discriminant (WorkflowStarted w n) = 0"
| "discriminant (NodeStarted w n a) = 1"
| "discriminant (NodeCompleted w n out) = 2"
| "discriminant (WorkflowCompleted w h) = 3"
| "discriminant (WorkflowFailed w r) = 4"

definition debug_discriminant :: "kernel_event \<Rightarrow> string" where
  "debug_discriminant ev = ''Discriminant('' @ show_nat (discriminant ev) @ '')''"

definition dto_of :: "(kernel_event \<Rightarrow> string option) \<Rightarrow> kernel_event \<Rightarrow> event_dto" where
  "dto_of to_string ev =
     (let payload = (case to_string ev of Some s \<Rightarrow> s | None \<Rightarrow> [])
      in \<lparr>dto_kind = debug_discriminant ev, dto_payload = payload\<rparr>)"

fun event_stream :: "(kernel_event \<Rightarrow> string option) \<Rightarrow> received list \<Rightarrow> event_dto list" where
  "event_stream to_string (Received ev # rest) = dto_of to_string ev # event_stream to_string rest"
| "event_stream to_string (Lagged n # rest) = []"
| "event_stream to_string (Closed # rest) = []"
| "event_stream to_string [] = []"

definition health :: string where
  "health = ''ok''"

lemma event_stream_received:
  "event_stream ts (map Received evs @ rest) = map (dto_of ts) evs @ event_stream ts rest"
  by (induction evs) simp_all

lemma debug_discriminant_iff: "debug_discriminant a = debug_discriminant b \<longleftrightarrow> discriminant a = discriminant b"
  by (cases a; cases b) (simp_all add: debug_discriminant_def show_nat.simps dec_digit_def char_of_def bit_Suc_0_iff)

subsection \<open>The peer-to-peer node\<close>

definition TOPIC :: string where
  "TOPIC = ''kernelflow/events/v1''"

record ('key, 'peer, 'cfg, 'gs, 'swarm) libp2p =
  lp_peer_id :: "'key \<Rightarrow> 'peer"
  lp_config :: "duration \<Rightarrow> (string, 'cfg) outcome"
  lp_gossipsub :: "'key \<Rightarrow> 'cfg \<Rightarrow> (string, 'gs) outcome"
  lp_with_tcp :: "'key \<Rightarrow> (string, 'swarm) outcome"
  lp_with_behaviour :: "'gs \<Rightarrow> 'swarm \<Rightarrow> (string, 'swarm) outcome"
  lp_subscribe :: "string \<Rightarrow> 'swarm \<Rightarrow> (string, 'swarm) outcome"
  lp_listen_on :: "string \<Rightarrow> 'swarm \<Rightarrow> (string, 'swarm) outcome"
  lp_publish :: "string \<Rightarrow> u8 list \<Rightarrow> 'swarm \<Rightarrow> (string, u64) outcome \<times> 'swarm"

record ('peer, 'swarm) p2p_node =
  pn_peer_id :: 'peer
  pn_swarm :: 'swarm
  pn_topic :: string

text \<open>The key pair is drawn by the caller's random source; it is the argument \<open>kp\<close>.\<close>

definition p2p_new :: "('key, 'peer, 'cfg, 'gs, 'swarm) libp2p \<Rightarrow> 'key \<Rightarrow> string \<Rightarrow>
    ('peer, 'swarm) p2p_node kernel_result" where
  "p2p_new lp kp listen =
     and_then (map_err Network (lp_config lp (from_secs 1))) (\<lambda>gs_cfg.
     and_then (map_err Network (lp_gossipsub lp kp gs_cfg)) (\<lambda>gossipsub.
     and_then (map_err Network (lp_with_tcp lp kp)) (\<lambda>swarm.
     and_then (map_err Network (lp_with_behaviour lp gossipsub swarm)) (\<lambda>swarm.
     and_then (map_err Network (lp_subscribe lp TOPIC swarm)) (\<lambda>swarm.
     and_then (map_err Network (lp_listen_on lp listen swarm)) (\<lambda>swarm.
       Ok \<lparr>pn_peer_id = lp_peer_id lp kp, pn_swarm = swarm, pn_topic = TOPIC\<rparr>))))))"

definition p2p_publish :: "('key, 'peer, 'cfg, 'gs, 'swarm) libp2p \<Rightarrow> u8 list \<Rightarrow> ('peer, 'swarm) p2p_node \<Rightarrow>
    unit kernel_result \<times> ('peer, 'swarm) p2p_node" where
  "p2p_publish lp payload node =
     (let (r, swarm) = lp_publish lp (pn_topic node) payload (pn_swarm node)
      in (and_then (map_err Network r) (\<lambda>_. Ok ()), node\<lparr>pn_swarm := swarm\<rparr>))"

text \<open>The events of the swarm; the loop ends with the stream. The callback updates a state.\<close>

datatype swarm_event = Gossip_Message "u8 list" | Other_Swarm_Event

fun p2p_run :: "(u8 list \<Rightarrow> 's \<Rightarrow> 's) \<Rightarrow> swarm_event list \<Rightarrow> 's \<Rightarrow> 's" where
  "p2p_run on_msg [] s = s"
| "p2p_run on_msg (Gossip_Message d # evs) s = p2p_run on_msg evs (on_msg d s)"
| "p2p_run on_msg (Other_Swarm_Event # evs) s = p2p_run on_msg evs s"

fun message_data :: "swarm_event \<Rightarrow> u8 list option" where
  "message_data (Gossip_Message d) = Some d"
| "message_data Other_Swarm_Event = None"

text \<open>Every message is handed on once and in order, and nothing else is.\<close>

lemma p2p_run_fold: "p2p_run on_msg evs s = fold on_msg (List.map_filter message_data evs) s"
  by (induction on_msg evs s rule: p2p_run.induct) (simp_all add: List.map_filter_simps)

lemma p2p_new_Ok:
  assumes "p2p_new lp kp listen = Ok node"
  shows "pn_topic node = TOPIC \<and> pn_peer_id node = lp_peer_id lp kp"
  using assms by (auto simp: p2p_new_def outcome_simps)

subsection \<open>Properties of the consumers\<close>

text \<open>
  A subscriber gets the events in the order in which its receiver returned them, each with a kind
  that tells the variants apart, up to the first failure of the receiver. A receiver that has
  fallen behind fails too, so such a subscription ends as if the channel had been closed,
  although events go on.
\<close>

theorem event_stream_ends_on_lag:
  "event_stream ts (map Received evs @ Lagged n # rest) = map (dto_of ts) evs \<and>
   event_stream ts (map Received evs @ Lagged n # rest) = event_stream ts (map Received evs @ [Closed]) \<and>
   (dto_kind (dto_of ts a) = dto_kind (dto_of ts b) \<longleftrightarrow> discriminant a = discriminant b)"
  by (simp add: event_stream_received dto_of_def debug_discriminant_iff)

end
