(* ===== verification/Event_Bus.thy ===== *)
theory Event_Bus
  imports Event_Stream Scheduler_Spec
begin

section \<open>The event bus between scheduler and subscribers\<close>

text \<open>
  \<open>Scheduler::new\<close> opens a broadcast channel, \<open>Scheduler::handle\<close> gives out its sender, and a
  subscription reads from a receiver of that sender. The channel of \<open>tokio\<close> is the record \<open>broadcast\<close>
  of its operations; \<open>broadcast_laws\<close> states what its documentation says. A channel of capacity 0
  or above \<open>usize::MAX / 2\<close> is refused with a panic; any other has room for at least the values asked
  for and one receiver. A send fails, and the value is lost, exactly when there is no receiver. A
  receiver gets the values sent after it subscribed in their order, and it lags only when more
  values are unread than the channel has room for; it then skips to the oldest value kept.
\<close>

record ('ch, 'rx) broadcast =
  bc_channel :: "u64 \<Rightarrow> ('ch \<times> 'rx) kernel_result"
  bc_send :: "kernel_event \<Rightarrow> 'ch \<Rightarrow> bool \<times> 'ch"
  bc_subscribe :: "'ch \<Rightarrow> 'rx \<times> 'ch"
  bc_drop :: "'rx \<Rightarrow> 'ch \<Rightarrow> 'ch"
  bc_recv :: "'ch \<Rightarrow> 'rx \<Rightarrow> received option \<times> 'rx"

text \<open>
  \<open>sent\<close>: the values sent so far; \<open>room\<close>: how many are kept; \<open>live\<close>: how many receivers there are;
  \<open>pos\<close>: the next value that a receiver of the channel will read. A dropped receiver is never used
  again.
\<close>

definition usize_max :: nat where
  "usize_max = 2 ^ 64 - 1"

definition keeps_pos :: "('ch \<Rightarrow> 'rx \<Rightarrow> nat option) \<Rightarrow> 'ch \<Rightarrow> 'ch \<Rightarrow> bool" where
  "keeps_pos pos ch ch' \<longleftrightarrow> (\<forall>rx p. pos ch rx = Some p \<longrightarrow> pos ch' rx = Some p)"

definition broadcast_laws :: "('ch, 'rx) broadcast \<Rightarrow> ('ch \<Rightarrow> kernel_event list) \<Rightarrow> ('ch \<Rightarrow> nat) \<Rightarrow>
    ('ch \<Rightarrow> nat) \<Rightarrow> ('ch \<Rightarrow> 'rx \<Rightarrow> nat option) \<Rightarrow> bool" where
  "broadcast_laws bc sent room live pos \<longleftrightarrow>
     (\<forall>n. if n = 0 \<or> usize_max div 2 < unat n then \<exists>p. bc_channel bc n = Panic p
          else \<exists>ch rx. bc_channel bc n = Ok (ch, rx) \<and> sent ch = [] \<and> unat n \<le> room ch \<and>
            live ch = 1 \<and> pos ch rx = Some 0) \<and>
     (\<forall>ev ch. if live ch = 0 then bc_send bc ev ch = (False, ch)
          else \<exists>ch'. bc_send bc ev ch = (True, ch') \<and> sent ch' = sent ch @ [ev] \<and> room ch' = room ch \<and>
            live ch' = live ch \<and> keeps_pos pos ch ch') \<and>
     (\<forall>ch. \<exists>rx ch'. bc_subscribe bc ch = (rx, ch') \<and> pos ch' rx = Some (length (sent ch)) \<and>
        sent ch' = sent ch \<and> room ch' = room ch \<and> live ch' = Suc (live ch) \<and> keeps_pos pos ch ch') \<and>
     (\<forall>ch rx. pos ch rx \<noteq> None \<longrightarrow> sent (bc_drop bc rx ch) = sent ch \<and> room (bc_drop bc rx ch) = room ch \<and>
        live (bc_drop bc rx ch) = live ch - 1 \<and> keeps_pos pos ch (bc_drop bc rx ch)) \<and>
     (\<forall>ch rx p. pos ch rx = Some p \<longrightarrow> p \<le> length (sent ch) \<and>
        (if p = length (sent ch) then bc_recv bc ch rx = (None, rx)
         else if length (sent ch) \<le> p + room ch
         then \<exists>rx'. bc_recv bc ch rx = (Some (Received (sent ch ! p)), rx') \<and> pos ch rx' = Some (Suc p)
         else \<exists>rx'. bc_recv bc ch rx = (Some (Lagged (length (sent ch) - room ch - p)), rx') \<and>
           pos ch rx' = Some (length (sent ch) - room ch)))"

subsection \<open>The scheduler's end\<close>

record 'ch scheduler =
  sch_cfg :: scheduler_config
  sch_events :: 'ch

record 'ch scheduler_handle =
  sh_events :: 'ch

text \<open>The receiver that comes with the channel is not bound, so it is dropped.\<close>

definition scheduler_new :: "('ch, 'rx) broadcast \<Rightarrow> scheduler_config \<Rightarrow> 'ch scheduler kernel_result" where
  "scheduler_new bc cfg =
     and_then (bc_channel bc (sc_event_buffer cfg)) (\<lambda>(events, rx).
       Ok \<lparr>sch_cfg = cfg, sch_events = bc_drop bc rx events\<rparr>)"

text \<open>A clone of a sender is a sender of the same channel.\<close>

definition handle :: "'ch scheduler \<Rightarrow> 'ch scheduler_handle" where
  "handle s = \<lparr>sh_events = sch_events s\<rparr>"

subsection \<open>Sending and reading\<close>

text \<open>
  One receiver over time: the scheduler sends, the subscriber asks for the next value. Asking when
  there is none makes the subscriber wait, which yields nothing.
\<close>

datatype bus_action = Publish kernel_event | Poll

fun bus_run :: "('ch, 'rx) broadcast \<Rightarrow> bus_action list \<Rightarrow> 'ch \<Rightarrow> 'rx \<Rightarrow> received list" where
  "bus_run bc [] ch rx = []"
| "bus_run bc (Publish ev # acts) ch rx = bus_run bc acts (snd (bc_send bc ev ch)) rx"
| "bus_run bc (Poll # acts) ch rx =
     (case bc_recv bc ch rx of
        (None, rx') \<Rightarrow> bus_run bc acts ch rx'
      | (Some r, rx') \<Rightarrow> r # bus_run bc acts ch rx')"

fun published :: "bus_action list \<Rightarrow> kernel_event list" where
  "published [] = []"
| "published (Publish ev # acts) = ev # published acts"
| "published (Poll # acts) = published acts"

fun polls :: "bus_action list \<Rightarrow> nat" where
  "polls [] = 0"
| "polls (Publish ev # acts) = polls acts"
| "polls (Poll # acts) = Suc (polls acts)"

lemma published_append [simp]: "published (as @ bs) = published as @ published bs"
  by (induction as rule: published.induct) simp_all

lemma published_polls [simp]: "published (replicate n Poll) = []"
  by (induction n) simp_all

lemma broadcast_lawsD:
  assumes "broadcast_laws bc sent room live pos"
  shows "n = 0 \<or> usize_max div 2 < unat n \<Longrightarrow> \<exists>p. bc_channel bc n = Panic p"
    and "n \<noteq> 0 \<Longrightarrow> unat n \<le> usize_max div 2 \<Longrightarrow> \<exists>ch rx. bc_channel bc n = Ok (ch, rx) \<and> sent ch = [] \<and>
      unat n \<le> room ch \<and> live ch = 1 \<and> pos ch rx = Some 0"
    and "0 < live ch \<Longrightarrow> \<exists>ch'. bc_send bc ev ch = (True, ch') \<and> sent ch' = sent ch @ [ev] \<and> room ch' = room ch \<and>
      live ch' = live ch \<and> keeps_pos pos ch ch'"
    and "live ch = 0 \<Longrightarrow> bc_send bc ev ch = (False, ch)"
    and "bc_subscribe bc ch = (rx, ch') \<Longrightarrow> pos ch' rx = Some (length (sent ch)) \<and> sent ch' = sent ch \<and>
      room ch' = room ch \<and> live ch' = Suc (live ch) \<and> keeps_pos pos ch ch'"
    and "pos ch rx = Some p \<Longrightarrow> sent (bc_drop bc rx ch) = sent ch \<and> room (bc_drop bc rx ch) = room ch \<and>
      live (bc_drop bc rx ch) = live ch - 1 \<and> keeps_pos pos ch (bc_drop bc rx ch)"
    and "pos ch rx = Some p \<Longrightarrow> p \<le> length (sent ch)"
    and "pos ch rx = Some (length (sent ch)) \<Longrightarrow> bc_recv bc ch rx = (None, rx)"
    and "pos ch rx = Some p \<Longrightarrow> p < length (sent ch) \<Longrightarrow> length (sent ch) \<le> p + room ch \<Longrightarrow>
      \<exists>rx'. bc_recv bc ch rx = (Some (Received (sent ch ! p)), rx') \<and> pos ch rx' = Some (Suc p)"
proof -
  have channel: "if n = 0 \<or> usize_max div 2 < unat n then \<exists>p. bc_channel bc n = Panic p
      else \<exists>ch rx. bc_channel bc n = Ok (ch, rx) \<and> sent ch = [] \<and> unat n \<le> room ch \<and>
        live ch = 1 \<and> pos ch rx = Some 0" for n
    using assms unfolding broadcast_laws_def by blast
  show "n = 0 \<or> usize_max div 2 < unat n \<Longrightarrow> \<exists>p. bc_channel bc n = Panic p"
    using channel [of n] by simp
  show "n \<noteq> 0 \<Longrightarrow> unat n \<le> usize_max div 2 \<Longrightarrow> \<exists>ch rx. bc_channel bc n = Ok (ch, rx) \<and> sent ch = [] \<and>
      unat n \<le> room ch \<and> live ch = 1 \<and> pos ch rx = Some 0"
    using channel [of n] by simp
  have send: "if live ch = 0 then bc_send bc ev ch = (False, ch)
      else \<exists>ch'. bc_send bc ev ch = (True, ch') \<and> sent ch' = sent ch @ [ev] \<and> room ch' = room ch \<and>
        live ch' = live ch \<and> keeps_pos pos ch ch'"
    using assms unfolding broadcast_laws_def by blast
  show "0 < live ch \<Longrightarrow> \<exists>ch'. bc_send bc ev ch = (True, ch') \<and> sent ch' = sent ch @ [ev] \<and> room ch' = room ch \<and>
      live ch' = live ch \<and> keeps_pos pos ch ch'" and "live ch = 0 \<Longrightarrow> bc_send bc ev ch = (False, ch)"
    using send by simp_all
  show "bc_subscribe bc ch = (rx, ch') \<Longrightarrow> pos ch' rx = Some (length (sent ch)) \<and> sent ch' = sent ch \<and>
      room ch' = room ch \<and> live ch' = Suc (live ch) \<and> keeps_pos pos ch ch'"
    using assms unfolding broadcast_laws_def by (metis prod.inject)
  show "pos ch rx = Some p \<Longrightarrow> sent (bc_drop bc rx ch) = sent ch \<and> room (bc_drop bc rx ch) = room ch \<and>
      live (bc_drop bc rx ch) = live ch - 1 \<and> keeps_pos pos ch (bc_drop bc rx ch)"
    using assms unfolding broadcast_laws_def by (metis option.distinct(1))
  have recv: "pos ch rx = Some p \<Longrightarrow> p \<le> length (sent ch) \<and>
      (if p = length (sent ch) then bc_recv bc ch rx = (None, rx)
       else if length (sent ch) \<le> p + room ch
       then \<exists>rx'. bc_recv bc ch rx = (Some (Received (sent ch ! p)), rx') \<and> pos ch rx' = Some (Suc p)
       else \<exists>rx'. bc_recv bc ch rx = (Some (Lagged (length (sent ch) - room ch - p)), rx') \<and>
         pos ch rx' = Some (length (sent ch) - room ch))" for p
    using assms unfolding broadcast_laws_def by blast
  show "pos ch rx = Some p \<Longrightarrow> p \<le> length (sent ch)" using recv by blast
  show "pos ch rx = Some (length (sent ch)) \<Longrightarrow> bc_recv bc ch rx = (None, rx)"
    using recv [of "length (sent ch)"] by simp
  show "pos ch rx = Some p \<Longrightarrow> p < length (sent ch) \<Longrightarrow> length (sent ch) \<le> p + room ch \<Longrightarrow>
      \<exists>rx'. bc_recv bc ch rx = (Some (Received (sent ch ! p)), rx') \<and> pos ch rx' = Some (Suc p)"
    using recv [of p] by simp
qed

lemma drop_next: "i < length xs \<Longrightarrow> drop i (xs @ ys) = xs ! i # drop (Suc i) (xs @ ys)"
  using Cons_nth_drop_Suc [of i "xs @ ys"] by (simp add: nth_append)

text \<open>With room for what is sent, the subscriber reads without a gap, and can read all of it.\<close>

lemma bus_run_reads:
  assumes laws: "broadcast_laws bc sent room live pos"
  shows "pos ch rx = Some p \<Longrightarrow> 0 < live ch \<Longrightarrow> length (sent ch) + length (published acts) \<le> p + room ch \<Longrightarrow>
    \<exists>n \<le> polls acts. bus_run bc acts ch rx = map Received (take n (drop p (sent ch @ published acts)))"
proof (induction acts arbitrary: ch rx p)
  case (Cons a acts)
  note bus = broadcast_lawsD [OF laws]
  show ?case
  proof (cases a)
    case (Publish ev)
    from bus(3) [OF Cons.prems(2), of ev] obtain ch' where ch':
      "bc_send bc ev ch = (True, ch')" "sent ch' = sent ch @ [ev]" "room ch' = room ch" "live ch' = live ch"
      "pos ch' rx = Some p"
      using Cons.prems(1) by (auto simp: keeps_pos_def)
    show ?thesis using Cons.IH [OF ch'(5)] Cons.prems ch' by (simp add: Publish)
  next
    case Poll
    note le = bus(7) [OF Cons.prems(1)]
    show ?thesis
    proof (cases "p = length (sent ch)")
      case True
      from Cons.IH [OF Cons.prems(1,2)] Cons.prems Poll obtain n where "n \<le> polls acts"
        "bus_run bc acts ch rx = map Received (take n (drop p (sent ch @ published acts)))" by auto
      then show ?thesis
        using bus(8) [of ch rx] Cons.prems(1) True by (intro exI [where x = n]) (simp add: Poll)
    next
      case False
      with le have lt: "p < length (sent ch)" by simp
      have "length (sent ch) \<le> p + room ch" using Cons.prems(3) by simp
      from bus(9) [OF Cons.prems(1) lt this] obtain rx' where
        rx': "bc_recv bc ch rx = (Some (Received (sent ch ! p)), rx')" "pos ch rx' = Some (Suc p)" by blast
      from Cons.IH [OF rx'(2) Cons.prems(2)] Cons.prems(3) lt Poll obtain n where n: "n \<le> polls acts"
        "bus_run bc acts ch rx' = map Received (take n (drop (Suc p) (sent ch @ published acts)))" by auto
      then show ?thesis
        using drop_next [OF lt, of "published acts"] by (intro exI [where x = "Suc n"]) (simp add: Poll rx'(1))
    qed
  qed
qed simp

lemma bus_run_drains:
  assumes laws: "broadcast_laws bc sent room live pos"
  shows "pos ch rx = Some p \<Longrightarrow> 0 < live ch \<Longrightarrow> length (sent ch) + length (published acts) \<le> p + room ch \<Longrightarrow>
    length (sent ch @ published acts) - p \<le> k \<Longrightarrow>
    bus_run bc (acts @ replicate k Poll) ch rx = map Received (drop p (sent ch @ published acts))"
proof (induction acts arbitrary: ch rx p)
  case Nil
  note bus = broadcast_lawsD [OF laws]
  have "pos ch rx = Some p \<Longrightarrow> length (sent ch) - p \<le> k \<Longrightarrow> length (sent ch) \<le> p + room ch \<Longrightarrow>
      bus_run bc (replicate k Poll) ch rx = map Received (drop p (sent ch))" for k rx p
  proof (induction k arbitrary: rx p)
    case 0
    with bus(7) [OF 0(1)] show ?case by simp
  next
    case (Suc k)
    note le = bus(7) [OF Suc.prems(1)]
    show ?case
    proof (cases "p = length (sent ch)")
      case True
      with Suc bus(8) [of ch rx] show ?thesis by simp
    next
      case False
      with le have lt: "p < length (sent ch)" by simp
      from bus(9) [OF Suc.prems(1) lt Suc.prems(3)] obtain rx' where
        rx': "bc_recv bc ch rx = (Some (Received (sent ch ! p)), rx')" "pos ch rx' = Some (Suc p)" by blast
      with Suc.IH [OF rx'(2)] Suc.prems lt drop_next [OF lt, of "[]"] show ?thesis by simp
    qed
  qed
  with Nil show ?case by simp
next
  case (Cons a acts)
  note bus = broadcast_lawsD [OF laws]
  show ?case
  proof (cases a)
    case (Publish ev)
    from bus(3) [OF Cons.prems(2), of ev] obtain ch' where ch':
      "bc_send bc ev ch = (True, ch')" "sent ch' = sent ch @ [ev]" "room ch' = room ch" "live ch' = live ch"
      "pos ch' rx = Some p"
      using Cons.prems(1) by (auto simp: keeps_pos_def)
    show ?thesis using Cons.IH [OF ch'(5)] Cons.prems ch' by (simp add: Publish)
  next
    case Poll
    note le = bus(7) [OF Cons.prems(1)]
    show ?thesis
    proof (cases "p = length (sent ch)")
      case True
      from Cons.IH [OF Cons.prems(1,2)] Cons.prems Poll bus(8) [of ch rx] True show ?thesis by simp
    next
      case False
      with le have lt: "p < length (sent ch)" by simp
      have "length (sent ch) \<le> p + room ch" using Cons.prems(3) by simp
      from bus(9) [OF Cons.prems(1) lt this] obtain rx' where
        rx': "bc_recv bc ch rx = (Some (Received (sent ch ! p)), rx')" "pos ch rx' = Some (Suc p)" by blast
      with Cons.IH [OF rx'(2) Cons.prems(2)] Cons.prems lt Poll drop_next [OF lt, of "published acts"]
      show ?thesis by simp
    qed
  qed
qed

subsection \<open>How many events a run sends\<close>

fun is_start :: "kernel_event \<Rightarrow> bool" where
  "is_start (WorkflowStarted w n) = True"
| "is_start _ = False"

text \<open>The field \<open>workflow_id\<close>, which every variant has.\<close>

fun event_workflow :: "kernel_event \<Rightarrow> uuid" where
  "event_workflow (WorkflowStarted w n) = w"
| "event_workflow (NodeStarted w n a) = w"
| "event_workflow (NodeCompleted w n out) = w"
| "event_workflow (WorkflowCompleted w h) = w"
| "event_workflow (WorkflowFailed w r) = w"

text \<open>Every event is one of four kinds.\<close>

lemma length_log:
  "length evs = length (filter is_start evs) + length (started_ids evs) + length (completed_ids evs) +
     length (filter is_final evs)"
proof (induction evs)
  case (Cons ev evs)
  then show ?case by (cases ev) (simp_all add: started_ids_def completed_ids_def List.map_filter_simps)
qed (simp add: started_ids_def completed_ids_def)

lemma log_step:
  assumes inv: "sched_inv x d factory R st" and step: "sched_step x d factory R st st'"
  obtains evs where "s_log st' = s_log st @ evs" and "filter is_start evs = []"
    and "set (started_ids evs) \<subseteq> node_ids d" and "event_workflow ` set evs \<subseteq> {dag_id d}"
  using step
proof (cases rule: sched_step_cases [consumes 1])
  case 1
  then have core: "sched_core x d factory st" "bt_wf (dag_nodes d)" using inv by (simp_all add: sched_inv_def)
  have "set (s_ready st) \<subseteq> node_ids d" using core(1) by (auto simp: sched_core_def active_def reached_def)
  then show ?thesis
    by (intro that [of "map (\<lambda>i. NodeStarted (dag_id d) i 1) (s_ready st)"])
      (auto simp: 1(1) sched_core_dispatch(1) [OF core 1(3)] filter_empty_conv)
next
  case (2 pre v node input post trace res)
  then have core: "sched_core x d factory st" and known: "targets_known d"
    using inv by (simp_all add: sched_inv_def)
  show ?thesis
  proof (cases res)
    case (Ok out)
    obtain st2 where "complete x d v out (st\<lparr>s_inflight := pre @ post\<rparr>) = Ok st2"
      and log: "s_log st2 = s_log st @ [NodeCompleted (dag_id d) v
        (Success (hash_json x (out_value out)) (out_gas_used out))]"
      by (rule sched_core_complete [OF core known 2(3)])
    then have "s_log st' = s_log st2" by (simp add: 2(1) Ok settle_def continue_def)
    then show ?thesis
      using log by (intro that [of "[NodeCompleted (dag_id d) v
        (Success (hash_json x (out_value out)) (out_gas_used out))]"]) simp_all
  next
    case (Err e)
    then show ?thesis
      by (intro that [of "[WorkflowFailed (dag_id d) (error_to_string e)]"])
        (simp_all add: 2(1) settle_def stopped_def)
  next
    case (Panic p)
    with 2(5) show ?thesis by simp
  qed
next
  case 3
  let ?h = "hash_json_map x (s_outputs st)"
  show ?thesis
  proof (cases "bt_len (s_outputs st) = bt_len (dag_nodes d)")
    case True
    then show ?thesis
      by (intro that [of "[WorkflowCompleted (dag_id d) ?h]"]) (simp_all add: 3(1) finish_def stopped_def Let_def)
  next
    case False
    then show ?thesis by (intro that [of "[]"]) (simp_all add: 3(1) finish_def stopped_def)
  qed
qed

lemma log_starts:
  fixes st :: "('a, 'n) sched"
  assumes "targets_known d" and "bt_wf (dag_nodes d)"
    and steps: "(sched_step x d factory R)\<^sup>*\<^sup>* (sched_init d) st"
  shows "length (filter is_start (s_log st)) = 1 \<and> set (started_ids (s_log st)) \<subseteq> node_ids d \<and>
    event_workflow ` set (s_log st) \<subseteq> {dag_id d}"
  using steps
proof (induction rule: rtranclp_induct)
  case base
  obtain indeg where "(sched_init d :: ('a, 'n) sched) =
      \<lparr>s_indeg = indeg, s_outputs = bt_new, s_ready = zero_indeg indeg, s_inflight = [],
       s_log = [WorkflowStarted (dag_id d) (dag_name d)], s_status = None\<rparr>"
    by (rule sched_core_init [OF assms(1), where x = x and factory = factory])
  then show ?case by simp
next
  case (step st st')
  obtain evs where "s_log st' = s_log st @ evs" "filter is_start evs = []" "set (started_ids evs) \<subseteq> node_ids d"
    "event_workflow ` set evs \<subseteq> {dag_id d}"
    by (rule log_step [OF reachable_sched_inv [OF assms(1,2) step.hyps(1)] step.hyps(2)])
  with step.IH show ?case by (simp add: image_Un)
qed

lemma run_log_length:
  assumes "targets_known d" and "bt_wf (dag_nodes d)"
    and steps: "(sched_step x d factory R)\<^sup>*\<^sup>* (sched_init d) st"
  shows "length (s_log st) \<le> 2 * bt_len (dag_nodes d) + 2"
proof -
  have inv: "sched_inv x d factory R st" by (rule reachable_sched_inv [OF assms])
  then have log: "log_ok x d st" and out: "dom (bt_get (s_outputs st)) \<subseteq> node_ids d"
    by (auto simp: sched_inv_def reached_def)
  note starts = log_starts [OF assms]
  have card: "card (node_ids d) = bt_len (dag_nodes d)"
    using bt_len_card [OF assms(2)] by (simp add: node_ids_def)
  have fin: "finite (node_ids d)" by (simp add: node_ids_def bt_get_map_of finite_dom_map_of)
  have "length (started_ids (s_log st)) \<le> bt_len (dag_nodes d)"
    using log starts card_mono [OF fin, of "set (started_ids (s_log st))"] card
    by (simp add: log_ok_def distinct_card)
  moreover have "length (completed_ids (s_log st)) \<le> bt_len (dag_nodes d)"
    using log out card_mono [OF fin, of "set (completed_ids (s_log st))"] card
    distinct_card [of "completed_ids (s_log st)"]
    by (simp add: log_ok_def)
  moreover have "length (filter is_final (s_log st)) \<le> 1"
  proof (cases "s_status st")
    case None
    then show ?thesis using inv by (simp add: sched_inv_def)
  next
    case (Some r)
    then have "result_ok x d factory R (s_outputs st) (s_log st) r" using inv by (simp add: sched_inv_def)
    then show ?thesis by (cases r) auto
  qed
  ultimately show ?thesis using starts length_log [of "s_log st"] by simp
qed

subsection \<open>A channel that keeps everything\<close>

text \<open>
  An instance at which the properties are applied: the values sent, the room, and the number of
  receivers; a receiver is its position.
\<close>

definition demo_bus :: "(kernel_event list \<times> nat \<times> nat, nat) broadcast" where
  "demo_bus =
     \<lparr>bc_channel = (\<lambda>n. if n = 0 \<or> usize_max div 2 < unat n then Panic Explicit_Panic
        else Ok (([], unat n, 1), 0)),
      bc_send = (\<lambda>ev (evs, room, live).
        if live = 0 then (False, (evs, room, live)) else (True, (evs @ [ev], room, live))),
      bc_subscribe = (\<lambda>(evs, room, live). (length evs, (evs, room, Suc live))),
      bc_drop = (\<lambda>i (evs, room, live). (evs, room, live - 1)),
      bc_recv = (\<lambda>(evs, room, live) i.
        if length evs \<le> i then (None, i)
        else if length evs \<le> i + room then (Some (Received (evs ! i)), Suc i)
        else (Some (Lagged (length evs - room - i)), length evs - room))\<rparr>"

definition demo_pos :: "kernel_event list \<times> nat \<times> nat \<Rightarrow> nat \<Rightarrow> nat option" where
  "demo_pos ch i = (if i \<le> length (fst ch) then Some i else None)"

lemma demo_bus_laws: "broadcast_laws demo_bus fst (fst \<circ> snd) (snd \<circ> snd) demo_pos"
  by (auto simp: broadcast_laws_def demo_bus_def keeps_pos_def demo_pos_def split: if_splits)

lemma demo_scheduler:
  "scheduler_new demo_bus default_scheduler_config =
     Ok \<lparr>sch_cfg = default_scheduler_config, sch_events = ([], 1024, 0)\<rparr>"
  "bc_subscribe demo_bus (sh_events (handle
     \<lparr>sch_cfg = default_scheduler_config, sch_events = ([], 1024, 0)\<rparr>)) = (0, ([], 1024, 1))"
  by (simp_all add: scheduler_new_def demo_bus_def default_scheduler_config_def handle_def usize_max_def)

lemma published_map [simp]: "published (map Publish evs) = evs"
  by (induction evs) simp_all

lemma event_stream_all: "event_stream ts (map Received evs) = map (dto_of ts) evs"
  using event_stream_received [of ts evs "[]"] by simp

text \<open>A subscriber that subscribed before anything was sent, with room for all that is sent.\<close>

lemma subscriber_reads:
  assumes laws: "broadcast_laws bc sent room live pos" and new: "scheduler_new bc cfg = Ok sch"
    and sub: "bc_subscribe bc (sh_events (handle sch)) = (rx, ch)"
    and acts: "published acts = evs" and fits: "length evs \<le> unat (sc_event_buffer cfg)"
  shows "\<exists>n. bus_run bc acts ch rx = map Received (take n evs)"
    and "bus_run bc (acts @ replicate (length evs) Poll) ch rx = map Received evs"
proof -
  note bus = broadcast_lawsD [OF laws]
  obtain ch0 rx0 where opened: "bc_channel bc (sc_event_buffer cfg) = Ok (ch0, rx0)"
    and sch: "sch_events sch = bc_drop bc rx0 ch0"
    using new by (auto simp: scheduler_new_def outcome_simps)
  then have cap: "\<not> (sc_event_buffer cfg = 0 \<or> usize_max div 2 < unat (sc_event_buffer cfg))"
    using bus(1) [of "sc_event_buffer cfg"] by auto
  with bus(2) [of "sc_event_buffer cfg"] opened
  have ch0: "unat (sc_event_buffer cfg) \<le> room ch0" "pos ch0 rx0 = Some 0" "sent ch0 = []" by auto
  have at: "pos ch rx = Some 0" "sent ch = []" "unat (sc_event_buffer cfg) \<le> room ch" "0 < live ch"
    using bus(5) [OF sub] bus(6) [OF ch0(2)] ch0 by (simp_all add: handle_def sch)
  have room: "length (sent ch) + length (published acts) \<le> 0 + room ch" using fits acts at by simp
  show "\<exists>n. bus_run bc acts ch rx = map Received (take n evs)"
    using bus_run_reads [OF laws at(1,4) room] acts at(2) by auto
  show "bus_run bc (acts @ replicate (length evs) Poll) ch rx = map Received evs"
    using bus_run_drains [OF laws at(1,4) room, of "length evs"] acts at(2) by simp
qed

subsection \<open>Properties of the bus\<close>

text \<open>
  A subscriber that subscribed before a run, whenever it reads, gets the events of the run in their
  order and without a gap, and all of them once it has read on after the end, if the buffer of
  the scheduler has room for two events per node and two more. The default buffer is enough for
  511 nodes.
\<close>

theorem subscriber_sees_run:
  assumes "broadcast_laws bc sent room live pos" and "scheduler_new bc cfg = Ok sch"
    and "bc_subscribe bc (sh_events (handle sch)) = (rx, ch)"
    and "targets_known d" and "bt_wf (dag_nodes d)"
    and "(sched_step x d factory R)\<^sup>*\<^sup>* (sched_init d) st"
    and "2 * bt_len (dag_nodes d) + 2 \<le> unat (sc_event_buffer cfg)"
    and "published acts = s_log st"
  shows "(\<exists>n. event_stream ts (bus_run bc acts ch rx) = map (dto_of ts) (take n (s_log st))) \<and>
    event_stream ts (bus_run bc (acts @ replicate (length (s_log st)) Poll) ch rx) = map (dto_of ts) (s_log st)"
proof -
  have "length (s_log st) \<le> unat (sc_event_buffer cfg)" using run_log_length [OF assms(4-6)] assms(7) by simp
  from subscriber_reads [OF assms(1-3,8) this] show ?thesis by (auto simp: event_stream_all)
qed

theorem subscriber_sees_run_witness:
  "event_stream (\<lambda>ev. None) (bus_run demo_bus (map Publish (s_log (sample_run True (\<lambda>n. n))) @
      replicate (length (s_log (sample_run True (\<lambda>n. n)))) Poll) ([], 1024, 1) 0) =
    map (dto_of (\<lambda>ev. None)) (s_log (sample_run True (\<lambda>n. n)))"
proof -
  have room: "2 * bt_len (dag_nodes e2e_dag) + 2 \<le> unat (sc_event_buffer default_scheduler_config)"
    by (simp add: e2e_nodes bt_len_def default_scheduler_config_def)
  show ?thesis
    using subscriber_sees_run [OF demo_bus_laws demo_scheduler closed_targets [OF e2e_closed(1)] e2e_wf(1)
        sample_steps room published_map, of "\<lambda>ev. None"] by blast
qed

text \<open>
  The number of events of a run: at most two per node and two for the workflow, whatever happens.
\<close>

theorem run_events_bounded:
  assumes "targets_known d" and "bt_wf (dag_nodes d)"
    and "(sched_step x d factory R)\<^sup>*\<^sup>* (sched_init d) st"
  shows "length (s_log st) \<le> 2 * bt_len (dag_nodes d) + 2"
  by (rule run_log_length [OF assms])

theorem run_events_bounded_witness:
  "length (s_log (sample_run True (\<lambda>n. n))) \<le> 10"
  using run_events_bounded [OF closed_targets [OF e2e_closed(1)] e2e_wf(1) sample_steps, of True "\<lambda>n. n"]
  by (simp add: e2e_nodes bt_len_def)

text \<open>
  A scheduler can be made exactly if its buffer is neither empty nor above half of what a \<open>usize\<close>
  holds: for any other \<open>event_buffer\<close>, zero among them, \<open>Scheduler::new\<close> panics.
\<close>

theorem scheduler_new_iff:
  assumes "broadcast_laws bc sent room live pos"
  shows "(\<exists>sch. scheduler_new bc cfg = Ok sch) \<longleftrightarrow>
      sc_event_buffer cfg \<noteq> 0 \<and> unat (sc_event_buffer cfg) \<le> (2 ^ 64 - 1) div 2"
proof (cases "sc_event_buffer cfg = 0 \<or> usize_max div 2 < unat (sc_event_buffer cfg)")
  case True
  with broadcast_lawsD(1) [OF assms, OF True] show ?thesis
    by (auto simp: scheduler_new_def outcome_simps usize_max_def)
next
  case False
  with broadcast_lawsD(2) [OF assms, of "sc_event_buffer cfg"] show ?thesis
    by (auto simp: scheduler_new_def usize_max_def)
qed

theorem scheduler_new_iff_witness:
  "\<not> (\<exists>sch. scheduler_new demo_bus (default_scheduler_config\<lparr>sc_event_buffer := 0\<rparr>) = Ok sch) \<and>
   \<not> (\<exists>sch. scheduler_new demo_bus (default_scheduler_config\<lparr>sc_event_buffer := 0xFFFFFFFFFFFFFFFF\<rparr>) = Ok sch)"
  using scheduler_new_iff [OF demo_bus_laws, of "default_scheduler_config\<lparr>sc_event_buffer := 0\<rparr>"]
    scheduler_new_iff [OF demo_bus_laws, of "default_scheduler_config\<lparr>sc_event_buffer := 0xFFFFFFFFFFFFFFFF\<rparr>"]
  by simp

end
