(* ===== verification/Concurrent_Runs.thy ===== *)
theory Concurrent_Runs
  imports System_Runs Event_Bus
begin

section \<open>Several runs on one scheduler\<close>

text \<open>
  \<open>Scheduler::run\<close> takes \<open>&self\<close>, so several calls of it may be under way on one scheduler. Each has
  local state, actors, executor and breaker of its own; what they share is the sender of the event
  channel. A step begins a run, moves one task of one run, or calls \<open>send\<close> with the next event of
  one run; \<open>fl_bus\<close> lists these calls, whose results the code ignores. With a receiver on the
  channel each of them sends its event (theory \<open>Event_Bus\<close>). The calls come one at a time, with any
  other run in between; but a scheduler future goes on
  only when all its events so far have been sent, and its tasks may move meanwhile.
\<close>

subsection \<open>State and steps\<close>

text \<open>The calls of \<open>run\<close>: the workflow and the node factory of each.\<close>

type_synonym ('p, 'a, 'n) job = "('p, 'n) dag \<times> (node_id \<Rightarrow> 'p \<Rightarrow> 'a)"

record ('a, 'n) fleet =
  fl_runs :: "nat \<Rightarrow> ('a, 'n) system option"
  fl_sent :: "nat \<Rightarrow> nat"
  fl_bus :: "kernel_event list"

definition fleet_init :: "('a, 'n) fleet" where
  "fleet_init = \<lparr>fl_runs = (\<lambda>k. None), fl_sent = (\<lambda>k. 0), fl_bus = []\<rparr>"

inductive fleet_step :: "'n ext \<Rightarrow> ('p, 'a, 'n) job list \<Rightarrow> resilience_config \<Rightarrow>
    ('a, 'n) node_behaviour \<Rightarrow> ('a, 'n) fleet \<Rightarrow> ('a, 'n) fleet \<Rightarrow> bool"
  for x jobs cfg behaves where
  fleet_begin:
    "k < length jobs \<Longrightarrow> fl_runs s k = None \<Longrightarrow>
     fleet_step x jobs cfg behaves s (s\<lparr>fl_runs := (fl_runs s)(k \<mapsto> sys_init cfg (fst (jobs ! k)))\<rparr>)"
| fleet_send:
    "fl_runs s k = Some r \<Longrightarrow> fl_sent s k < length (s_log (sys_sched r)) \<Longrightarrow>
     fleet_step x jobs cfg behaves s
       (s\<lparr>fl_sent := (fl_sent s)(k := Suc (fl_sent s k)),
          fl_bus := fl_bus s @ [s_log (sys_sched r) ! fl_sent s k]\<rparr>)"
| fleet_move:
    "fl_runs s k = Some r \<Longrightarrow>
     sys_step x (fst (jobs ! k)) (snd (jobs ! k)) cfg behaves r r' \<Longrightarrow>
     fl_sent s k = length (s_log (sys_sched r)) \<or>
       (sys_sched r' = sys_sched r \<and> sys_sent r' = sys_sent r) \<Longrightarrow>
     fleet_step x jobs cfg behaves s (s\<lparr>fl_runs := (fl_runs s)(k \<mapsto> r')\<rparr>)"

inductive_cases fleet_step_cases: "fleet_step x jobs cfg behaves s t"

definition run_log :: "('a, 'n) fleet \<Rightarrow> nat \<Rightarrow> kernel_event list" where
  "run_log s k = (case fl_runs s k of None \<Rightarrow> [] | Some r \<Rightarrow> s_log (sys_sched r))"

definition own_events :: "uuid \<Rightarrow> kernel_event list \<Rightarrow> kernel_event list" where
  "own_events w evs = filter (\<lambda>ev. event_workflow ev = w) evs"

lemma own_events_append [simp]: "own_events w (evs @ evs') = own_events w evs @ own_events w evs'"
  by (simp add: own_events_def)

subsection \<open>The invariant\<close>

definition jobs_ok :: "('p, 'a, 'n) job list \<Rightarrow> bool" where
  "jobs_ok jobs \<longleftrightarrow> (\<forall>k < length jobs. targets_known (fst (jobs ! k)) \<and> bt_wf (dag_nodes (fst (jobs ! k))))"

definition job_ids :: "('p, 'a, 'n) job list \<Rightarrow> uuid list" where
  "job_ids jobs = map (\<lambda>job. dag_id (fst job)) jobs"

definition fleet_start :: "('p, 'a, 'n) job list \<Rightarrow> ('a, 'n) fleet \<Rightarrow> bool" where
  "fleet_start jobs s \<longleftrightarrow> jobs_ok jobs \<and> s = fleet_init"

definition fleet_inv :: "'n ext \<Rightarrow> ('p, 'a, 'n) job list \<Rightarrow> resilience_config \<Rightarrow>
    ('a, 'n) node_behaviour \<Rightarrow> ('a, 'n) fleet \<Rightarrow> bool" where
  "fleet_inv x jobs cfg behaves s \<longleftrightarrow> jobs_ok jobs \<and>
     (\<forall>k r. fl_runs s k = Some r \<longrightarrow> k < length jobs \<and>
        (sys_step x (fst (jobs ! k)) (snd (jobs ! k)) cfg behaves)\<^sup>*\<^sup>* (sys_init cfg (fst (jobs ! k))) r) \<and>
     (\<forall>k. fl_sent s k \<le> length (run_log s k)) \<and>
     length (fl_bus s) = sum (fl_sent s) {..< length jobs} \<and>
     (distinct (job_ids jobs) \<longrightarrow>
        (\<forall>k < length jobs. own_events (dag_id (fst (jobs ! k))) (fl_bus s) = take (fl_sent s k) (run_log s k)))"

lemma fleet_invD:
  assumes "fleet_inv x jobs cfg behaves s" and "fl_runs s k = Some r"
  shows "k < length jobs" and "targets_known (fst (jobs ! k))" and "bt_wf (dag_nodes (fst (jobs ! k)))"
    and "(sys_step x (fst (jobs ! k)) (snd (jobs ! k)) cfg behaves)\<^sup>*\<^sup>* (sys_init cfg (fst (jobs ! k))) r"
    and "sys_inv x (fst (jobs ! k)) (snd (jobs ! k)) cfg behaves r"
    and "fl_sent s k \<le> length (s_log (sys_sched r))"
proof -
  show k: "k < length jobs"
    and steps: "(sys_step x (fst (jobs ! k)) (snd (jobs ! k)) cfg behaves)\<^sup>*\<^sup>* (sys_init cfg (fst (jobs ! k))) r"
    using assms unfolding fleet_inv_def by blast+
  show ok: "targets_known (fst (jobs ! k))" "bt_wf (dag_nodes (fst (jobs ! k)))"
    using assms(1) k by (simp_all add: fleet_inv_def jobs_ok_def)
  show "sys_inv x (fst (jobs ! k)) (snd (jobs ! k)) cfg behaves r" by (rule sys_reach(1) [OF ok steps])
  have "fl_sent s k \<le> length (run_log s k)" using assms(1) by (simp add: fleet_inv_def)
  then show "fl_sent s k \<le> length (s_log (sys_sched r))" by (simp add: run_log_def assms(2))
qed

text \<open>What a run has logged carries the id of its workflow, and is at most two events per node and two.\<close>

lemma fleet_log:
  assumes "fleet_inv x jobs cfg behaves s" and "fl_runs s k = Some r"
  shows "event_workflow ` set (s_log (sys_sched r)) \<subseteq> {dag_id (fst (jobs ! k))}"
    and "length (s_log (sys_sched r)) \<le> 2 * bt_len (dag_nodes (fst (jobs ! k))) + 2"
proof -
  note inv = fleet_invD [OF assms]
  note steps = sys_sched_steps [OF inv(2-4)]
  show "event_workflow ` set (s_log (sys_sched r)) \<subseteq> {dag_id (fst (jobs ! k))}"
    using log_starts [OF inv(2,3) steps] by blast
  show "length (s_log (sys_sched r)) \<le> 2 * bt_len (dag_nodes (fst (jobs ! k))) + 2"
    by (rule run_log_length [OF inv(2,3) steps])
qed

lemma sys_step_log:
  assumes inv: "sys_inv x d factory cfg behaves s" and step: "sys_step x d factory cfg behaves s t"
  shows "\<exists>evs. s_log (sys_sched t) = s_log (sys_sched s) @ evs"
proof (cases "sys_sched t = sys_sched s")
  case False
  then have "sched_step x d factory (actor_call cfg (timed behaves)) (sys_sched s) (sys_sched t)"
    using sys_simulates [OF inv step] by blast
  then show ?thesis using log_step [OF sys_invD(1) [OF inv]] by metis
qed simp

lemma sum_bump: "finite A \<Longrightarrow> k \<in> A \<Longrightarrow> sum (f(k := Suc (f k))) A = Suc (sum f A)"
  by (simp add: sum.remove)

lemma fleet_inv_step:
  fixes s t :: "('a, 'n) fleet"
  assumes inv: "fleet_inv x jobs cfg behaves s" and step: "fleet_step x jobs cfg behaves s t"
  shows "fleet_inv x jobs cfg behaves t"
  using step
proof (cases rule: fleet_step_cases [consumes 1])
  case (1 k)
  have "fl_sent s k = 0" using inv 1(3) by (auto simp: fleet_inv_def run_log_def dest: spec [of _ k])
  then show ?thesis using inv 1(2) by (auto simp: fleet_inv_def 1(1) run_log_def)
next
  case (2 k r)
  let ?ev = "s_log (sys_sched r) ! fl_sent s k"
  note k = fleet_invD(1) [OF inv 2(2)]
  have ev: "event_workflow ?ev = dag_id (fst (jobs ! k))"
    using fleet_log(1) [OF inv 2(2)] nth_mem [OF 2(3)] by blast
  have "own_events (dag_id (fst (jobs ! j))) (fl_bus t) = take (fl_sent t j) (run_log t j)"
    if ids: "distinct (job_ids jobs)" and j: "j < length jobs" for j
  proof (cases "j = k")
    case True
    then show ?thesis
      using inv ids j ev 2(3) by (simp add: fleet_inv_def 2(1,2) run_log_def own_events_def take_Suc_conv_app_nth)
  next
    case False
    then have "dag_id (fst (jobs ! j)) \<noteq> dag_id (fst (jobs ! k))"
      using ids j k by (simp add: job_ids_def distinct_conv_nth)
    then show ?thesis using inv ids j False ev by (simp add: fleet_inv_def 2(1) run_log_def own_events_def)
  qed
  moreover have "length (fl_bus t) = sum (fl_sent t) {..< length jobs}"
    using inv sum_bump [of "{..< length jobs}" k "fl_sent s"] k by (simp add: fleet_inv_def 2(1))
  ultimately show ?thesis using inv 2(2,3) by (auto simp: fleet_inv_def 2(1) run_log_def)
next
  case (3 k r r')
  note I = fleet_invD [OF inv 3(2)]
  obtain evs where evs: "s_log (sys_sched r') = s_log (sys_sched r) @ evs"
    using sys_step_log [OF I(5) 3(3)] by blast
  have log: "take (fl_sent s k) (s_log (sys_sched r')) = take (fl_sent s k) (s_log (sys_sched r))"
    using I(6) by (simp add: evs)
  have "(sys_step x (fst (jobs ! k)) (snd (jobs ! k)) cfg behaves)\<^sup>*\<^sup>* (sys_init cfg (fst (jobs ! k))) r'"
    using I(4) 3(3) by (rule rtranclp.rtrancl_into_rtrancl)
  then show ?thesis using inv I(1,6) log 3(2) by (auto simp: fleet_inv_def 3(1) run_log_def evs)
qed

text \<open>All runs together send at most two events per node and two per run.\<close>

lemma fleet_bus_length:
  assumes inv: "fleet_inv x jobs cfg behaves s"
  shows "length (fl_bus s) \<le> (\<Sum>(d, factory) \<leftarrow> jobs. 2 * bt_len (dag_nodes d) + 2)"
proof -
  have "fl_sent s k \<le> 2 * bt_len (dag_nodes (fst (jobs ! k))) + 2" for k
  proof (cases "fl_runs s k")
    case None
    have "fl_sent s k \<le> length (run_log s k)" using inv by (simp add: fleet_inv_def)
    then show ?thesis by (simp add: run_log_def None)
  next
    case (Some r)
    show ?thesis using fleet_invD(6) [OF inv Some] fleet_log(2) [OF inv Some] by simp
  qed
  then have "sum (fl_sent s) {..< length jobs} \<le> (\<Sum>k < length jobs. 2 * bt_len (dag_nodes (fst (jobs ! k))) + 2)"
    by (intro sum_mono) blast
  also have "\<dots> = (\<Sum>(d, factory) \<leftarrow> jobs. 2 * bt_len (dag_nodes d) + 2)"
    by (simp add: sum_list_sum_nth case_prod_beta' atLeast0LessThan)
  finally show ?thesis using inv by (simp add: fleet_inv_def)
qed

subsection \<open>Every step lowers the rank\<close>

definition job_rank :: "('p, 'n) dag \<Rightarrow> ('a, 'n) fleet \<Rightarrow> nat \<Rightarrow> nat" where
  "job_rank d s k =
     (case fl_runs s k of
        None \<Rightarrow> max_steps d + 6 * bt_len (dag_nodes d) + 3
      | Some r \<Rightarrow> sys_rank d r + (2 * bt_len (dag_nodes d) + 2 - fl_sent s k))"

definition fleet_rank :: "('p, 'a, 'n) job list \<Rightarrow> ('a, 'n) fleet \<Rightarrow> nat" where
  "fleet_rank jobs s = sum (\<lambda>k. job_rank (fst (jobs ! k)) s k) {..< length jobs}"

lemma fleet_rank_step:
  fixes s t :: "('a, 'n) fleet" and jobs :: "('p, 'a, 'n) job list"
  assumes inv: "fleet_inv x jobs cfg behaves s" and step: "fleet_step x jobs cfg behaves s t"
  shows "fleet_rank jobs t < fleet_rank jobs s"
proof -
  have lower: ?thesis
    if "k < length jobs" "job_rank (fst (jobs ! k)) t k < job_rank (fst (jobs ! k)) s k"
      "\<And>j. j \<noteq> k \<Longrightarrow> fl_runs t j = fl_runs s j \<and> fl_sent t j = fl_sent s j" for k
    unfolding fleet_rank_def using that by (intro sum_lower [of _ k]) (simp_all add: job_rank_def split: option.split)
  show ?thesis
    using step
  proof (cases rule: fleet_step_cases [consumes 1])
    case (1 k)
    let ?d = "fst (jobs ! k)"
    have "targets_known ?d" "bt_wf (dag_nodes ?d)"
      using inv 1(2) by (simp_all add: fleet_inv_def jobs_ok_def)
    from sys_rank_init [OF this refl]
    have "sys_rank ?d (sys_init cfg ?d :: ('a, 'n) system) \<le> max_steps ?d + 4 * bt_len (dag_nodes ?d)" .
    then show ?thesis by (intro lower [OF 1(2)]) (simp_all add: 1(1,3) job_rank_def)
  next
    case (2 k r)
    then show ?thesis
      using fleet_log(2) [OF inv 2(2)] by (intro lower [OF fleet_invD(1) [OF inv 2(2)]]) (simp_all add: job_rank_def)
  next
    case (3 k r r')
    then show ?thesis
      using sys_rank_step [OF fleet_invD(5) [OF inv 3(2)] 3(3)]
      by (intro lower [OF fleet_invD(1) [OF inv 3(2)]]) (simp_all add: job_rank_def)
  qed
qed

interpretation fleet_runs: ranked_steps "fleet_start jobs" "fleet_step x jobs cfg behaves"
  "fleet_inv x jobs cfg behaves" "fleet_rank jobs"
  for x :: "'n ext" and jobs :: "('p, 'a, 'n) job list" and cfg behaves
proof unfold_locales
  fix s :: "('a, 'n) fleet" assume "fleet_start jobs s"
  then show "fleet_inv x jobs cfg behaves s"
    by (simp add: fleet_start_def fleet_inv_def fleet_init_def run_log_def own_events_def)
qed (erule (1) fleet_inv_step fleet_rank_step)+

lemma fleet_rank_init:
  fixes jobs :: "('p, 'a, 'n) job list"
  shows "fleet_rank jobs fleet_init = (\<Sum>(d, factory) \<leftarrow> jobs. max_steps d + 6 * bt_len (dag_nodes d) + 3)"
  by (simp add: fleet_rank_def job_rank_def fleet_init_def sum_list_sum_nth case_prod_beta' atLeast0LessThan)

subsection \<open>Properties\<close>

lemma fleet_reach:
  assumes "jobs_ok jobs" and "(fleet_step x jobs cfg behaves)\<^sup>*\<^sup>* fleet_init s"
  shows "fleet_inv x jobs cfg behaves s"
  using fleet_runs.reachable_inv [OF _ assms(2)] assms(1) by (simp add: fleet_start_def)

text \<open>
  C11: Runs on one scheduler do not disturb each other: whatever the others do, each run is an execution of
  its own, so all that is shown of a run with its tasks holds of it, and its breaker counts none of
  the failures of the others. Their calls of \<open>send\<close> on the channel are mixed, but for workflows
  with different ids the events that carry the id of one workflow are exactly those its run has
  handed over, in their order.
\<close>

theorem concurrent_runs_separate:
  assumes "jobs_ok jobs" and "distinct (job_ids jobs)"
    and "(fleet_step x jobs cfg behaves)\<^sup>*\<^sup>* fleet_init s" and "fl_runs s k = Some r"
  shows "(sys_step x (fst (jobs ! k)) (snd (jobs ! k)) cfg behaves)\<^sup>*\<^sup>* (sys_init cfg (fst (jobs ! k))) r \<and>
    own_events (dag_id (fst (jobs ! k))) (fl_bus s) = take (fl_sent s k) (s_log (sys_sched r))"
proof
  note inv = fleet_reach [OF assms(1,3)]
  show "(sys_step x (fst (jobs ! k)) (snd (jobs ! k)) cfg behaves)\<^sup>*\<^sup>* (sys_init cfg (fst (jobs ! k))) r"
    by (rule fleet_invD(4) [OF inv assms(4)])
  show "own_events (dag_id (fst (jobs ! k))) (fl_bus s) = take (fl_sent s k) (s_log (sys_sched r))"
    using inv assms(2,4) fleet_invD(1) [OF inv assms(4)] by (simp add: fleet_inv_def run_log_def)
qed

text \<open>
  C39: Runs on one scheduler end, and none waits for another: all together make at most \<open>max_steps d\<close>
  steps of the scheduler, four of the tasks and two events for each node, and three more, for each
  run; and as long as a run has not begun, has not returned, has events to send or messages to
  execute, there is a step that leaves all other runs as they are.
\<close>

theorem concurrent_runs_end:
  assumes "jobs_ok jobs" and "(fleet_step x jobs cfg behaves ^^ n) fleet_init s" and "k < length jobs"
  shows "n \<le> (\<Sum>(d, factory) \<leftarrow> jobs. max_steps d + 6 * bt_len (dag_nodes d) + 3) \<and>
    ((\<exists>t. fleet_step x jobs cfg behaves s t \<and> (\<forall>j. j \<noteq> k \<longrightarrow> fl_runs t j = fl_runs s j)) \<or>
     (\<exists>r. fl_runs s k = Some r \<and> s_status (sys_sched r) \<noteq> None \<and> (\<forall>v. in_work (sys_actors r v) = []) \<and>
        fl_sent s k = length (s_log (sys_sched r))))"
proof
  show "n \<le> (\<Sum>(d, factory) \<leftarrow> jobs. max_steps d + 6 * bt_len (dag_nodes d) + 3)"
    using fleet_runs.steps_bounded [OF _ assms(2)] assms(1) unfolding fleet_rank_init by (simp add: fleet_start_def)
  let ?step = "\<lambda>t. fleet_step x jobs cfg behaves s t \<and> (\<forall>j. j \<noteq> k \<longrightarrow> fl_runs t j = fl_runs s j)"
  have inv: "fleet_inv x jobs cfg behaves s"
    by (rule fleet_reach [OF assms(1) relpowp_imp_rtranclp [OF assms(2)]])
  show "(\<exists>t. ?step t) \<or>
     (\<exists>r. fl_runs s k = Some r \<and> s_status (sys_sched r) \<noteq> None \<and> (\<forall>v. in_work (sys_actors r v) = []) \<and>
        fl_sent s k = length (s_log (sys_sched r)))"
  proof (cases "fl_runs s k")
    case None
    from fleet_begin [OF assms(3) None] show ?thesis by (intro disjI1 exI conjI) auto
  next
    case (Some r)
    note I = fleet_invD [OF inv Some]
    show ?thesis
    proof (cases "fl_sent s k = length (s_log (sys_sched r))")
      case False
      then have "fl_sent s k < length (s_log (sys_sched r))" using I(6) by simp
      from fleet_send [OF Some this] show ?thesis by (intro disjI1 exI conjI) auto
    next
      case True
      have "?step (s\<lparr>fl_runs := (fl_runs s)(k \<mapsto> r')\<rparr>)"
        if "sys_step x (fst (jobs ! k)) (snd (jobs ! k)) cfg behaves r r'" for r'
        using fleet_move [OF Some that] True by simp
      then show ?thesis using run_can_move [OF I(5)] task_can_move [OF I(5)] Some True by blast
    qed
  qed
qed

lemma own_events_read: "\<exists>m. own_events w (take n evs) = take m (own_events w evs)"
proof -
  have "own_events w evs = own_events w (take n evs) @ own_events w (drop n evs)"
    using own_events_append [of w "take n evs" "drop n evs"] by simp
  then show ?thesis by (intro exI [where x = "length (own_events w (take n evs))"]) simp
qed

text \<open>
  C12: A subscriber that subscribed before several runs of one scheduler, whenever it reads, gets their
  events without a gap, and all of them once it has read on, if the buffer has room for two events
  per node and two per run. For workflows with different ids, the events it got with the id of
  one of them are those of its run, in their order, from the start of the run on.
\<close>

theorem subscriber_separates_runs:
  assumes "broadcast_laws bc sent room live pos" and "scheduler_new bc sc = Ok sch"
    and "bc_subscribe bc (sh_events (handle sch)) = (rx, ch)"
    and "jobs_ok jobs" and "distinct (job_ids jobs)"
    and "(fleet_step x jobs cfg behaves)\<^sup>*\<^sup>* fleet_init s" and "fl_runs s k = Some r"
    and "(\<Sum>(d, factory) \<leftarrow> jobs. 2 * bt_len (dag_nodes d) + 2) \<le> unat (sc_event_buffer sc)"
    and "published acts = fl_bus s"
  shows "(\<exists>evs m. bus_run bc acts ch rx = map Received evs \<and>
       event_stream ts (bus_run bc acts ch rx) = map (dto_of ts) evs \<and>
       own_events (dag_id (fst (jobs ! k))) evs = take m (s_log (sys_sched r))) \<and>
    bus_run bc (acts @ replicate (length (fl_bus s)) Poll) ch rx = map Received (fl_bus s)"
proof
  note inv = fleet_reach [OF assms(4,6)]
  have "length (fl_bus s) \<le> unat (sc_event_buffer sc)" using fleet_bus_length [OF inv] assms(8) by simp
  note reads = subscriber_reads [OF assms(1-3,9) this]
  obtain n where n: "bus_run bc acts ch rx = map Received (take n (fl_bus s))" using reads(1) by blast
  have "own_events (dag_id (fst (jobs ! k))) (fl_bus s) = take (fl_sent s k) (s_log (sys_sched r))"
    using inv assms(5,7) fleet_invD(1) [OF inv assms(7)] by (simp add: fleet_inv_def run_log_def)
  with own_events_read [of "dag_id (fst (jobs ! k))" n "fl_bus s"]
  obtain m where "own_events (dag_id (fst (jobs ! k))) (take n (fl_bus s)) = take m (s_log (sys_sched r))"
    by (auto simp: min_def split: if_splits)
  with n show "\<exists>evs m. bus_run bc acts ch rx = map Received evs \<and>
       event_stream ts (bus_run bc acts ch rx) = map (dto_of ts) evs \<and>
       own_events (dag_id (fst (jobs ! k))) evs = take m (s_log (sys_sched r))"
    by (auto simp: event_stream_all)
qed (rule subscriber_reads(2) [OF assms(1-3,9)], use fleet_bus_length [OF fleet_reach [OF assms(4,6)]] assms(8) in simp)

text \<open>Two runs of the sample workflow, under two ids; both begin, and the second is the first to send.\<close>

definition two_jobs :: "(string, string, f64) job list" where
  "two_jobs = [(e2e_dag\<lparr>dag_id := 1\<rparr>, \<lambda>i kind. kind), (e2e_dag\<lparr>dag_id := 2\<rparr>, \<lambda>i kind. kind)]"

abbreviation two_step :: "(string, f64) fleet \<Rightarrow> (string, f64) fleet \<Rightarrow> bool" where
  "two_step \<equiv> fleet_step demo_ext two_jobs default_resilience (sample_behaves True)"

lemma two_jobs_ok: "jobs_ok two_jobs" "distinct (job_ids two_jobs)" "length two_jobs = 2"
proof -
  show "jobs_ok two_jobs"
    using sample_known e2e_wf(1)
    by (auto simp: jobs_ok_def two_jobs_def targets_known_def node_ids_def less_Suc_eq)
qed (simp_all add: two_jobs_def job_ids_def)

lemma sys_init_log: "s_log (sys_sched (sys_init cfg d)) = [WorkflowStarted (dag_id d) (dag_name d)]"
  by (cases "incr_indeg (dag_edges d) (init_indeg d)")
    (simp_all add: sys_init_def sched_init_def continue_def stopped_def Let_def)

lemma two_started:
  obtains s where "two_step\<^sup>*\<^sup>* fleet_init s" and "fl_bus s = [WorkflowStarted 2 ''e2e'', WorkflowStarted 1 ''e2e'']"
    and "fl_runs s 0 = Some (sys_init default_resilience (fst (two_jobs ! 0)))" and "fl_sent s 0 = 1"
proof -
  let ?r = "\<lambda>k. sys_init default_resilience (fst (two_jobs ! k)) :: (string, f64) system"
  have log: "s_log (sys_sched (?r 0)) = [WorkflowStarted 1 ''e2e'']" "s_log (sys_sched (?r 1)) = [WorkflowStarted 2 ''e2e'']"
    by (simp_all add: sys_init_log)
      (simp_all add: two_jobs_def e2e_dag_def dag_of_def e2e_builder_def builder_edge_def builder_node_def builder_new_def)
  let ?s1 = "fleet_init\<lparr>fl_runs := (fl_runs fleet_init)(1 \<mapsto> ?r 1)\<rparr>"
  let ?s2 = "?s1\<lparr>fl_runs := (fl_runs ?s1)(0 \<mapsto> ?r 0)\<rparr>"
  let ?s3 = "?s2\<lparr>fl_sent := (fl_sent ?s2)(1 := Suc (fl_sent ?s2 1)),
    fl_bus := fl_bus ?s2 @ [s_log (sys_sched (?r 1)) ! fl_sent ?s2 1]\<rparr>"
  let ?s4 = "?s3\<lparr>fl_sent := (fl_sent ?s3)(0 := Suc (fl_sent ?s3 0)),
    fl_bus := fl_bus ?s3 @ [s_log (sys_sched (?r 0)) ! fl_sent ?s3 0]\<rparr>"
  have 1: "two_step fleet_init ?s1" by (rule fleet_begin) (simp_all add: two_jobs_ok(3) fleet_init_def)
  have 2: "two_step ?s1 ?s2" by (rule fleet_begin) (simp_all add: two_jobs_ok(3) fleet_init_def)
  have 3: "two_step ?s2 ?s3" by (rule fleet_send) (use log(2) in \<open>simp_all add: fleet_init_def\<close>)
  have 4: "two_step ?s3 ?s4" by (rule fleet_send) (use log(1) in \<open>simp_all add: fleet_init_def\<close>)
  show thesis
  proof (rule that)
    show "two_step\<^sup>*\<^sup>* fleet_init ?s4"
      using 1 2 3 4 by (meson rtranclp.rtrancl_refl rtranclp.rtrancl_into_rtrancl)
    show "fl_bus ?s4 = [WorkflowStarted 2 ''e2e'', WorkflowStarted 1 ''e2e'']"
      using log by (simp add: fleet_init_def)
  qed (simp_all add: fleet_init_def)
qed

theorem concurrent_runs_separate_witness:
  "\<exists>s. two_step\<^sup>*\<^sup>* fleet_init s \<and> fl_bus s = [WorkflowStarted 2 ''e2e'', WorkflowStarted 1 ''e2e''] \<and>
    own_events 1 (fl_bus s) = s_log (sys_sched (the (fl_runs s 0)))"
proof -
  obtain s where s: "two_step\<^sup>*\<^sup>* fleet_init s"
    "fl_bus s = [WorkflowStarted 2 ''e2e'', WorkflowStarted 1 ''e2e'']"
    "fl_runs s 0 = Some (sys_init default_resilience (fst (two_jobs ! 0)))" "fl_sent s 0 = 1"
    by (rule two_started)
  have id: "dag_id (fst (two_jobs ! 0)) = 1" by (simp add: two_jobs_def)
  from concurrent_runs_separate [OF two_jobs_ok(1,2) s(1,3)]
  have "own_events 1 (fl_bus s) = s_log (sys_sched (the (fl_runs s 0)))" by (simp add: s(3,4) sys_init_log id)
  with s show ?thesis by blast
qed

theorem subscriber_separates_runs_witness:
  "\<exists>s. two_step\<^sup>*\<^sup>* fleet_init s \<and> fl_bus s = [WorkflowStarted 2 ''e2e'', WorkflowStarted 1 ''e2e''] \<and>
    bus_run demo_bus (map Publish (fl_bus s) @ [Poll, Poll]) ([], 1024, 1) 0 = map Received (fl_bus s)"
proof -
  obtain s where s: "two_step\<^sup>*\<^sup>* fleet_init s"
    "fl_bus s = [WorkflowStarted 2 ''e2e'', WorkflowStarted 1 ''e2e'']"
    "fl_runs s 0 = Some (sys_init default_resilience (fst (two_jobs ! 0)))"
    by (rule two_started)
  have room: "(\<Sum>(d, factory) \<leftarrow> two_jobs. 2 * bt_len (dag_nodes d) + 2) \<le> unat (sc_event_buffer default_scheduler_config)"
    by (simp add: two_jobs_def e2e_nodes bt_len_def default_scheduler_config_def)
  from subscriber_separates_runs [OF demo_bus_laws demo_scheduler two_jobs_ok(1,2) s(1,3) room published_map] s
  show ?thesis by (auto simp: numeral_2_eq_2)
qed

theorem concurrent_runs_end_witness:
  "\<exists>t. two_step fleet_init t \<and> fl_runs t 0 = None"
proof -
  have zero: "(two_step ^^ 0) fleet_init fleet_init" by simp
  have k: "1 < length two_jobs" by (simp add: two_jobs_ok(3))
  from concurrent_runs_end [OF two_jobs_ok(1) zero k] show ?thesis by (auto simp: fleet_init_def)
qed

end
