(* ===== verification/Node_Binary.thy ===== *)
theory Node_Binary
  imports Event_Bus
begin

section \<open>The HTTP API (kernelflow-api) and the node binary (kernelflow-node)\<close>

text \<open>
  The tables the code hands to \<open>axum\<close>, \<open>async-graphql\<close> and \<open>clap\<close>, and the start of the process.
  What a parser, a socket or the server does with them is an argument: \<open>bind\<close>, \<open>serve\<close>, the
  number parser, and the channel of theory \<open>Event_Bus\<close>.
\<close>

type_synonym u16 = "16 word"

subsection \<open>Schema and router\<close>

record 'ch app_state =
  as_events :: 'ch

text \<open>The fields of \<open>QueryRoot\<close>; there is no mutation.\<close>

definition version :: string where
  "version = ''0.1.0''"

definition query_root :: "(string \<times> string) list" where
  "query_root = [(''health'', health), (''version'', version)]"

record 'ch schema =
  gs_query :: "(string \<times> string) list"
  gs_mutation :: "(string \<times> string) list"
  gs_data :: "'ch app_state"

datatype http_method = GET | POST

datatype 'ch service =
    Graphiql string string
  | GraphQL "'ch schema"
  | GraphQL_Subscription "'ch schema"
  | Text string

datatype 'ch method_router = By_Method "(http_method \<times> 'ch service) list" | Any_Method "'ch service"

datatype layer = Cors_Permissive | Trace_Http

record 'ch router =
  rt_routes :: "(string \<times> 'ch method_router) list"
  rt_layers :: "layer list"

definition build_router :: "'ch app_state \<Rightarrow> 'ch router" where
  "build_router state =
     (let schema = \<lparr>gs_query = query_root, gs_mutation = [], gs_data = state\<rparr> in
      \<lparr>rt_routes =
         [(''/graphql'', By_Method [(GET, Graphiql ''/graphql'' ''/ws''), (POST, GraphQL schema)]),
          (''/ws'', Any_Method (GraphQL_Subscription schema)),
          (''/health'', By_Method [(GET, Text ''ok'')])],
       rt_layers = [Cors_Permissive, Trace_Http]\<rparr>)"

text \<open>The receiver of a subscription is one of the sender in the data of the schema.\<close>

definition subscribe_events :: "('ch, 'rx) broadcast \<Rightarrow> 'ch schema \<Rightarrow> 'rx \<times> 'ch" where
  "subscribe_events bc schema = bc_subscribe bc (as_events (gs_data schema))"

subsection \<open>Command line\<close>

record cli =
  http_addr :: string
  p2p_addr :: string
  data_dir :: string
  metrics_port :: u16

text \<open>An option is taken from the arguments, else from the environment, else it is the default.\<close>

definition arg_value :: "(string \<Rightarrow> string option) \<Rightarrow> (string \<Rightarrow> string option) \<Rightarrow> string \<Rightarrow> string \<Rightarrow> string option" where
  "arg_value args env long var = (case args long of Some v \<Rightarrow> Some v | None \<Rightarrow> env var)"

definition or_default :: "'a option \<Rightarrow> 'a \<Rightarrow> 'a" where
  "or_default v d = (case v of Some x \<Rightarrow> x | None \<Rightarrow> d)"

text \<open>\<open>Cli::parse\<close>; it ends the process, here \<open>None\<close>, when the port is not a number.\<close>

definition cli_parse :: "(string \<Rightarrow> u16 option) \<Rightarrow> (string \<Rightarrow> string option) \<Rightarrow> (string \<Rightarrow> string option) \<Rightarrow>
    cli option" where
  "cli_parse parse_u16 args env =
     (let port = (case arg_value args env ''metrics-port'' ''KF_METRICS_PORT'' of
                    None \<Rightarrow> Some 9090 | Some s \<Rightarrow> parse_u16 s)
      in map_option (\<lambda>p.
           \<lparr>http_addr = or_default (arg_value args env ''http-addr'' ''KF_HTTP_ADDR'') ''0.0.0.0:8080'',
            p2p_addr = or_default (arg_value args env ''p2p-addr'' ''KF_P2P_ADDR'') ''/ip4/0.0.0.0/tcp/0'',
            data_dir = or_default (arg_value args env ''data-dir'' ''KF_DATA_DIR'') ''./data'',
            metrics_port = p\<rparr>) port)"

subsection \<open>Main\<close>

text \<open>
  The result of \<open>main\<close> after the command line. An error of the metrics exporter is dropped (\<open>let _\<close>),
  an error of \<open>bind\<close> or \<open>serve\<close> ends the process.
\<close>

definition event_capacity :: u64 where
  "event_capacity = 2048"

definition node_main :: "('ch, 'rx) broadcast \<Rightarrow> (u16 \<Rightarrow> (string, unit) outcome) \<Rightarrow>
    (string \<Rightarrow> (string, 'l) outcome) \<Rightarrow> ('l \<Rightarrow> 'ch router \<Rightarrow> (string, unit) outcome) \<Rightarrow> cli \<Rightarrow>
    (string, unit) outcome" where
  "node_main bc install bind serve cli =
     (case install (metrics_port cli) of
        Panic p \<Rightarrow> Panic p
      | _ \<Rightarrow>
          and_then (map_err error_to_string (bc_channel bc event_capacity)) (\<lambda>(events_tx, rx).
          let state = \<lparr>as_events = bc_drop bc rx events_tx\<rparr>; app = build_router state in
          and_then (bind (http_addr cli)) (\<lambda>listener.
          and_then (serve listener app) (\<lambda>_. Ok ()))))"

subsection \<open>The serving process\<close>

text \<open>
  Once the server runs, clients subscribe and their subscriptions ask for the next event; each is
  kept with what it has yielded, until its receiver fails or its client leaves, which drops the
  receiver. The sender is used for nothing else.
\<close>

record ('ch, 'rx) node_process =
  np_schema :: "'ch schema"
  np_subscriptions :: "('rx \<times> event_dto list) list"

definition node_start :: "'ch app_state \<Rightarrow> ('ch, 'rx) node_process" where
  "node_start state =
     \<lparr>np_schema = \<lparr>gs_query = query_root, gs_mutation = [], gs_data = state\<rparr>, np_subscriptions = []\<rparr>"

definition set_events :: "'ch \<Rightarrow> 'ch schema \<Rightarrow> 'ch schema" where
  "set_events ch schema = schema\<lparr>gs_data := \<lparr>as_events = ch\<rparr>\<rparr>"

inductive node_step :: "('ch, 'rx) broadcast \<Rightarrow> (kernel_event \<Rightarrow> string option) \<Rightarrow>
    ('ch, 'rx) node_process \<Rightarrow> ('ch, 'rx) node_process \<Rightarrow> bool"
  for bc ts where
  node_subscribe:
    "subscribe_events bc (np_schema p) = (rx, ch) \<Longrightarrow>
     node_step bc ts p (p\<lparr>np_schema := set_events ch (np_schema p),
       np_subscriptions := np_subscriptions p @ [(rx, [])]\<rparr>)"
| node_wait:
    "np_subscriptions p = pre @ (rx, out) # post \<Longrightarrow>
     bc_recv bc (as_events (gs_data (np_schema p))) rx = (None, rx') \<Longrightarrow>
     node_step bc ts p (p\<lparr>np_subscriptions := pre @ (rx', out) # post\<rparr>)"
| node_yield:
    "np_subscriptions p = pre @ (rx, out) # post \<Longrightarrow>
     bc_recv bc (as_events (gs_data (np_schema p))) rx = (Some (Received ev), rx') \<Longrightarrow>
     node_step bc ts p (p\<lparr>np_subscriptions := pre @ (rx', out @ [dto_of ts ev]) # post\<rparr>)"
| node_end:
    "np_subscriptions p = pre @ (rx, out) # post \<Longrightarrow> ch = as_events (gs_data (np_schema p)) \<Longrightarrow>
     bc_recv bc ch rx = (Some r, rx') \<Longrightarrow> \<forall>ev. r \<noteq> Received ev \<Longrightarrow>
     node_step bc ts p (p\<lparr>np_schema := set_events (bc_drop bc rx' ch) (np_schema p),
       np_subscriptions := pre @ post\<rparr>)"
| node_leave:
    "np_subscriptions p = pre @ (rx, out) # post \<Longrightarrow> ch = as_events (gs_data (np_schema p)) \<Longrightarrow>
     node_step bc ts p (p\<lparr>np_schema := set_events (bc_drop bc rx ch) (np_schema p),
       np_subscriptions := pre @ post\<rparr>)"

inductive_cases node_step_cases: "node_step bc ts p q"

definition silent :: "('ch \<Rightarrow> kernel_event list) \<Rightarrow> ('ch \<Rightarrow> 'rx \<Rightarrow> nat option) \<Rightarrow>
    ('ch, 'rx) node_process \<Rightarrow> bool" where
  "silent sent pos p \<longleftrightarrow> (\<forall>(rx, out) \<in> set (np_subscriptions p).
     pos (as_events (gs_data (np_schema p))) rx =
       Some (length (sent (as_events (gs_data (np_schema p))))) \<and> out = [])"

lemma silent_step:
  assumes laws: "broadcast_laws bc sent room live pos" and quiet: "silent sent pos p"
    and step: "node_step bc ts p q"
  shows "silent sent pos q"
proof -
  let ?ch = "as_events (gs_data (np_schema p))"
  have at: "pos ?ch rx = Some (length (sent ?ch))" if "(rx, out) \<in> set (np_subscriptions p)" for rx out
    using quiet that by (auto simp: silent_def)
  then have none: "bc_recv bc ?ch rx = (None, rx)" if "(rx, out) \<in> set (np_subscriptions p)" for rx out
    by (rule broadcast_lawsD(8) [OF laws]) (use that in blast)
  show ?thesis
    using step
  proof (cases rule: node_step_cases [consumes 1])
    case (1 rx ch)
    from broadcast_lawsD(5) [OF laws] 1(2)
    have "pos ch rx = Some (length (sent ch)) \<and> sent ch = sent ?ch \<and> keeps_pos pos ?ch ch"
      by (simp add: subscribe_events_def)
    with quiet show ?thesis by (auto simp: silent_def 1(1) set_events_def keeps_pos_def)
  next
    case (2 pre rx out post rx')
    then show ?thesis using quiet none [of rx out] by (auto simp: silent_def)
  next
    case (3 pre rx out post ev rx')
    then show ?thesis using none [of rx out] by simp
  next
    case (4 pre rx out post r rx')
    then show ?thesis using none [of rx out] by simp
  next
    case (5 pre rx out post)
    from broadcast_lawsD(6) [OF laws at [of rx out]] 5(2)
    have "sent (bc_drop bc rx ?ch) = sent ?ch \<and> keeps_pos pos ?ch (bc_drop bc rx ?ch)" by simp
    moreover have "pos ?ch rx' = Some (length (sent ?ch)) \<and> out' = []"
      if "(rx', out') \<in> set pre \<union> set post" for rx' out'
      using quiet 5(2) that by (auto simp: silent_def)
    ultimately show ?thesis by (auto simp: silent_def 5(1) set_events_def keeps_pos_def)
  qed
qed

interpretation process: step_invariant "\<lambda>p. p = node_start state" "node_step bc ts"
  "\<lambda>p. broadcast_laws bc sent room live pos \<longrightarrow> silent sent pos p" for state bc ts sent room live pos
  by unfold_locales (use silent_step in \<open>fastforce simp: silent_def node_start_def\<close>)+

subsection \<open>Properties of the binary\<close>

text \<open>
  What \<open>main\<close> does after the command line: it binds the HTTP address and serves the router over a
  fresh channel; an error of the metrics exporter is ignored, one of \<open>bind\<close> or of the server is
  returned. The options for the peer-to-peer address and the data directory change nothing.
\<close>

theorem node_main_result:
  assumes "broadcast_laws bc sent room live pos" and "no_panic (install (metrics_port cli))"
  shows "\<exists>events rx. bc_channel bc 2048 = Ok (events, rx) \<and>
    node_main bc install bind serve cli =
      (case bind (http_addr cli) of
         Ok l \<Rightarrow> serve l (build_router \<lparr>as_events = bc_drop bc rx events\<rparr>)
       | Err e \<Rightarrow> Err e
       | Panic p \<Rightarrow> Panic p) \<and>
    node_main bc install bind serve (cli\<lparr>p2p_addr := a, data_dir := b\<rparr>) = node_main bc install bind serve cli"
proof -
  obtain events rx where ch: "bc_channel bc 2048 = Ok (events, rx)"
    using broadcast_lawsD(2) [OF assms(1), of 2048] by (auto simp: usize_max_def)
  have unit: "and_then r Ok = r" for r :: "(string, unit) outcome" by (cases r) simp_all
  show ?thesis
    using assms(2) ch
    by (intro exI [where x = events] exI [where x = rx])
      (auto simp: node_main_def event_capacity_def unit Let_def split: outcome.split)
qed

definition demo_cli :: cli where
  "demo_cli = the (cli_parse (\<lambda>s. None) (\<lambda>a. None) (\<lambda>v. None))"

theorem node_main_result_witness:
  "node_main demo_bus (\<lambda>port. Err ''in use'') (\<lambda>addr. if addr = ''0.0.0.0:8080'' then Err ''denied'' else Ok ())
     (\<lambda>l app. Ok ()) demo_cli = Err ''denied''"
  using node_main_result [OF demo_bus_laws, where install = "\<lambda>port. Err ''in use''" and cli = demo_cli
      and bind = "\<lambda>addr. if addr = ''0.0.0.0:8080'' then Err ''denied'' else Ok ()" and serve = "\<lambda>l app. Ok ()"]
  by (simp add: demo_cli_def cli_parse_def arg_value_def or_default_def)

text \<open>
  The binary never delivers an event: whatever clients do, no subscription yields anything and none
  ends, since the sender that \<open>main\<close> creates is given to the API and nobody sends on it.
\<close>

theorem node_never_delivers:
  assumes "broadcast_laws bc sent room live pos"
    and "(node_step bc ts)\<^sup>*\<^sup>* (node_start \<lparr>as_events = events\<rparr>) p"
  shows "\<forall>(rx, out) \<in> set (np_subscriptions p). out = [] \<and>
    bc_recv bc (as_events (gs_data (np_schema p))) rx = (None, rx)"
proof -
  have "silent sent pos p"
    using process.reachable_inv [OF refl assms(2), of sent room live pos] assms(1) by blast
  then show ?thesis using broadcast_lawsD(8) [OF assms(1)] by (auto simp: silent_def)
qed

theorem node_never_delivers_witness:
  "bc_recv demo_bus ([], 2048, 1) 0 = (None, 0)"
proof -
  let ?p = "node_start \<lparr>as_events = ([] :: kernel_event list, 2048 :: nat, 0 :: nat)\<rparr> ::
    (kernel_event list \<times> nat \<times> nat, nat) node_process"
  have "subscribe_events demo_bus (np_schema ?p) = (0, ([], 2048, 1))"
    by (simp add: subscribe_events_def node_start_def demo_bus_def)
  from node_subscribe [OF this, of "\<lambda>ev. None"]
  have "(node_step demo_bus (\<lambda>ev. None))\<^sup>*\<^sup>* ?p
      (?p\<lparr>np_schema := set_events ([], 2048, 1) (np_schema ?p), np_subscriptions := [(0, [])]\<rparr>)"
    by (intro r_into_rtranclp) (simp add: node_start_def)
  from node_never_delivers [OF demo_bus_laws this] show ?thesis
    by (simp add: set_events_def)
qed

end
