(* ===== verification/Spec2Isabelle.thy ===== *)
theory Spec2Isabelle
  imports Unit_Tests Anchor Sandbox Eth_System Concurrent_Runs Node_Binary "HOL-Library.Countable"
begin

text \<open>
  KernelFlow: a verification of the workflow kernel

  KernelFlow runs workflows. A workflow is a directed acyclic graph of nodes that exchange JSON
  values; a scheduler starts one actor per node, runs every node whose parents are done, protects
  each execution by a rate limiter, a circuit breaker, a timeout and retries, and returns the
  SHA-256 hash of all outputs, the attestation hash. Around this core are a library of nodes with a
  registry, a pool of operators with a matchmaker, an embedded store, a signer of attestations with
  an on-chain program, a WASM sandbox, a synthesizer of workflows, and two consumers of events.
  Every definition is translated from the sources under src/crates and src/anchor; integers keep
  their width, and every function that can fail returns an outcome: \<open>Ok\<close>, \<open>Err\<close> or \<open>Panic\<close>.

  Foundations
    Prelude         outcomes, machine integers, checked and saturating arithmetic; the locales
                    \<open>step_invariant\<close> and \<open>ranked_steps\<close> for step relations; lists
    BTree_Map       BTreeMap: a key-sorted association list, with the locale \<open>ordered_map\<close> it meets
    Hash_Map        HashMap: an association list in any order, with the locale \<open>lookup_table\<close>
    Sort_By         slice::sort_by: stable insertion, with the locale \<open>key_comparison\<close>
    Std_Time        Duration and Instant, their arithmetic and debug text
    F64, F64_Rounding   binary64 with rounding to nearest, and its relation to real numbers
    Demo_Ext        a concrete instance of the external functions, at which properties are applied

  Components
    Kernel_Core     kernelflow-core: error.rs, event.rs, node.rs
    Hashing         kernelflow-core: hash.rs
    Dag             kernelflow-core: dag.rs (conditions, Kahn's algorithm, the builder)
    Capability      kernelflow-core: capability.rs
    Resilience      kernelflow-scheduler: resilience.rs
    Actor           kernelflow-scheduler: actor.rs
    Scheduler, Scheduler_Spec   kernelflow-scheduler: scheduler.rs and its sequential specification
    Nodes, Nodes_Spec           kernelflow-nodes: every node, the registry, what they promise
    Operator, Matchmaker        kernelflow-matchmaker: operator.rs, strategy.rs
    Storage         kernelflow-storage
    Attest, Anchor  kernelflow-attest and its Anchor program
    Sandbox         kernelflow-sandbox
    Ai              kernelflow-ai
    Event_Stream    kernelflow-api (the subscription) and kernelflow-p2p
    Event_Bus       the broadcast channel between Scheduler::new, Scheduler::handle and subscribers
    Node_Binary     kernelflow-api (schema, router) and the binary of kernelflow-node
    Workflow        what a call may answer: actors, executor and node library put together
    Run_System      a run as a system of tasks: scheduler, actors and their shared breaker
    Run_Order       which nodes of a run can be at work or have failed together
    Shared_Breaker  what the breaker of a run has counted
    System_Runs     properties of such runs, and that every order of completions is one
    Concurrent_Runs several runs at the same time on one scheduler
    Eth_Threshold, Eth_System   the example program of kernelflow-node, also with its tasks
    Unit_Tests      the unit tests of the crates, which hold of the model
    Spec2Isabelle   properties that span components

  How state and operations correspond to the code. \<open>Scheduler::run\<close> is the relation
  \<open>sched_step\<close> on the record \<open>sched\<close> of its local variables: one step dispatches
  the ready nodes, settles one completion (any future in flight may be next) or finishes;
  \<open>drive\<close> is the same as a function of the order of completions. The start is
  \<open>run_begin\<close>: it calls the node factory for every node, which may panic, and otherwise is
  \<open>sched_init\<close>. The event channel is the log of that state. What \<open>NodeActor::call\<close> may answer is a relation, and
  \<open>workflow_calls\<close> is its instance for library nodes behind
  \<open>ResilientExecutor::run\<close>. The relation \<open>sys_step\<close> has one task per actor and the
  breaker as shared state: its steps are a dispatch, the first poll of a future, a task taking, being
  admitted, answering or dying, and the scheduler taking a reply. The relation \<open>fleet_step\<close>
  interleaves several such systems and their calls of \<open>send\<close> on the one channel of their scheduler. An actor,
  the pool of operators, the breaker and the accounts of the program are step relations too, each with an
  invariant proved for all reachable states. The operations of the registries, the store and the nodes are
  functions, one per function of the code.

  What is shown. Graphs: \<open>topo_sort\<close> never panics, returns a topological order of exactly the
  nodes, and reports a cycle exactly if there is one; what \<open>build\<close> returns on every branch.
  Scheduler: a run panics only at its start, if the node factory panics or an edge leads to an unknown node;
  it ends; nodes start once and after their parents; a returned hash covers the outputs of all nodes and is
  in the last event; a run refines the sequential
  execution, whatever the order of completions; the hash does not depend on executor or order. Tasks: the
  system of tasks refines the scheduler with the call relation, so all of this holds of it; it ends within a
  bound, never deadlocks, and succeeds when no call fails; every actor gets one message, and only after all
  nodes before it succeeded, so nodes at work or failed are unrelated; the breaker of a run refuses nothing
  in graphs without more unrelated nodes than its threshold, and a task dies only by a panic of its node, an
  overflow of the backoffs, or that breaker opening. Several runs on one scheduler are runs of their own
  that end without waiting for each other, and their events stay apart by the id of the workflow. Events: a
  subscriber of several runs reads all of them if the buffer has room for two events per node and two per
  run. Executor: the result and the breaker's state on every branch, overflows included; the breaker refines an unbounded
  counter. Actors answer in order, lose nothing, and answer as the relation used by the scheduler allows.
  Nodes: the median is a median, the threshold compares real numbers, the registry is sound. Pool: resources
  in flight are exactly the reservations held and never exceed the capacity; reputations stay between 0 and
  1; selection is complete and best up to its margin, and the selected operator can be reserved. Hashing: the canonical form identifies exactly the
  values that differ in the order of entries, and the attestation hash commits to the outputs: two runs with one
  hash have the same outputs or their serializations are a collision. Stores refine a map. Attestations pass
  their check, which is bound to workflow, hash and key; on-chain records are final. A WASM node never
  computes anything, as its engine interrupts by epochs and no deadline is set. The example attests to one
  known map.

  Bounds and fuel. \<open>drive\<close> takes a number of steps;
  \<open>max_steps d = 2 * (nodes + edges) + 1\<close> of them are enough for every run of \<open>d\<close>,
  because every step lowers the rank of the state; with its tasks a run has at most four more steps per
  node, and its events add two per node and three. The loops of \<open>topo_sort\<close> and of the retries are total functions with their measures.
  Counters of elements in memory are natural numbers with checked subtraction; capacities asked for, sizes,
  gas, counters of failures and resources are words, and arrays of fixed size are functions of their indices.

  Parameters. Code that is not in the repository is an argument: \<open>serde_json\<close>,
  \<open>sha2\<close> and \<open>hex\<close> (record \<open>ext\<close>), the HTTP client and derived
  deserializers (\<open>node_env\<close>), the limiter, the clock and the timeouts (arguments of
  \<open>run\<close>), the random choice of \<open>select\<close>, \<open>rocksdb\<close> and
  \<open>bincode\<close>, \<open>ed25519_dalek\<close> and \<open>uuid\<close>, \<open>wasmtime\<close>,
  \<open>libp2p\<close>, the RPC client and the Solana runtime. What the properties assume of them is a
  named law (\<open>to_value_laws\<close>, \<open>as_f64_laws\<close>, \<open>f64_json_laws\<close>,
  \<open>print_laws\<close>, \<open>broadcast_laws\<close>, \<open>epoch_laws\<close>, \<open>rocks_laws\<close>, \<open>bincode_laws\<close>,
  \<open>ed25519_laws\<close>, \<open>codec_laws\<close>) that states its documented behaviour.

  Builds. Arithmetic is checked and a panic of a node unwinds its task, as in the development profile. In
  the release profile of the workspace overflow wraps and a panic aborts the process; where an overflow is
  shown not to happen, the two agree.

  Not modelled. Logging, the metrics exporter, and how the HTTP server matches requests to the table of the
  router: other packages do that. Derived serializers are parameters. The guard type
  \<open>Reservation\<close> of capability.rs is a plain record that nothing constructs.
\<close>

section \<open>Workflows as a whole\<close>

text \<open>
  The attestation hash of a workflow of library nodes without network access does not depend
  on the executor: two runs that return a hash return the same one, under any two executions of
  the limiter, the breaker, the clock, the timeouts and retries, and any order of completion.
\<close>

theorem workflow_hash_deterministic:
  assumes "build uid b = Ok d" and "bt_wf (b_nodes b)" and "offline_workflow d factory"
    and "(sched_step x d factory (workflow_calls cfg x env))\<^sup>*\<^sup>* (sched_init d) st"
    and "s_status st = Some (Ok h)"
    and "(sched_step x d factory (workflow_calls cfg x env))\<^sup>*\<^sup>* (sched_init d) st'"
    and "s_status st' = Some (Ok h')"
  shows "h = h'"
proof -
  obtain order where order: "topo_sort d = Ok order" using build_Ok(3) [OF assms(1,2)] by blast
  show ?thesis
    by (rule hash_agree [OF build_Ok(1,2) [OF assms(1,2)] order workflow_calls_value [OF assms(3)]
          assms(4-7)])
qed

theorem workflow_hash_deterministic_witness:
  "s_status (eth_drive (\<lambda>n. n)) = s_status (eth_drive (\<lambda>n. 0))"
proof -
  note ok = eth_drive_Ok [OF demo_f64_json demo_calm, where uid = 7]
  from workflow_hash_deterministic [OF eth_build [of 7] _ eth_offline
      drive_behind_executor [OF demo_calm] ok [where pick = "\<lambda>n. n"]
      drive_behind_executor [OF demo_calm] ok [where pick = "\<lambda>n. 0"]]
  show ?thesis by (simp add: eth_builder_dag eth_wf ok)
qed

text \<open>
  The scheduler passes the outputs of the parents beside the payload, and the payload is always
  null; so the nodes that read their payload do not see them: in every workflow the sha256 node
  answers the hash of null, and a WASM node the same for all parents.
\<close>

theorem payload_nodes_ignore_parents:
  "execute x env Sha256Node c (make_input d outs v) =
     Ok \<lparr>out_value = JString (hash_json x JNull), out_gas_used = 5\<rparr> \<and>
   wasm_execute ij wt node c (make_input d outs v) = wasm_execute ij wt node c' (make_input d' outs' v')"
proof
  have null: "in_payload (make_input d outs v) = JNull" for d :: "('p, 'n) dag" and outs v
    by (simp add: make_input_def)
  show "execute x env Sha256Node c (make_input d outs v) =
      Ok \<lparr>out_value = JString (hash_json x JNull), out_gas_used = 5\<rparr>"
    by (simp add: sha256_execute_def null)
qed (rule wasm_execute_payload, simp add: make_input_def)

text \<open>
  C13: The attestation hash commits to the outputs. It is the hexadecimal digest of the bytes to which
  the outputs serialize, in key order. If two runs, of the same workflow or of different ones, return
  the same hash, then they computed the same outputs for the same node names, or the
  serializations of the outputs of the two runs are an explicit collision of SHA-256: two different
  byte strings with the same digest.
\<close>

theorem attestation_commits:
  assumes "to_value_laws x" and "print_laws x parse"
    and "targets_known d" and "bt_wf (dag_nodes d)"
    and "(sched_step x d factory R)\<^sup>*\<^sup>* (sched_init d) st" and "s_status st = Some (Ok h)"
    and "targets_known d'" and "bt_wf (dag_nodes d')"
    and "(sched_step x d' factory' R')\<^sup>*\<^sup>* (sched_init d') st'" and "s_status st' = Some (Ok h)"
    and "wf_json (JObject (s_outputs st))" and "wf_json (JObject (s_outputs st'))"
  shows "let b = to_vec x (JObject (s_outputs st)); b' = to_vec x (JObject (s_outputs st'))
    in h = hex_encode x (sha256_digest x b) \<and> h = hex_encode x (sha256_digest x b') \<and>
       (s_outputs st = s_outputs st' \<or> (b \<noteq> b' \<and> sha256_digest x b = sha256_digest x b'))"
proof -
  have h: "h = hash_json_map x (s_outputs st)" "h = hash_json_map x (s_outputs st')"
    using reachable_sched_inv [OF assms(3-5)] reachable_sched_inv [OF assms(7-9)] assms(6,10)
    by (simp_all add: sched_inv_def)
  with hash_commits [OF assms(1,2,11,12)] hash_map_bytes [OF assms(1,11)] hash_map_bytes [OF assms(1,12)]
  show ?thesis by (simp only: Let_def)
qed

instance json :: (countable) countable
  by countable_datatype

text \<open>An instance in which a value is printed as its number in unary, and nothing is hashed.\<close>

definition unary_ext :: "nat ext" where
  "unary_ext =
     \<lparr>to_value = (\<lambda>v. v), map_to_value = JObject, to_vec = (\<lambda>v. replicate (to_nat v) 0),
      sha256_digest = (\<lambda>b. b), hex_encode = map (\<lambda>b. char_of (unat b)),
      json_pointer = (\<lambda>v p. None), json_eq = (=), as_f64 = (\<lambda>v. None), json_get = (\<lambda>v k. None),
      json_of_f64 = (\<lambda>f. JNull)\<rparr>"

definition single_dag :: "uuid \<Rightarrow> (unit, nat) dag" where
  "single_dag uid = \<lparr>dag_id = uid, dag_name = ''one'', dag_nodes = [(''a'', ())], dag_edges = []\<rparr>"

abbreviation single_run :: "uuid \<Rightarrow> (unit, nat) sched" where
  "single_run uid \<equiv> drive unary_ext (single_dag uid) (\<lambda>i p. p)
     (\<lambda>actor input. Ok \<lparr>out_value = JNull, out_gas_used = 0\<rparr>) (\<lambda>n. n) 3 (sched_init (single_dag uid))"

lemma unary_laws: "to_value_laws unary_ext" "print_laws unary_ext (\<lambda>b. Some (from_nat (length b)))"
proof -
  have "inj (map (\<lambda>b :: u8. char_of (unat b) :: char))"
    by (rule inj_mapI) (rule injI, metis of_char_char_of_unat)
  then show "to_value_laws unary_ext" "print_laws unary_ext (\<lambda>b. Some (from_nat (length b)))"
    by (simp_all add: unary_ext_def to_value_laws_def print_laws_def)
qed

lemma single_known: "targets_known (single_dag uid)" "bt_wf (dag_nodes (single_dag uid))"
  by (simp_all add: single_dag_def targets_known_def bt_wf_def)

lemma single_outputs: "s_outputs (single_run uid) = [(''a'', JNull)]"
  "s_status (single_run uid) = Some (Ok (hash_json_map unary_ext [(''a'', JNull)]))"
  by (simp_all add: numeral_3_eq_3 sched_init_def single_dag_def init_indeg_def bt_keys_def bt_new_def
      zero_indeg_def continue_def dispatch_def actor_map_def settle_def complete_def finish_def
      stopped_def children_def bt_len_def Let_def bt_collect_def)

lemma single_steps:
  "(sched_step unary_ext (single_dag uid) (\<lambda>i p. p)
      (replies_of (\<lambda>actor input. Ok \<lparr>out_value = JNull, out_gas_used = 0\<rparr>)))\<^sup>*\<^sup>*
    (sched_init (single_dag uid)) (single_run uid)"
  by (rule drive_steps) (simp add: calm_def)

theorem attestation_commits_witness:
  "s_outputs (single_run 1) = s_outputs (single_run 2)"
proof -
  have wf: "wf_json (JObject (s_outputs (single_run uid)))" for uid
    unfolding single_outputs by (simp add: bt_wf_def)
  show ?thesis
    using attestation_commits [OF unary_laws single_known single_steps single_outputs(2)
          single_known single_steps single_outputs(2) wf wf, of 1 2]
    by (simp add: Let_def unary_ext_def)
qed

end
